(* ===== verification/Rust_Prelude.thy ===== *)
theory Rust_Prelude
  imports
    Main
    "HOL-Library.Word"
    "HOL-Library.Char_ord"
    "HOL-Library.List_Lexorder"
    "HOL-Library.Product_Lexorder"
    "HOL-Library.Sublist"
    "HOL-Library.Multiset"
begin

text \<open>
  What the Rust sources use of the language and of its standard library, and the lemmas about
  it that every component shares.

  A Rust \<open>String\<close> or \<open>&str\<close> is a \<^typ>\<open>string\<close>: the list of its UTF-8 bytes. \<open>str::cmp\<close> is the
  bytewise lexicographic order, which is the order HOL-Library.List_Lexorder and
  HOL-Library.Char_ord give to \<^typ>\<open>string\<close>. Machine integers keep their width; arithmetic
  wraps, as it does in a release build. A signed \<open>i64\<close> is a 64-bit word read through
  \<^term>\<open>sint\<close>.
\<close>

section \<open>Types and collections of facts\<close>

type_synonym u32 = "32 word"
type_synonym u64 = "64 word"
type_synonym i64 = "64 word"
type_synonym bytes = string
type_synonym path = "string list"

named_theorems str_simps \<open>evaluation and algebra of the string operations\<close>

section \<open>Strings\<close>

text \<open>UTF-8, as \<open>OsString::into_string\<close> checks it: one to four bytes per character, no overlong form, no
  surrogate, nothing above U+10FFFF.\<close>

definition is_continuation :: "char \<Rightarrow> bool" where
  "is_continuation c \<longleftrightarrow> 0x80 \<le> (of_char c :: nat) \<and> (of_char c :: nat) < 0xC0"

definition utf8_second :: "nat \<Rightarrow> nat \<Rightarrow> bool" where
  "utf8_second a b \<longleftrightarrow>
     (if a = 0xE0 then 0xA0 \<le> b \<and> b < 0xC0
      else if a = 0xED then 0x80 \<le> b \<and> b < 0xA0
      else if a = 0xF0 then 0x90 \<le> b \<and> b < 0xC0
      else if a = 0xF4 then 0x80 \<le> b \<and> b < 0x90
      else 0x80 \<le> b \<and> b < 0xC0)"

fun is_utf8 :: "string \<Rightarrow> bool" where
  "is_utf8 [] = True"
| "is_utf8 (a # s) =
     (let n = (of_char a :: nat)
      in if n < 0x80 then is_utf8 s
         else if 0xC2 \<le> n \<and> n < 0xE0 then
           (case s of b # s \<Rightarrow> is_continuation b \<and> is_utf8 s | _ \<Rightarrow> False)
         else if 0xE0 \<le> n \<and> n < 0xF0 then
           (case s of b # c # s \<Rightarrow> utf8_second n (of_char b) \<and> is_continuation c \<and> is_utf8 s | _ \<Rightarrow> False)
         else if 0xF0 \<le> n \<and> n < 0xF5 then
           (case s of
              b # c # d # s \<Rightarrow> utf8_second n (of_char b) \<and> is_continuation c \<and> is_continuation d \<and> is_utf8 s
            | _ \<Rightarrow> False)
         else False)"

lemma is_utf8_ascii: "(\<And>c. c \<in> set s \<Longrightarrow> (of_char c :: nat) < 0x80) \<Longrightarrow> is_utf8 s"
  by (induction s) (simp_all add: Let_def)

text \<open>\<open>&s[..n]\<close>: \<open>None\<close> is a panic.\<close>

definition is_char_boundary :: "string \<Rightarrow> nat \<Rightarrow> bool" where
  "is_char_boundary s n \<longleftrightarrow> n = 0 \<or> n = length s \<or> (n < length s \<and> \<not> is_continuation (s ! n))"

definition slice_to :: "string \<Rightarrow> nat \<Rightarrow> string option" where
  "slice_to s n = (if is_char_boundary s n then Some (take n s) else None)"

text \<open>\<open>str::contains\<close> with a string pattern.\<close>

fun str_contains :: "string \<Rightarrow> string \<Rightarrow> bool" where
  "str_contains [] pat = (pat = [])"
| "str_contains (c # s) pat = (prefix pat (c # s) \<or> str_contains s pat)"

text \<open>\<open>str::replace\<close> with a non-empty string pattern: matches are found from the left and do not
  overlap. (The sources never pass an empty pattern.)\<close>

function str_replace :: "string \<Rightarrow> string \<Rightarrow> string \<Rightarrow> string" where
  "str_replace pat rep [] = []"
| "str_replace pat rep (c # s) =
     (if pat \<noteq> [] \<and> prefix pat (c # s)
      then rep @ str_replace pat rep (drop (length pat) (c # s))
      else c # str_replace pat rep s)"
  by pat_completeness auto
termination
  by (relation "measure (\<lambda>(pat, rep, s). length s)") auto

text \<open>\<open>str::replace\<close> with a character pattern.\<close>

definition replace_char :: "char \<Rightarrow> string \<Rightarrow> string \<Rightarrow> string" where
  "replace_char a rep s = concat (map (\<lambda>c. if c = a then rep else [c]) s)"

text \<open>\<open>str::split\<close> with a character pattern.\<close>

fun split_on :: "char \<Rightarrow> string \<Rightarrow> string list" where
  "split_on a [] = [[]]"
| "split_on a (c # s) =
     (if c = a then [] # split_on a s
      else (case split_on a s of [] \<Rightarrow> [[c]] | w # ws \<Rightarrow> (c # w) # ws))"

text \<open>\<open>[String]::join\<close>.\<close>

fun join :: "string \<Rightarrow> string list \<Rightarrow> string" where
  "join sep [] = []"
| "join sep [x] = x"
| "join sep (x # y # xs) = x @ sep @ join sep (y # xs)"

text \<open>\<open>str::split_whitespace\<close> on ASCII white space.\<close>

definition is_whitespace :: "char \<Rightarrow> bool" where
  "is_whitespace c \<longleftrightarrow> c = CHR '' '' \<or> (9 \<le> (of_char c :: nat) \<and> (of_char c :: nat) \<le> 13)"

fun split_ws_from :: "string \<Rightarrow> string \<Rightarrow> string list" where
  "split_ws_from w [] = (if w = [] then [] else [w])"
| "split_ws_from w (c # s) =
     (if is_whitespace c then (if w = [] then split_ws_from [] s else w # split_ws_from [] s)
      else split_ws_from (w @ [c]) s)"

definition split_whitespace :: "string \<Rightarrow> string list" where
  "split_whitespace s = split_ws_from [] s"

text \<open>\<open>str::starts_with\<close>, \<open>str::ends_with\<close>.\<close>

abbreviation starts_with :: "string \<Rightarrow> string \<Rightarrow> bool" where
  "starts_with s p \<equiv> prefix p s"

abbreviation ends_with :: "string \<Rightarrow> string \<Rightarrow> bool" where
  "ends_with s p \<equiv> suffix p s"

text \<open>\<open>Path::join\<close> on Unix paths.\<close>

definition path_join :: "string \<Rightarrow> string \<Rightarrow> string" where
  "path_join p q =
     (if q \<noteq> [] \<and> hd q = CHR ''/'' then q
      else if p = [] \<or> last p = CHR ''/'' then p @ q
      else p @ ''/'' @ q)"

text \<open>\<open>Option::or\<close>, \<open>Option::unwrap_or\<close>.\<close>

definition opt_or :: "'a option \<Rightarrow> 'a option \<Rightarrow> 'a option" where
  "opt_or a b = (case a of Some x \<Rightarrow> Some x | None \<Rightarrow> b)"

definition unwrap_or :: "'a option \<Rightarrow> 'a \<Rightarrow> 'a" where
  "unwrap_or a d = (case a of Some x \<Rightarrow> x | None \<Rightarrow> d)"

section \<open>Decimal numbers\<close>

text \<open>\<open>format!("{}", n)\<close> of an unsigned number.\<close>

definition digit_char :: "nat \<Rightarrow> char" where
  "digit_char d = char_of (48 + d)"

fun show_nat :: "nat \<Rightarrow> string" where
  "show_nat n = (if n < 10 then [digit_char n] else show_nat (n div 10) @ [digit_char (n mod 10)])"

declare show_nat.simps [simp del]

text \<open>\<open>str::parse::<u64>\<close>: an optional \<open>+\<close>, then at least one decimal digit, no overflow.\<close>

definition digit_value :: "char \<Rightarrow> nat option" where
  "digit_value c =
     (let n = (of_char c :: nat) in if 48 \<le> n \<and> n \<le> 57 then Some (n - 48) else None)"

fun parse_digits :: "nat \<Rightarrow> string \<Rightarrow> nat option" where
  "parse_digits acc [] = Some acc"
| "parse_digits acc (c # s) =
     (case digit_value c of
        None \<Rightarrow> None
      | Some d \<Rightarrow> if 10 * acc + d < 2 ^ 64 then parse_digits (10 * acc + d) s else None)"

definition parse_u64 :: "string \<Rightarrow> u64 option" where
  "parse_u64 s =
     (let t = (case s of [] \<Rightarrow> [] | c # r \<Rightarrow> if c = CHR ''+'' then r else s)
      in if t = [] then None else map_option of_nat (parse_digits 0 t))"

section \<open>Lemmas on options\<close>

lemma opt_or_simps [simp]: "opt_or (Some x) b = Some x" "opt_or None b = b"
  by (simp_all add: opt_or_def)

lemma unwrap_or_simps [simp]: "unwrap_or (Some x) d = x" "unwrap_or None d = d"
  by (simp_all add: unwrap_or_def)

lemma opt_or_assoc: "opt_or (opt_or a b) c = opt_or a (opt_or b c)"
  by (cases a) auto

section \<open>Lemmas on strings\<close>

lemma str_contains_iff: "str_contains s pat \<longleftrightarrow> sublist pat s"
  by (induction s) (auto simp: sublist_Cons_right)

lemma replace_char_Nil [simp, str_simps]: "replace_char a rep [] = []"
  by (simp add: replace_char_def)

lemma replace_char_Cons [simp, str_simps]:
  "replace_char a rep (c # s) = (if c = a then rep else [c]) @ replace_char a rep s"
  by (simp add: replace_char_def)

lemma replace_char_append [simp]:
  "replace_char a rep (s @ t) = replace_char a rep s @ replace_char a rep t"
  by (simp add: replace_char_def)

lemma set_replace_char:
  "set (replace_char a rep s) = (set s - {a}) \<union> (if a \<in> set s then set rep else {})"
  by (induction s) auto

lemma replace_char_id: "a \<notin> set s \<Longrightarrow> replace_char a rep s = s"
  by (induction s) auto

text \<open>A one-character string pattern is a character pattern.\<close>

lemma str_replace_single: "str_replace [a] rep s = replace_char a rep s"
  by (induction "[a]" rep s rule: str_replace.induct) auto

lemma sublist_append_disjoint: "sublist q (rep @ s) \<Longrightarrow> set q \<inter> set rep = {} \<Longrightarrow> sublist q s"
proof (induction rep)
  case (Cons r rep)
  then show ?case by (cases q) (auto simp: sublist_Cons_right)
qed simp

lemma set_str_replace: "set (str_replace pat rep s) \<subseteq> set s \<union> set rep"
proof (induction pat rep s rule: str_replace.induct)
  case (2 pat rep c s)
  then show ?case
    using set_drop_subset [of "length pat" "c # s"] by (auto split: if_splits)
qed simp

text \<open>A non-empty replacement that shares no character with \<open>q\<close> cannot bring an occurrence of \<open>q\<close>
  about; so after replacing \<open>pat\<close> by such a text \<open>pat\<close> is gone.\<close>

lemma prefix_str_replace:
  "prefix q (str_replace pat rep s) \<Longrightarrow> rep \<noteq> [] \<Longrightarrow> set q \<inter> set rep = {} \<Longrightarrow> prefix q s"
proof (induction pat rep s arbitrary: q rule: str_replace.induct)
  case (2 pat rep c s)
  show ?case
  proof (cases q)
    case (Cons a q')
    then show ?thesis using 2 by (cases rep) (auto split: if_splits)
  qed simp
qed simp

lemma sublist_str_replace:
  "sublist q (str_replace pat rep s) \<Longrightarrow> rep \<noteq> [] \<Longrightarrow> set q \<inter> set rep = {} \<Longrightarrow> sublist q s"
proof (induction pat rep s rule: str_replace.induct)
  case (2 pat rep c s)
  show ?case
  proof (cases "pat \<noteq> [] \<and> prefix pat (c # s)")
    case True
    then have "sublist q (rep @ str_replace pat rep (drop (length pat) (c # s)))" using "2.prems" by simp
    then have "sublist q (str_replace pat rep (drop (length pat) (c # s)))"
      using "2.prems"(3) by (rule sublist_append_disjoint)
    then have "sublist q (drop (length pat) (c # s))" using "2.IH"(1) [OF True _ "2.prems"(2,3)] by blast
    then show ?thesis using sublist_drop by (rule sublist_order.order_trans)
  next
    case False
    then show ?thesis
      using 2 prefix_str_replace [of q pat rep "c # s"] by (auto simp: sublist_Cons_right)
  qed
qed simp

lemma str_replace_gone:
  assumes "rep \<noteq> []" and "pat \<noteq> []" and "set pat \<inter> set rep = {}"
  shows "\<not> sublist pat (str_replace pat rep s)"
  using assms
proof (induction pat rep s rule: str_replace.induct)
  case (2 pat rep c s)
  show ?case
  proof (cases "prefix pat (c # s)")
    case True
    then have m: "pat \<noteq> [] \<and> prefix pat (c # s)" using "2.prems"(2) by simp
    then have e: "str_replace pat rep (c # s) = rep @ str_replace pat rep (drop (length pat) (c # s))" by simp
    show ?thesis
      unfolding e using "2.IH"(1) [OF m "2.prems"] sublist_append_disjoint [OF _ "2.prems"(3)] by blast
  next
    case False
    then have e: "str_replace pat rep (c # s) = c # str_replace pat rep s" by simp
    have "\<not> prefix pat (c # str_replace pat rep s)"
      using prefix_str_replace [of pat pat rep "c # s"] False "2.prems" unfolding e by blast
    moreover have "\<not> sublist pat (str_replace pat rep s)" using "2.IH"(2) "2.prems" False by blast
    ultimately show ?thesis unfolding e sublist_Cons_right by blast
  qed
qed simp

lemma split_on_not_Nil [simp]: "split_on a s \<noteq> []"
  by (cases s) (auto split: list.splits)

lemma split_on_free: "a \<notin> set s \<Longrightarrow> split_on a s = [s]"
  by (induction s) auto

lemma split_on_append_sep:
  "a \<notin> set s \<Longrightarrow> split_on a (s @ a # t) = s # split_on a t"
  by (induction s) auto

text \<open>Splitting undoes joining when the separator does not occur in the pieces.\<close>

lemma split_on_join:
  assumes "xs \<noteq> []" and "\<forall>x \<in> set xs. a \<notin> set x"
  shows "split_on a (join [a] xs) = xs"
  using assms by (induction "[a]" xs rule: join.induct) (auto simp: split_on_free split_on_append_sep)

lemma join_split_on: "join [a] (split_on a s) = s"
proof (induction s)
  case (Cons c s)
  then show ?case
    by (cases "split_on a s") (auto split: list.splits, (metis join.simps(2,3) list.exhaust append_Cons)+)
qed simp

lemma set_join: "set (join sep xs) \<subseteq> set sep \<union> (\<Union>x \<in> set xs. set x)"
  by (induction sep xs rule: join.induct) auto

lemma join_eq_Nil: "sep \<noteq> [] \<Longrightarrow> join sep xs = [] \<longleftrightarrow> xs = [] \<or> xs = [[]]"
  by (induction sep xs rule: join.induct) auto

text \<open>Cutting two equal strings at the first occurrence of a separator.\<close>

lemma append_sep_inject:
  assumes "a \<notin> set s" and "a \<notin> set s'"
  shows "s @ a # t = s' @ a # t' \<longleftrightarrow> s = s' \<and> t = t'"
  using assms
proof (induction s arbitrary: s')
  case Nil
  then show ?case by (cases s') auto
next
  case (Cons x s)
  then show ?case by (cases s') auto
qed

lemma sep_mismatch:
  assumes "a \<noteq> b" and "b \<notin> set s" and "a \<notin> set s'"
  shows "s @ a # t \<noteq> s' @ b # t'"
  using assms
proof (induction s arbitrary: s')
  case Nil
  then show ?case by (cases s') auto
next
  case (Cons x s)
  then show ?case by (cases s') auto
qed

lemma sep_not_free: "a \<notin> set s \<Longrightarrow> s' @ a # t \<noteq> s"
  by auto

lemma cut_at_sep:
  assumes "a \<notin> set s"
  shows "takeWhile (\<lambda>c. c \<noteq> a) (s @ a # t) = s" and "dropWhile (\<lambda>c. c \<noteq> a) (s @ a # t) = a # t"
  using assms by (induction s) auto

section \<open>Lemmas on decimal numbers\<close>

lemma digit_value_char: "d < 10 \<Longrightarrow> digit_value (digit_char d) = Some d"
  by (simp add: digit_value_def digit_char_def Let_def of_char_of)

lemma show_nat_not_Nil [simp]: "show_nat n \<noteq> []"
  by (subst show_nat.simps) simp

lemma show_nat_digits: "digit_value c = None \<Longrightarrow> c \<notin> set (show_nat n)"
proof (induction n rule: show_nat.induct)
  case (1 n)
  then have "c \<noteq> digit_char m" if "m < 10" for m using digit_value_char [OF that] by auto
  with 1 show ?case by (subst show_nat.simps) auto
qed

lemma parse_digits_append:
  "parse_digits acc (s @ t) = Option.bind (parse_digits acc s) (\<lambda>m. parse_digits m t)"
  by (induction acc s rule: parse_digits.induct) (auto split: option.splits)

lemma parse_show_digits: "n < 2 ^ 64 \<Longrightarrow> parse_digits 0 (show_nat n) = Some n"
proof (induction n rule: show_nat.induct)
  case (1 n)
  show ?case
  proof (cases "n < 10")
    case True
    then show ?thesis by (subst show_nat.simps) (simp add: digit_value_char)
  next
    case False
    with 1 have "parse_digits 0 (show_nat (n div 10)) = Some (n div 10)"
      by auto
    with False "1.prems" show ?thesis
      by (subst show_nat.simps) (simp add: parse_digits_append digit_value_char)
  qed
qed

lemma show_nat_inject: "m < 2 ^ 64 \<Longrightarrow> n < 2 ^ 64 \<Longrightarrow> show_nat m = show_nat n \<longleftrightarrow> m = n"
  using parse_show_digits option.inject by metis

lemma digit_char_not_plus: "d < 10 \<Longrightarrow> digit_char d \<noteq> CHR ''+''"
  using digit_value_char [of d] by (auto simp: digit_value_def)

lemma show_nat_hd: "hd (show_nat n) \<noteq> CHR ''+''"
proof (induction n rule: show_nat.induct)
  case (1 n)
  then show ?case
    by (subst show_nat.simps) (auto simp: digit_char_not_plus)
qed

lemma parse_u64_show: "n < 2 ^ 64 \<Longrightarrow> parse_u64 (show_nat n) = Some (of_nat n)"
  using show_nat_hd [of n] parse_show_digits [of n]
  by (cases "show_nat n") (auto simp: parse_u64_def Let_def)

section \<open>Textual codecs\<close>

text \<open>
  Several components print a value and read it back (a status, a number, an environment). The
  interface they share: what is printed reads back as the value, so printing is injective.
\<close>

locale text_codec =
  fixes enc :: "'a \<Rightarrow> string"
    and dec :: "string \<Rightarrow> 'a option"
    and dom_ok :: "'a \<Rightarrow> bool"
  assumes dec_enc: "dom_ok x \<Longrightarrow> dec (enc x) = Some x"
begin

lemma enc_inject:
  assumes "dom_ok x" and "dom_ok y"
  shows "enc x = enc y \<longleftrightarrow> x = y"
  using dec_enc [OF assms(1)] dec_enc [OF assms(2)] by (metis option.inject)

lemma dec_determines: "dom_ok x \<Longrightarrow> enc x = s \<Longrightarrow> dec s = Some x"
  using dec_enc by blast

end

interpretation decimal_u64: text_codec "\<lambda>w :: u64. show_nat (unat w)" parse_u64 "\<lambda>_. True"
proof unfold_locales
  fix w :: u64
  have "unat w < 2 ^ 64"
    by (rule order_less_le_trans [OF unsigned_less]) simp
  then show "parse_u64 (show_nat (unat w)) = Some w"
    by (simp add: parse_u64_show)
qed

end
