(* ===== verification/Rust_BTreeMap.thy ===== *)
theory Rust_BTreeMap
  imports Rust_Prelude
begin

text \<open>
  \<open>std::collections::BTreeMap\<close>: the list of its entries in ascending key order. Iteration,
  \<open>keys()\<close> and \<open>values()\<close> follow the list, so the model has the order the sources rely on
  (\<open>encode_env\<close>, the binary search over the durations file, the order of a commit's entries).
  The interface the components use is the locale \<open>ordered_map\<close>, interpreted here.
\<close>

type_synonym ('k, 'v) btree = "('k \<times> 'v) list"

section \<open>Operations\<close>

abbreviation bt_empty :: "('k, 'v) btree" where
  "bt_empty \<equiv> []"

abbreviation bt_get :: "('k, 'v) btree \<Rightarrow> 'k \<Rightarrow> 'v option" where
  "bt_get \<equiv> map_of"

fun bt_insert :: "('k :: linorder, 'v) btree \<Rightarrow> 'k \<Rightarrow> 'v \<Rightarrow> ('k, 'v) btree" where
  "bt_insert [] k v = [(k, v)]"
| "bt_insert (e # m) k v =
     (if fst e < k then e # bt_insert m k v
      else if fst e = k then (k, v) # m
      else (k, v) # e # m)"

definition bt_remove :: "('k, 'v) btree \<Rightarrow> 'k \<Rightarrow> ('k, 'v) btree" where
  "bt_remove m k = filter (\<lambda>e. fst e \<noteq> k) m"

definition bt_contains_key :: "('k, 'v) btree \<Rightarrow> 'k \<Rightarrow> bool" where
  "bt_contains_key m k = (bt_get m k \<noteq> None)"

text \<open>\<open>for (k, v) in ps { m.insert(k, v); }\<close>, and \<open>collect()\<close> into a map.\<close>

definition bt_extend :: "('k :: linorder, 'v) btree \<Rightarrow> ('k \<times> 'v) list \<Rightarrow> ('k, 'v) btree" where
  "bt_extend m ps = fold (\<lambda>e m. bt_insert m (fst e) (snd e)) ps m"

definition bt_collect :: "('k :: linorder \<times> 'v) list \<Rightarrow> ('k, 'v) btree" where
  "bt_collect ps = bt_extend bt_empty ps"

text \<open>The representation invariant of the model.\<close>

definition bt_ok :: "('k :: linorder, 'v) btree \<Rightarrow> bool" where
  "bt_ok m \<longleftrightarrow> sorted_wrt (<) (map fst m)"

section \<open>The interface of an ordered map\<close>

text \<open>An association list with distinct keys is determined by its keys and its lookup.\<close>

lemma alist_rebuild:
  "distinct (map fst xs) \<Longrightarrow> map (\<lambda>k. (k, the (map_of xs k))) (map fst xs) = xs"
proof (induction xs)
  case (Cons e xs)
  have "map (\<lambda>k. (k, the (map_of (e # xs) k))) (map fst xs) = map (\<lambda>k. (k, the (map_of xs k))) (map fst xs)"
    using Cons.prems by (intro map_cong) (auto simp: image_iff)
  with Cons show ?case by simp
qed simp

lemma distinct_map_of_rev: "distinct (map fst xs) \<Longrightarrow> map_of (rev xs) = map_of xs"
  by (rule map_of_eqI) (auto simp: map_of_eq_Some_iff rev_map [symmetric])

locale ordered_map =
  fixes empty :: "'m"
    and get :: "'m \<Rightarrow> 'k :: linorder \<Rightarrow> 'v option"
    and ins :: "'m \<Rightarrow> 'k \<Rightarrow> 'v \<Rightarrow> 'm"
    and del :: "'m \<Rightarrow> 'k \<Rightarrow> 'm"
    and entries :: "'m \<Rightarrow> ('k \<times> 'v) list"
    and ok :: "'m \<Rightarrow> bool"
  assumes ok_empty: "ok empty"
    and ok_ins: "ok m \<Longrightarrow> ok (ins m k v)"
    and ok_del: "ok m \<Longrightarrow> ok (del m k)"
    and get_empty: "get empty k = None"
    and get_ins: "ok m \<Longrightarrow> get (ins m k v) k' = (if k' = k then Some v else get m k')"
    and get_del: "ok m \<Longrightarrow> get (del m k) k' = (if k' = k then None else get m k')"
    and entries_get: "ok m \<Longrightarrow> map_of (entries m) k = get m k"
    and entries_ascending: "ok m \<Longrightarrow> sorted_wrt (<) (map fst (entries m))"
begin

lemma ok_fold_ins: "ok m \<Longrightarrow> ok (fold (\<lambda>e m. ins m (fst e) (snd e)) ps m)"
  by (induction ps arbitrary: m) (auto simp: ok_ins)

lemma get_fold_ins:
  "ok m \<Longrightarrow> get (fold (\<lambda>e m. ins m (fst e) (snd e)) ps m) k =
     (case map_of (rev ps) k of None \<Rightarrow> get m k | Some v \<Rightarrow> Some v)"
proof (induction ps arbitrary: m)
  case (Cons e ps)
  then show ?case
    by (cases e) (auto simp: ok_ins get_ins map_add_def split: option.splits)
qed simp

lemma ok_fold_del: "ok m \<Longrightarrow> ok (fold (\<lambda>k m. del m k) ks m)"
  by (induction ks arbitrary: m) (auto simp: ok_del)

lemma get_fold_del:
  "ok m \<Longrightarrow> get (fold (\<lambda>k m. del m k) ks m) k = (if k \<in> set ks then None else get m k)"
  by (induction ks arbitrary: m) (auto simp: ok_del get_del)

text \<open>An ordered map has one representation of its contents: two maps that answer every
  lookup alike iterate alike.\<close>

lemma entries_distinct: "ok m \<Longrightarrow> distinct (map fst (entries m))"
  using entries_ascending strict_sorted_iff by blast

lemma set_entries: "ok m \<Longrightarrow> set (entries m) = {(k, v). get m k = Some v}"
  by (auto simp: entries_distinct simp flip: entries_get)

lemma entries_ext:
  assumes "ok m" and "ok m'" and "\<And>k. get m k = get m' k"
  shows "entries m = entries m'"
proof -
  have same: "set (entries m) = set (entries m')"
    using assms by (simp add: set_entries)
  then have "map fst (entries m) = map fst (entries m')"
    using assms entries_ascending strict_sorted_equal [of "map fst (entries m)"]
    by (metis list.set_map)
  moreover have "map_of (entries m) = map_of (entries m')"
    using assms by (simp add: entries_get fun_eq_iff)
  ultimately show ?thesis
    using alist_rebuild [OF entries_distinct [OF assms(1)]]
      alist_rebuild [OF entries_distinct [OF assms(2)]] by metis
qed

end

section \<open>The model provides the interface\<close>

lemma set_bt_insert_keys: "fst ` set (bt_insert m k v) = insert k (fst ` set m)"
  by (induction m) (auto split: if_splits)

lemma bt_ok_insert: "bt_ok m \<Longrightarrow> bt_ok (bt_insert m k v)"
proof (induction m)
  case (Cons e m)
  then show ?case
    using set_bt_insert_keys [of m k v] by (auto simp: bt_ok_def image_iff)
qed (simp add: bt_ok_def)

lemma bt_ok_remove: "bt_ok m \<Longrightarrow> bt_ok (bt_remove m k)"
  by (auto simp: bt_ok_def bt_remove_def sorted_wrt_map sorted_wrt_filter)

lemma bt_get_insert:
  "bt_ok m \<Longrightarrow> bt_get (bt_insert m k v) k' = (if k' = k then Some v else bt_get m k')"
  by (induction m) (auto simp: bt_ok_def)

lemma bt_get_remove: "bt_get (bt_remove m k) k' = (if k' = k then None else bt_get m k')"
  by (induction m) (auto simp: bt_remove_def)

interpretation bt: ordered_map bt_empty bt_get bt_insert bt_remove "\<lambda>m. m" bt_ok
  by unfold_locales
    (auto simp: bt_ok_insert bt_ok_remove bt_get_insert bt_get_remove, auto simp: bt_ok_def)

text \<open>The laws of \<open>bt_extend\<close> and \<open>bt_collect\<close> come from the interface.\<close>

lemma bt_ok_Nil [simp]: "bt_ok []"
  by (rule bt.ok_empty)

lemma bt_ok_extend [simp]: "bt_ok m \<Longrightarrow> bt_ok (bt_extend m ps)"
  by (simp add: bt_extend_def bt.ok_fold_ins)

lemma bt_get_extend:
  "bt_ok m \<Longrightarrow> bt_get (bt_extend m ps) k =
     (case map_of (rev ps) k of None \<Rightarrow> bt_get m k | Some v \<Rightarrow> Some v)"
  by (simp add: bt_extend_def bt.get_fold_ins)

lemma bt_ok_collect [simp]: "bt_ok (bt_collect ps)"
  by (simp add: bt_collect_def)

lemma bt_get_collect: "bt_get (bt_collect ps) k = map_of (rev ps) k"
  by (simp add: bt_collect_def bt_get_extend split: option.splits)

text \<open>Re-inserting the entries of a well-formed map rebuilds it; mapping the values or keeping
  some of the entries leaves it well-formed.\<close>

lemma bt_collect_id: "bt_ok m \<Longrightarrow> bt_collect m = m"
  by (rule bt.entries_ext)
    (simp_all add: bt_get_collect bt.entries_distinct distinct_map_of_rev)

lemma bt_ok_map_values: "bt_ok (map (\<lambda>(k, v). (k, f k v)) m) \<longleftrightarrow> bt_ok m"
proof -
  have "map fst (map (\<lambda>(k, v). (k, f k v)) m) = map fst m" by (induction m) auto
  then show ?thesis by (simp only: bt_ok_def)
qed

lemma bt_ok_filter: "bt_ok m \<Longrightarrow> bt_ok (filter P m)"
  by (auto simp: bt_ok_def sorted_wrt_map sorted_wrt_filter)

lemma bt_get_map_values: "bt_get (map (\<lambda>(k, v). (k, f k v)) m) k = map_option (f k) (bt_get m k)"
  by (induction m) auto

lemma bt_get_filter:
  "bt_ok m \<Longrightarrow> bt_get (filter P m) k =
     (case bt_get m k of None \<Rightarrow> None | Some v \<Rightarrow> if P (k, v) then Some v else None)"
proof (induction m)
  case (Cons e m)
  have "bt_get m (fst e) = None"
    using Cons.prems by (auto simp: bt_ok_def map_of_eq_None_iff)
  with Cons show ?case
    by (auto simp: bt_ok_def split: option.splits)
qed simp

lemma bt_insert_not_Nil [simp]: "bt_insert m k v \<noteq> []"
  by (cases m) auto

lemma bt_extend_eq_Nil: "bt_extend m ps = [] \<longleftrightarrow> m = [] \<and> ps = []"
proof (induction ps arbitrary: m)
  case (Cons e ps)
  then show ?case by (simp add: bt_extend_def)
qed (simp add: bt_extend_def)

end
