(* ===== verification/Disk.thy ===== *)
theory Disk
  imports Rust_BTreeMap "HOL-Library.AList"
begin

text \<open>
  The part of \<open>std::fs\<close> the sources use, on a tree of directories, files and symbolic links. Paths are
  lists of components relative to the results directory (\<open>output_dir\<close>). A directory is an
  association list: its order is the order \<open>read_dir\<close> delivers. \<open>fault\<close> says which operations the
  system refuses (a full disk, a permission); a refused operation leaves the tree as it was.
\<close>

section \<open>Data\<close>

datatype node =
    File (contents: bytes) (mtime: int)
  | Link (target: path)
  | Dir (entries: "(string \<times> node) list")

datatype fs_op = Create | Write | Rename | Mkdir | Remove | Symlink | Touch

record disk =
  tree :: node
  fault :: "fs_op \<Rightarrow> path \<Rightarrow> bool"

section \<open>The tree\<close>

fun node_at :: "node \<Rightarrow> path \<Rightarrow> node option" where
  "node_at n [] = Some n"
| "node_at (Dir es) (p # ps) = (case map_of es p of None \<Rightarrow> None | Some c \<Rightarrow> node_at c ps)"
| "node_at (File s t) (p # ps) = None"
| "node_at (Link l) (p # ps) = None"

text \<open>Put (or, with \<open>None\<close>, remove) the node at a path; \<open>None\<close> when its parent is not a directory.\<close>

fun put_node :: "node \<Rightarrow> path \<Rightarrow> node option \<Rightarrow> node option" where
  "put_node (Dir es) [p] x =
     Some (Dir (case x of None \<Rightarrow> AList.delete p es | Some c \<Rightarrow> AList.update p c es))"
| "put_node (Dir es) (p # q # ps) x =
     (case map_of es p of
        None \<Rightarrow> None
      | Some c \<Rightarrow> map_option (\<lambda>c'. Dir (AList.update p c' es)) (put_node c (q # ps) x))"
| "put_node _ _ x = None"

section \<open>System calls\<close>

text \<open>\<open>std::fs::read\<close>, \<open>read_to_string\<close>; \<open>metadata().modified()\<close> of a file.\<close>

definition read_file :: "disk \<Rightarrow> path \<Rightarrow> (bytes \<times> int) option" where
  "read_file d p = (case node_at (tree d) p of Some (File s t) \<Rightarrow> Some (s, t) | _ \<Rightarrow> None)"

definition is_dir :: "disk \<Rightarrow> path \<Rightarrow> bool" where
  "is_dir d p = (case node_at (tree d) p of Some (Dir es) \<Rightarrow> True | _ \<Rightarrow> False)"

definition read_dir :: "disk \<Rightarrow> path \<Rightarrow> string list option" where
  "read_dir d p = (case node_at (tree d) p of Some (Dir es) \<Rightarrow> Some (map fst es) | _ \<Rightarrow> None)"

text \<open>\<open>Path::exists\<close> follows a symbolic link (one level: the links here point at files).\<close>

definition resolve_link :: "path \<Rightarrow> path \<Rightarrow> path" where
  "resolve_link base l = fold (\<lambda>c b. if c = ''..'' then butlast b else b @ [c]) l base"

definition path_exists :: "disk \<Rightarrow> path \<Rightarrow> bool" where
  "path_exists d p =
     (case node_at (tree d) p of
        None \<Rightarrow> False
      | Some (Link l) \<Rightarrow> node_at (tree d) (resolve_link (butlast p) l) \<noteq> None
      | Some _ \<Rightarrow> True)"

text \<open>\<open>File::create\<close> (truncates), then writing the whole contents: a write can fail after the
  (empty) file was created. \<open>std::fs::write\<close> is the two in a row.\<close>

definition create_file :: "disk \<Rightarrow> int \<Rightarrow> path \<Rightarrow> disk option" where
  "create_file d now p =
     (if fault d Create p \<or> is_dir d p then None
      else map_option (\<lambda>t. d\<lparr>tree := t\<rparr>) (put_node (tree d) p (Some (File [] now))))"

definition fill_file :: "disk \<Rightarrow> int \<Rightarrow> path \<Rightarrow> bytes \<Rightarrow> bool \<times> disk" where
  "fill_file d now p s =
     (if fault d Write p then (False, d)
      else (case put_node (tree d) p (Some (File s now)) of
              None \<Rightarrow> (False, d)
            | Some t \<Rightarrow> (True, d\<lparr>tree := t\<rparr>)))"

definition write_file :: "disk \<Rightarrow> int \<Rightarrow> path \<Rightarrow> bytes \<Rightarrow> bool \<times> disk" where
  "write_file d now p s =
     (case create_file d now p of
        None \<Rightarrow> (False, d)
      | Some d' \<Rightarrow> fill_file d' now p s)"

definition rename_file :: "disk \<Rightarrow> path \<Rightarrow> path \<Rightarrow> bool \<times> disk" where
  "rename_file d p q =
     (if fault d Rename q \<or> is_dir d q then (False, d)
      else (case node_at (tree d) p of
              None \<Rightarrow> (False, d)
            | Some n \<Rightarrow>
                (case Option.bind (put_node (tree d) p None) (\<lambda>t. put_node t q (Some n)) of
                   None \<Rightarrow> (False, d)
                 | Some t \<Rightarrow> (True, d\<lparr>tree := t\<rparr>))))"

definition remove_file :: "disk \<Rightarrow> path \<Rightarrow> bool \<times> disk" where
  "remove_file d p =
     (if fault d Remove p \<or> is_dir d p \<or> node_at (tree d) p = None then (False, d)
      else (case put_node (tree d) p None of
              None \<Rightarrow> (False, d)
            | Some t \<Rightarrow> (True, d\<lparr>tree := t\<rparr>)))"

definition remove_dir_all :: "disk \<Rightarrow> path \<Rightarrow> bool \<times> disk" where
  "remove_dir_all d p =
     (if fault d Remove p \<or> \<not> is_dir d p then (False, d)
      else (case put_node (tree d) p None of
              None \<Rightarrow> (False, d)
            | Some t \<Rightarrow> (True, d\<lparr>tree := t\<rparr>)))"

text \<open>\<open>create_dir_all\<close>: make each missing directory on the way down.\<close>

fun make_dirs :: "disk \<Rightarrow> path \<Rightarrow> path \<Rightarrow> bool \<times> disk" where
  "make_dirs d base [] = (True, d)"
| "make_dirs d base (c # cs) =
     (let p = base @ [c]
      in if is_dir d p then make_dirs d p cs
         else if fault d Mkdir p \<or> node_at (tree d) p \<noteq> None then (False, d)
         else (case put_node (tree d) p (Some (Dir [])) of
                 None \<Rightarrow> (False, d)
               | Some t \<Rightarrow> make_dirs (d\<lparr>tree := t\<rparr>) p cs))"

definition create_dir_all :: "disk \<Rightarrow> path \<Rightarrow> bool \<times> disk" where
  "create_dir_all d p = make_dirs d [] p"

definition symlink :: "disk \<Rightarrow> path \<Rightarrow> path \<Rightarrow> bool \<times> disk" where
  "symlink d l p =
     (if fault d Symlink p \<or> node_at (tree d) p \<noteq> None then (False, d)
      else (case put_node (tree d) p (Some (Link l)) of
              None \<Rightarrow> (False, d)
            | Some t \<Rightarrow> (True, d\<lparr>tree := t\<rparr>)))"

text \<open>\<open>create_dir_all(&d).and_then(|()| write(d.join(name), s))\<close>, as several call sites do.\<close>

definition mkdir_write :: "disk \<Rightarrow> int \<Rightarrow> path \<Rightarrow> string \<Rightarrow> bytes \<Rightarrow> bool \<times> disk" where
  "mkdir_write d now dir name s =
     (case create_dir_all d dir of
        (False, d') \<Rightarrow> (False, d')
      | (True, d') \<Rightarrow> write_file d' now (dir @ [name]) s)"

section \<open>Lemmas on the tree\<close>

lemma map_of_update [simp]: "map_of (AList.update k v es) = (map_of es)(k \<mapsto> v)"
  by (simp add: update_conv')

lemma map_of_delete [simp]: "map_of (AList.delete k es) = (map_of es)(k := None)"
  by (simp add: delete_conv')

lemma put_node_same: "put_node n p x = Some n' \<Longrightarrow> node_at n' p = x"
  by (induction n p x arbitrary: n' rule: put_node.induct)
    (auto split: option.splits)

text \<open>Neither path is a prefix of the other: the two places are independent.\<close>

lemma put_node_other:
  "put_node n p x = Some n' \<Longrightarrow> \<not> prefix p q \<Longrightarrow> \<not> prefix q p \<Longrightarrow> node_at n' q = node_at n q"
proof (induction n p x arbitrary: n' q rule: put_node.induct)
  case (1 es p x)
  then show ?case
    by (cases q) (auto split: option.splits)
next
  case (2 es p q' ps x)
  then show ?case
    by (cases q) (auto split: option.splits)
qed simp_all

text \<open>Changing a node below a directory keeps the directory a directory.\<close>

lemma put_node_above:
  "put_node n p x = Some n' \<Longrightarrow> strict_prefix q p \<Longrightarrow> \<exists>es es'. node_at n q = Some (Dir es) \<and> node_at n' q = Some (Dir es')"
proof (induction n p x arbitrary: n' q rule: put_node.induct)
  case (1 es p x)
  then show ?case by (cases q) (auto simp: strict_prefix_def)
next
  case (2 es p q' ps x)
  then show ?case by (cases q) (auto simp: strict_prefix_def split: option.splits)
qed simp_all

lemma put_node_enabled: "node_at n p = Some (Dir es) \<Longrightarrow> \<exists>n'. put_node n (p @ [c]) x = Some n'"
proof (induction p arbitrary: n)
  case Nil
  then show ?case by simp
next
  case (Cons a p)
  then obtain ds ch where n: "n = Dir ds" and ch: "map_of ds a = Some ch" "node_at ch p = Some (Dir es)"
    by (cases n) (auto split: option.splits)
  obtain n' where "put_node ch (p @ [c]) x = Some n'" using Cons.IH [OF ch(2)] by blast
  then show ?case using n ch by (cases p) auto
qed

lemma node_at_append: "node_at n (p @ q) = Option.bind (node_at n p) (\<lambda>m. node_at m q)"
  by (induction n p rule: node_at.induct) (auto split: option.splits)

lemma node_at_child: "node_at n [a, b] = None \<Longrightarrow> node_at n [a, b, c] = None"
  using node_at_append [of n "[a, b]" "[c]"] by simp

lemma node_at_below: "node_at n p = node_at n' p \<Longrightarrow> node_at n (p @ q) = node_at n' (p @ q)"
  by (simp add: node_at_append)

lemma read_dir_iff: "n \<in> set ns \<longleftrightarrow> node_at (tree d) (p @ [n]) \<noteq> None" if "read_dir d p = Some ns"
proof -
  from that obtain es where "node_at (tree d) p = Some (Dir es)" and "ns = map fst es"
    by (auto simp: read_dir_def split: option.splits node.splits)
  then show ?thesis
    using map_of_eq_None_iff [of es n] by (auto simp: node_at_append split: option.splits)
qed

lemma is_dir_parent: "node_at (tree d) (p @ [n]) \<noteq> None \<Longrightarrow> is_dir d p"
  by (auto simp: is_dir_def node_at_append bind_eq_Some_conv split: node.splits)

lemma is_dir_exists: "is_dir d p \<Longrightarrow> node_at (tree d) p \<noteq> None"
  by (auto simp: is_dir_def split: option.splits)

lemma is_dir_read_dir: "is_dir d p \<longleftrightarrow> (\<exists>ns. read_dir d p = Some ns)"
  by (auto simp: is_dir_def read_dir_def split: option.splits node.splits)

section \<open>Footprints\<close>

text \<open>Two paths are independent when neither is a prefix of the other.\<close>

definition indep :: "path \<Rightarrow> path \<Rightarrow> bool" where
  "indep p q \<longleftrightarrow> \<not> prefix p q \<and> \<not> prefix q p"

lemma indep_single [simp]: "indep [a] [b] \<longleftrightarrow> a \<noteq> b"
  by (auto simp: indep_def)

lemma indep_heads: "a \<noteq> b \<Longrightarrow> indep (a # p) (b # q)"
  by (auto simp: indep_def)

lemma indep_Cons [simp]: "indep (a # p) (a # q) \<longleftrightarrow> indep p q"
  by (auto simp: indep_def)

lemma indep_siblings: "a \<noteq> b \<Longrightarrow> indep (p @ [a]) (p @ [b])"
  by (auto simp: indep_def prefix_def)

lemma indep_sym: "indep p q \<longleftrightarrow> indep q p"
  by (auto simp: indep_def)

text \<open>\<open>puts F d d'\<close>: the disk \<open>d'\<close> results from \<open>d\<close> by changing nodes at paths in \<open>F\<close> only.\<close>

inductive puts :: "path set \<Rightarrow> disk \<Rightarrow> disk \<Rightarrow> bool" for F where
  refl [simp, intro]: "puts F d d"
| step: "puts F d d' \<Longrightarrow> p \<in> F \<Longrightarrow> put_node (tree d') p x = Some t \<Longrightarrow> puts F d (d'\<lparr>tree := t\<rparr>)"

lemma puts_one: "put_node (tree d) p x = Some t \<Longrightarrow> p \<in> F \<Longrightarrow> puts F d (d\<lparr>tree := t\<rparr>)"
  by (rule puts.step [OF puts.refl])

lemma puts_trans: "puts F d' d'' \<Longrightarrow> puts F d d' \<Longrightarrow> puts F d d''"
  by (induction rule: puts.induct) (auto intro: puts.step)

lemma puts_mono: "puts F d d' \<Longrightarrow> F \<subseteq> G \<Longrightarrow> puts G d d'"
  by (induction rule: puts.induct) (auto intro: puts.step)

lemma puts_fault: "puts F d d' \<Longrightarrow> fault d' = fault d"
  by (induction rule: puts.induct) auto

lemma puts_frame: "puts F d d' \<Longrightarrow> (\<And>p. p \<in> F \<Longrightarrow> indep p q) \<Longrightarrow> node_at (tree d') q = node_at (tree d) q"
proof (induction rule: puts.induct)
  case (step d d' p x t)
  then show ?case
    using put_node_other [OF step.hyps(3), of q] by (auto simp: indep_def)
qed simp

lemma puts_root: "puts F d d' \<Longrightarrow> is_dir d' [] \<longleftrightarrow> is_dir d []"
proof (induction rule: puts.induct)
  case (step d d' p x t)
  have "p \<noteq> []" using step.hyps(3) by auto
  then have "\<exists>es es'. node_at (tree d') [] = Some (Dir es) \<and> node_at t [] = Some (Dir es')"
    by (intro put_node_above [OF step.hyps(3)]) (simp add: strict_prefix_def)
  then show ?case using step.IH by (auto simp: is_dir_def)
qed simp

text \<open>The names in the root directory stay distinct.\<close>

lemma put_node_root_distinct:
  "put_node n p x = Some n' \<Longrightarrow> n = Dir es \<Longrightarrow> distinct (map fst es) \<Longrightarrow>
     \<exists>es'. n' = Dir es' \<and> distinct (map fst es')"
  by (induction n p x rule: put_node.induct)
    (auto simp: distinct_update distinct_delete split: option.splits)

lemma puts_root_distinct:
  "puts F d d' \<Longrightarrow> read_dir d [] = Some names \<Longrightarrow> distinct names \<Longrightarrow>
     \<exists>names'. read_dir d' [] = Some names' \<and> distinct names'"
proof (induction rule: puts.induct)
  case (step d d' p x t)
  then obtain es where "tree d' = Dir es" "distinct (map fst es)"
    by (auto simp: read_dir_def split: option.splits node.splits)
  with put_node_root_distinct [OF step.hyps(3)] show ?case by (auto simp: read_dir_def)
qed blast

text \<open>Every operation stays within its path.\<close>

lemma puts_create: "create_file d now p = Some d' \<Longrightarrow> p \<in> F \<Longrightarrow> puts F d d'"
  by (auto simp: create_file_def split: if_splits intro: puts_one)

lemma puts_fill: "p \<in> F \<Longrightarrow> puts F d (snd (fill_file d now p s))"
  by (auto simp: fill_file_def split: option.splits intro: puts_one)

lemma puts_write: "p \<in> F \<Longrightarrow> puts F d (snd (write_file d now p s))"
  by (auto simp: write_file_def split: option.splits intro: puts_trans [OF puts_fill] puts_create)

lemma puts_rename: "p \<in> F \<Longrightarrow> q \<in> F \<Longrightarrow> puts F d (snd (rename_file d p q))"
proof -
  assume F: "p \<in> F" "q \<in> F"
  have "puts F d (d\<lparr>tree := t'\<rparr>)"
    if "put_node (tree d) p None = Some t" and "put_node t q x = Some t'" for t t' x
    using puts.step [OF puts_one [OF that(1) F(1)] F(2), of x t'] that(2) by simp
  then show ?thesis by (auto simp: rename_file_def bind_eq_Some_conv split: option.splits)
qed

lemma puts_remove_file: "p \<in> F \<Longrightarrow> puts F d (snd (remove_file d p))"
  by (auto simp: remove_file_def split: option.splits intro: puts_one)

lemma puts_remove_dir: "p \<in> F \<Longrightarrow> puts F d (snd (remove_dir_all d p))"
  by (auto simp: remove_dir_all_def split: option.splits intro: puts_one)

lemma puts_symlink: "p \<in> F \<Longrightarrow> puts F d (snd (symlink d l p))"
  by (auto simp: symlink_def split: option.splits intro: puts_one)

text \<open>What a successful operation leaves at its path.\<close>

lemma create_file_at: "create_file d now p = Some d' \<Longrightarrow> node_at (tree d') p = Some (File [] now)"
  by (auto simp: create_file_def split: if_splits dest: put_node_same)

lemma fill_file_at: "fill_file d now p s = (True, d') \<Longrightarrow> node_at (tree d') p = Some (File s now)"
  by (auto simp: fill_file_def split: option.splits if_splits dest: put_node_same)

lemma write_file_at: "write_file d now p s = (True, d') \<Longrightarrow> node_at (tree d') p = Some (File s now)"
  by (auto simp: write_file_def split: option.splits dest: fill_file_at)

lemma rename_file_at: "rename_file d p q = (True, d') \<Longrightarrow> node_at (tree d') q = node_at (tree d) p"
  by (auto simp: rename_file_def bind_eq_Some_conv split: option.splits if_splits dest: put_node_same)

lemma rename_file_gone:
  assumes "rename_file d p q = (True, d')" and "indep p q"
  shows "node_at (tree d') p = None"
proof -
  from assms(1) obtain n t t' where t: "put_node (tree d) p None = Some t" "put_node t q (Some n) = Some t'"
    and d': "d' = d\<lparr>tree := t'\<rparr>"
    by (auto simp: rename_file_def bind_eq_Some_conv split: option.splits if_splits)
  have "node_at t' p = node_at t p"
    using put_node_other [OF t(2)] assms(2) by (simp add: indep_def)
  then show ?thesis using put_node_same [OF t(1)] d' by simp
qed

lemma rename_file_fail: "rename_file d p q = (False, d') \<Longrightarrow> d' = d"
  by (auto simp: rename_file_def split: option.splits if_splits)

lemma remove_dir_all_at: "remove_dir_all d p = (True, d') \<Longrightarrow> node_at (tree d') p = None"
  by (auto simp: remove_dir_all_def split: option.splits if_splits dest: put_node_same)

lemma remove_dir_all_fail: "remove_dir_all d p = (False, d') \<Longrightarrow> d' = d"
  by (auto simp: remove_dir_all_def split: option.splits if_splits)

text \<open>Writing a file changes no other file and removes nothing; making directories only adds directories.\<close>

definition same_place :: "node option \<Rightarrow> node option \<Rightarrow> bool" where
  "same_place a b \<longleftrightarrow> a = b \<or> (\<exists>es es'. a = Some (Dir es) \<and> b = Some (Dir es'))"

definition kept_place :: "node option \<Rightarrow> node option \<Rightarrow> bool" where
  "kept_place a b \<longleftrightarrow> same_place a b \<or> (a = None \<and> (\<exists>es. b = Some (Dir es)))"

lemma same_place_refl [simp]: "same_place a a" "kept_place a a"
  by (simp_all add: same_place_def kept_place_def)

lemma same_place_trans: "same_place a b \<Longrightarrow> same_place b c \<Longrightarrow> same_place a c"
  by (auto simp: same_place_def)

lemma kept_place_trans: "kept_place a b \<Longrightarrow> kept_place b c \<Longrightarrow> kept_place a c"
  by (auto simp: same_place_def kept_place_def)

lemma path_cases:
  fixes p q :: path
  obtains "p = q" | "strict_prefix p q" | c r where "p = q @ c # r" | "\<not> prefix p q" "\<not> prefix q p"
proof -
  have "\<exists>c r. p = q @ c # r" if "p \<noteq> q" "prefix q p"
  proof -
    from that(2) obtain zs where "p = q @ zs" by (auto simp: prefix_def)
    with that(1) show ?thesis by (cases zs) auto
  qed
  then show ?thesis using that by (auto simp: strict_prefix_def)
qed

lemma put_file_other:
  assumes "put_node n q (Some (File s t)) = Some n'" and "\<And>es. node_at n q \<noteq> Some (Dir es)" and "p \<noteq> q"
  shows "same_place (node_at n p) (node_at n' p)"
proof (cases p q rule: path_cases)
  case 2
  then show ?thesis using put_node_above [OF assms(1)] by (auto simp: same_place_def)
next
  case (3 c r)
  have "node_at n' p = None" by (simp add: 3 node_at_append put_node_same [OF assms(1)])
  moreover have "node_at n p = None"
  proof (cases "node_at n q")
    case (Some m)
    then show ?thesis using assms(2) 3 by (cases m) (auto simp: node_at_append)
  qed (simp add: 3 node_at_append)
  ultimately show ?thesis by simp
next
  case 4
  then show ?thesis using put_node_other [OF assms(1)] by simp
qed (use assms(3) in simp)

lemma write_file_other:
  assumes "p \<noteq> q"
  shows "same_place (node_at (tree d) p) (node_at (tree (snd (write_file d now q s))) p)"
proof (cases "create_file d now q")
  case None
  then show ?thesis by (simp add: write_file_def)
next
  case (Some d1)
  then have nd: "\<not> is_dir d q" and t1: "put_node (tree d) q (Some (File [] now)) = Some (tree d1)"
    by (auto simp: create_file_def split: if_splits)
  have "same_place (node_at (tree d) p) (node_at (tree d1) p)"
    using nd by (intro put_file_other [OF t1 _ assms]) (auto simp: is_dir_def)
  moreover have "same_place (node_at (tree d1) p) (node_at (tree (snd (fill_file d1 now q s))) p)"
    using put_file_other [of "tree d1" q s now, OF _ _ assms] create_file_at [OF Some]
    by (auto simp: fill_file_def split: option.splits)
  ultimately show ?thesis using Some same_place_trans by (simp add: write_file_def)
qed

lemma put_dir_other:
  assumes "put_node n q (Some (Dir [])) = Some n'" and "node_at n q = None"
  shows "kept_place (node_at n p) (node_at n' p)"
proof (cases p q rule: path_cases)
  case 2
  then show ?thesis using put_node_above [OF assms(1)] by (auto simp: same_place_def kept_place_def)
qed (use assms(2) put_node_same [OF assms(1)] put_node_other [OF assms(1), of p] in
    \<open>auto simp: kept_place_def node_at_append\<close>)

lemma make_dirs_other: "kept_place (node_at (tree d) p) (node_at (tree (snd (make_dirs d base cs))) p)"
proof (induction d base cs rule: make_dirs.induct)
  case (2 d base c cs)
  show ?case
    using 2 put_dir_other [of "tree d" "base @ [c]" _ p] by (auto simp: Let_def split: option.splits intro: kept_place_trans)
qed simp

lemma make_dirs_fault: "fault (snd (make_dirs d base cs)) = fault d"
  by (induction d base cs rule: make_dirs.induct) (auto simp: Let_def split: option.splits)

lemma make_dirs_at: "make_dirs d base cs = (True, d') \<Longrightarrow> is_dir d base \<Longrightarrow> is_dir d' (base @ cs)"
proof (induction d base cs rule: make_dirs.induct)
  case (2 d base c cs)
  have "is_dir (d\<lparr>tree := t\<rparr>) (base @ [c])" if "put_node (tree d) (base @ [c]) (Some (Dir [])) = Some t" for t
    using put_node_same [OF that] by (simp add: is_dir_def)
  with 2 show ?case by (auto simp: Let_def split: if_splits option.splits)
qed simp

text \<open>A disk on which nothing is refused.\<close>

definition no_faults :: "disk \<Rightarrow> bool" where
  "no_faults d \<longleftrightarrow> (\<forall>op p. \<not> fault d op p)"

lemma put_top: "is_dir d [] \<Longrightarrow> \<exists>t. put_node (tree d) [a] x = Some t"
  using put_node_enabled [of "tree d" "[]"] by (cases "tree d") (auto simp: is_dir_def)

lemma create_top: "no_faults d \<Longrightarrow> is_dir d [] \<Longrightarrow> \<not> is_dir d [a] \<Longrightarrow> \<exists>d'. create_file d now [a] = Some d'"
  using put_top [of d a "Some (File [] now)"] by (auto simp: create_file_def no_faults_def)

lemma fill_top: "no_faults d \<Longrightarrow> is_dir d [] \<Longrightarrow> \<exists>d'. fill_file d now [a] s = (True, d')"
  using put_top [of d a "Some (File s now)"] by (auto simp: fill_file_def no_faults_def)

lemma rename_top:
  assumes "no_faults d" and "is_dir d []" and "\<not> is_dir d [b]" and "node_at (tree d) [a] = Some n"
  shows "\<exists>d'. rename_file d [a] [b] = (True, d')"
proof -
  obtain t where t: "put_node (tree d) [a] None = Some t" using put_top [OF assms(2)] by blast
  have "is_dir (d\<lparr>tree := t\<rparr>) []"
    using puts_root [OF puts_one [OF t, of UNIV]] assms(2) by simp
  then obtain t' where "put_node t [b] (Some n) = Some t'" using put_top by force
  then show ?thesis using t assms by (simp add: rename_file_def no_faults_def)
qed

text \<open>Writing a file under a temporary name and renaming it into place goes through when nothing is refused.\<close>

lemma replace_top:
  assumes "no_faults d" and "is_dir d []" and "\<not> is_dir d [a]" and "\<not> is_dir d [b]" and "a \<noteq> b"
  shows "\<exists>d1 d2 d3. create_file d now [b] = Some d1 \<and> fill_file d1 now [b] s = (True, d2) \<and>
    rename_file d2 [b] [a] = (True, d3)"
proof -
  obtain d1 where d1: "create_file d now [b] = Some d1"
    using create_top assms by metis
  note p1 = puts_create [OF d1, of "{[b]}"]
  have h1: "no_faults d1" "is_dir d1 []"
    using puts_fault [OF p1] puts_root [OF p1] assms(1,2) by (auto simp: no_faults_def)
  obtain d2 where d2: "fill_file d1 now [b] s = (True, d2)"
    using fill_top h1 by blast
  note p2 = puts_fill [of "[b]" "{[b]}" d1 now s, unfolded d2, simplified]
  have h2: "no_faults d2" "is_dir d2 []"
    using puts_fault [OF p2] puts_root [OF p2] h1 by (auto simp: no_faults_def)
  have "node_at (tree d2) [a] = node_at (tree d) [a]"
    using puts_frame [OF p1, of "[a]"] puts_frame [OF p2, of "[a]"] assms(5) by auto
  with assms(3) have "\<not> is_dir d2 [a]" by (simp add: is_dir_def)
  then obtain d3 where "rename_file d2 [b] [a] = (True, d3)"
    using rename_top h2 fill_file_at [OF d2] by blast
  with d1 d2 show ?thesis by blast
qed

end
