(* ===== verification/Test_Status.thy ===== *)
theory Test_Status
  imports Rust_BTreeMap
begin

text \<open>
  The status of a test (\<open>testresult.capnp\<close>, \<open>impl TestStatus\<close> in \<open>src/lib.rs\<close>) and the result
  record: the strings the supervisor leaves in a \<open>status\<close> file, the strings of the JSON and HTML
  views, and the two directions between them and the enum.
\<close>

section \<open>Data\<close>

datatype TestStatus = Inprogress | Passed | Failed | Notrun | FailedToRun | Unknown

record TestResult =
  status :: TestStatus
  starttime :: int
  duration :: u64

type_synonym TestResultsMap = "(string, TestResult) btree"

lemma UNIV_TestStatus: "(UNIV :: TestStatus set) = {Inprogress, Passed, Failed, Notrun, FailedToRun, Unknown}"
  by (auto intro: TestStatus.exhaust)

instantiation TestStatus :: enum
begin

definition enum_TestStatus :: "TestStatus list" where
  "enum_TestStatus = [Inprogress, Passed, Failed, Notrun, FailedToRun, Unknown]"

definition enum_all_TestStatus :: "(TestStatus \<Rightarrow> bool) \<Rightarrow> bool" where
  "enum_all_TestStatus P \<longleftrightarrow>
     P Inprogress \<and> P Passed \<and> P Failed \<and> P Notrun \<and> P FailedToRun \<and> P Unknown"

definition enum_ex_TestStatus :: "(TestStatus \<Rightarrow> bool) \<Rightarrow> bool" where
  "enum_ex_TestStatus P \<longleftrightarrow>
     P Inprogress \<or> P Passed \<or> P Failed \<or> P Notrun \<or> P FailedToRun \<or> P Unknown"

instance
  by standard
    (simp_all add: enum_TestStatus_def enum_all_TestStatus_def enum_ex_TestStatus_def UNIV_TestStatus)

end

section \<open>Operations\<close>

definition from_str :: "string \<Rightarrow> TestStatus" where
  "from_str s =
     (if s = ''In progress'' then Inprogress
      else if s = ''Passed'' then Passed
      else if s = ''Failed'' then Failed
      else if s = ''Not run'' then Notrun
      else if s = ''Failed to run'' then FailedToRun
      else if s = ''Unknown'' then Unknown
      else if s = [] then Inprogress
      else if str_contains s ''IN PROGRESS'' then Inprogress
      else if str_contains s ''PASSED'' then Passed
      else if str_contains s ''FAILED'' then Failed
      else if str_contains s ''NOTRUN'' then Notrun
      else if str_contains s ''FAILED TO RUN'' \<or> str_contains s ''NOT STARTED'' then FailedToRun
      else Unknown)"

fun to_str :: "TestStatus \<Rightarrow> string" where
  "to_str Inprogress = ''In progress''"
| "to_str Passed = ''Passed''"
| "to_str Failed = ''Failed''"
| "to_str Notrun = ''Not run''"
| "to_str FailedToRun = ''Failed to run''"
| "to_str Unknown = ''Unknown''"

fun table_class :: "TestStatus \<Rightarrow> string" where
  "table_class Inprogress = ''table-secondary''"
| "table_class Passed = ''table-success''"
| "table_class Failed = ''table-danger''"
| "table_class Notrun = ''table-secondary''"
| "table_class FailedToRun = ''table-secondary''"
| "table_class Unknown = ''table-secondary''"

section \<open>Lemmas\<close>

lemma from_str_to_str [simp]: "from_str (to_str s) = s"
  by (cases s) (simp_all add: from_str_def)

interpretation status_text: text_codec to_str "\<lambda>s. Some (from_str s)" "\<lambda>_. True"
  by unfold_locales simp

lemma sublist_infix: "sublist p (xs @ p @ ys)"
  by (simp add: sublist_appendI)

text \<open>A status line that carries a verdict word, in any context.\<close>

lemma from_str_not_exact:
  assumes "str_contains s ''FAILED'' \<or> str_contains s ''PASSED'' \<or> str_contains s ''IN PROGRESS''
    \<or> str_contains s ''NOTRUN'' \<or> str_contains s ''NOT STARTED''"
  shows "s \<notin> {''In progress'', ''Passed'', ''Failed'', ''Not run'', ''Failed to run'', ''Unknown'', []}"
  using assms by auto

text \<open>No text outside the exact wire form is ever read as \<open>FailedToRun\<close> through the words
  \<open>FAILED TO RUN\<close>: the test for \<open>FAILED\<close> comes first.\<close>

lemma contains_failed_to_run_failed:
  "str_contains s ''FAILED TO RUN'' \<Longrightarrow> str_contains s ''FAILED''"
proof -
  have "prefix ''FAILED'' ''FAILED TO RUN''" by simp
  then have "sublist ''FAILED'' ''FAILED TO RUN''" by (rule prefix_imp_sublist)
  moreover assume "str_contains s ''FAILED TO RUN''"
  ultimately show ?thesis
    unfolding str_contains_iff by (rule sublist_order.order_trans)
qed

lemma from_str_failed_to_run:
  "from_str s = FailedToRun \<longleftrightarrow>
     s = ''Failed to run'' \<or>
     (str_contains s ''NOT STARTED'' \<and> \<not> str_contains s ''IN PROGRESS'' \<and>
      \<not> str_contains s ''PASSED'' \<and> \<not> str_contains s ''FAILED'' \<and> \<not> str_contains s ''NOTRUN'')"
  using contains_failed_to_run_failed [of s] from_str_not_exact [of s]
  by (auto simp: from_str_def)

section \<open>Properties\<close>

text \<open>\<open>TestStatus::from_str\<close> inverts \<open>TestStatus::to_str\<close>, so two statuses have the same text only
  if they are equal: the JSON interface between the dashboard and \<open>ci-status\<close> loses nothing.\<close>

theorem status_text_roundtrip: "from_str (to_str s) = s \<and> (to_str s = to_str t \<longleftrightarrow> s = t)"
  using status_text.enc_inject [of s t] by simp

text \<open>A line that says \<open>FAILED TO RUN\<close>, and neither \<open>IN PROGRESS\<close> nor \<open>PASSED\<close>, is read as \<open>Failed\<close>: the \<open>FAILED TO RUN\<close>
  branch of the code cannot be reached, because the branch for \<open>FAILED\<close> precedes it.\<close>

lemma failed_to_run_unreachable:
  assumes "str_contains s ''FAILED TO RUN''" and "\<not> str_contains s ''IN PROGRESS''" and "\<not> str_contains s ''PASSED''"
  shows "from_str s = Failed"
  using assms contains_failed_to_run_failed [of s] from_str_not_exact [of s] by (auto simp: from_str_def)

end
