(* ===== verification/Results_Disk.thy ===== *)
theory Results_Disk
  imports Disk Test_Status
begin

text \<open>
  Test results on disk (\<open>src/lib.rs\<close>): the per-commit \<open>.capnp\<close> file, written to a temporary name and
  renamed into place, and the per-subtest directories with their \<open>status\<close> and \<open>duration\<close> files.

  The messages follow \<open>src/testresult.capnp\<close>. The serialisation (the \<open>capnp\<close> crate) is the parameter
  \<open>C\<close>, a pair of functions; what the code relies on is \<open>capnp_ok\<close>: a message that was written reads
  back. Directory listings deliver file names that are valid UTF-8; a start time is a number of
  seconds (the range check of \<open>chrono\<close> is not modelled).
\<close>

section \<open>Data\<close>

text \<open>\<open>struct TestResult\<close> and \<open>struct TestResults\<close> of the schema.\<close>

record result_msg =
  msg_name :: string
  msg_starttime :: int
  msg_duration :: u64
  msg_status :: TestStatus

record results_msg =
  msg_entries :: "result_msg list"
  msg_message :: string
  msg_commit_id :: string

record capnp =
  write_message :: "results_msg \<Rightarrow> bytes"
  read_message :: "bytes \<Rightarrow> results_msg option"

definition capnp_ok :: "capnp \<Rightarrow> bool" where
  "capnp_ok C \<longleftrightarrow> (\<forall>m. read_message C (write_message C m) = Some m)"

record CommitResultsCapnp =
  crc_message :: string
  crc_commit_id :: string
  tests_of :: TestResultsMap

text \<open>The process: its disk, the clock, its id and the counter of temporary names.\<close>

record sys =
  dsk :: disk
  clock :: int
  pid :: nat
  tmp_seq :: u64

datatype capnp_error = Creating path | Writing path | Renaming path path | Reading path | Parsing path

section \<open>The per-commit file\<close>

definition capnp_name :: "string \<Rightarrow> path" where
  "capnp_name commit = [commit @ ''.capnp'']"

definition tmp_name :: "'a sys_scheme \<Rightarrow> string \<Rightarrow> path" where
  "tmp_name s commit =
     [commit @ ''.capnp.'' @ show_nat (pid s) @ ''.'' @ show_nat (unat (tmp_seq s)) @ ''.new'']"

definition results_message :: "string \<Rightarrow> string option \<Rightarrow> TestResultsMap \<Rightarrow> results_msg" where
  "results_message commit commit_message results_in =
     \<lparr> msg_entries =
         map (\<lambda>(n, r). \<lparr> msg_name = n, msg_starttime = 0, msg_duration = duration r, msg_status = status r \<rparr>)
           results_in,
       msg_message = unwrap_or commit_message [],
       msg_commit_id = commit \<rparr>"

definition results_to_capnp ::
  "capnp \<Rightarrow> 'a sys_scheme \<Rightarrow> string \<Rightarrow> string option \<Rightarrow> TestResultsMap
    \<Rightarrow> (capnp_error + unit) \<times> 'a sys_scheme" where
  "results_to_capnp C s commit commit_message results_in =
     (let msg = results_message commit commit_message results_in;
          fname = capnp_name commit;
          fname_new = tmp_name s commit;
          s = s\<lparr>tmp_seq := tmp_seq s + 1\<rparr>
      in case create_file (dsk s) (clock s) fname_new of
           None \<Rightarrow> (Inl (Creating fname_new), s)
         | Some d \<Rightarrow>
             (case fill_file d (clock s) fname_new (write_message C msg) of
                (False, d) \<Rightarrow> (Inl (Writing fname_new), s\<lparr>dsk := d\<rparr>)
              | (True, d) \<Rightarrow>
                  (case rename_file d fname_new fname of
                     (False, d) \<Rightarrow> (Inl (Renaming fname_new fname), s\<lparr>dsk := d\<rparr>)
                   | (True, d) \<Rightarrow> (Inr (), s\<lparr>dsk := d\<rparr>))))"

definition parse_test_results :: "capnp \<Rightarrow> bytes \<Rightarrow> CommitResultsCapnp option" where
  "parse_test_results C f =
     (case read_message C f of
        None \<Rightarrow> None
      | Some root \<Rightarrow>
          Some \<lparr> crc_message = msg_message root, crc_commit_id = msg_commit_id root,
                 tests_of =
                   bt_extend bt_empty
                     (map (\<lambda>e. (msg_name e, \<lparr> status = msg_status e, starttime = msg_starttime e,
                                         duration = msg_duration e \<rparr>)) (msg_entries root)) \<rparr>)"

definition commit_read_capnp :: "disk \<Rightarrow> string \<Rightarrow> bytes option" where
  "commit_read_capnp d commit = map_option fst (read_file d (capnp_name commit))"

definition commitdir_get_results :: "capnp \<Rightarrow> disk \<Rightarrow> string \<Rightarrow> TestResultsMap option" where
  "commitdir_get_results C d commit =
     (case commit_read_capnp d commit of
        None \<Rightarrow> None
      | Some f \<Rightarrow> map_option tests_of (parse_test_results C f))"

section \<open>The per-subtest directories\<close>

definition read_test_result :: "disk \<Rightarrow> path \<Rightarrow> TestResult option" where
  "read_test_result d testdir =
     (case read_file d (testdir @ [''status'']) of
        None \<Rightarrow> None
      | Some (s, t) \<Rightarrow>
          Some \<lparr> status = from_str s, starttime = t,
                 duration =
                   unwrap_or (parse_u64 (unwrap_or (map_option fst (read_file d (testdir @ [''duration'']))) ''0''))
                     0 \<rparr>)"

definition commitdir_get_results_fs :: "disk \<Rightarrow> string \<Rightarrow> TestResultsMap" where
  "commitdir_get_results_fs d commit =
     (case read_dir d [commit] of
        None \<Rightarrow> bt_empty
      | Some names \<Rightarrow>
          fold (\<lambda>n results.
                  case read_test_result d [commit, n] of
                    None \<Rightarrow> results
                  | Some r \<Rightarrow> bt_insert results n r)
            names bt_empty)"

definition commit_update_results :: "capnp \<Rightarrow> 'a sys_scheme \<Rightarrow> string \<Rightarrow> 'a sys_scheme" where
  "commit_update_results C s commit =
     snd (results_to_capnp C s commit None (commitdir_get_results_fs (dsk s) commit))"

definition commit_update_results_with_message ::
  "capnp \<Rightarrow> 'a sys_scheme \<Rightarrow> string \<Rightarrow> string \<Rightarrow> 'a sys_scheme" where
  "commit_update_results_with_message C s commit msg =
     snd (results_to_capnp C s commit (Some msg) (commitdir_get_results_fs (dsk s) commit))"

definition commit_capnp_set_message ::
  "capnp \<Rightarrow> 'a sys_scheme \<Rightarrow> string \<Rightarrow> string \<Rightarrow> (capnp_error + unit) \<times> 'a sys_scheme" where
  "commit_capnp_set_message C s commit msg =
     (case commit_read_capnp (dsk s) commit of
        None \<Rightarrow> (Inl (Reading (capnp_name commit)), s)
      | Some f \<Rightarrow>
          (case parse_test_results C f of
             None \<Rightarrow> (Inl (Parsing (capnp_name commit)), s)
           | Some existing \<Rightarrow> results_to_capnp C s commit (Some msg) (tests_of existing)))"

section \<open>Stale markers\<close>

text \<open>Commit directories are named by a full 40-digit git hash.\<close>

definition is_ascii_hexdigit :: "char \<Rightarrow> bool" where
  "is_ascii_hexdigit c \<longleftrightarrow>
     (CHR ''0'' \<le> c \<and> c \<le> CHR ''9'') \<or> (CHR ''a'' \<le> c \<and> c \<le> CHR ''f'') \<or> (CHR ''A'' \<le> c \<and> c \<le> CHR ''F'')"

definition is_commit_dir :: "disk \<Rightarrow> string \<Rightarrow> bool" where
  "is_commit_dir d n \<longleftrightarrow> \<not> (length n \<noteq> 40 \<or> \<not> list_all is_ascii_hexdigit n \<or> \<not> is_dir d [n])"

fun delete_inprogress :: "disk \<Rightarrow> string \<Rightarrow> string list \<Rightarrow> nat \<Rightarrow> nat \<times> disk" where
  "delete_inprogress d commit [] deleted = (deleted, d)"
| "delete_inprogress d commit (s # subtests) deleted =
     (if map_option (from_str \<circ> fst) (read_file d [commit, s, ''status'']) = Some Inprogress
      then (case remove_dir_all d [commit, s] of
              (True, d) \<Rightarrow> delete_inprogress d commit subtests (deleted + 1)
            | (False, d) \<Rightarrow> delete_inprogress d commit subtests deleted)
      else delete_inprogress d commit subtests deleted)"

text \<open>One round of the loop over the entries of \<open>output_dir\<close>.\<close>

definition cleanup_commit :: "capnp \<Rightarrow> string \<Rightarrow> 'a sys_scheme \<Rightarrow> 'a sys_scheme" where
  "cleanup_commit C commit s =
     (if \<not> is_commit_dir (dsk s) commit then s
      else
        (case read_dir (dsk s) [commit] of
           None \<Rightarrow> s
         | Some subtests \<Rightarrow>
             (let (deleted, d) = delete_inprogress (dsk s) commit subtests 0;
                  s = s\<lparr>dsk := d\<rparr>
              in if deleted \<noteq> 0 then commit_update_results C s commit else s)))"

definition cleanup_inprogress_results :: "capnp \<Rightarrow> 'a sys_scheme \<Rightarrow> 'a sys_scheme" where
  "cleanup_inprogress_results C s =
     (case read_dir (dsk s) [] of None \<Rightarrow> s | Some names \<Rightarrow> fold (cleanup_commit C) names s)"

section \<open>Lemmas\<close>

text \<open>A rendered map: what is left of it on disk.\<close>

definition rendered :: "TestResultsMap \<Rightarrow> TestResultsMap" where
  "rendered m = map (\<lambda>(k, r). (k, r\<lparr>starttime := 0\<rparr>)) m"

lemma rendered_ok [simp]: "bt_ok (rendered m) \<longleftrightarrow> bt_ok m"
  by (simp add: rendered_def bt_ok_map_values)

lemma rendered_get: "bt_get (rendered m) k = map_option (\<lambda>r. r\<lparr>starttime := 0\<rparr>) (bt_get m k)"
  by (simp add: rendered_def bt_get_map_values)

lemma parse_written:
  assumes "capnp_ok C" and "bt_ok m"
  shows "parse_test_results C (write_message C (results_message commit msg m)) =
    Some \<lparr> crc_message = unwrap_or msg [], crc_commit_id = commit, tests_of = rendered m \<rparr>"
proof -
  have "map (\<lambda>e. (msg_name e, \<lparr> status = msg_status e, starttime = msg_starttime e, duration = msg_duration e \<rparr>))
      (msg_entries (results_message commit msg m)) = rendered m"
    by (auto simp: results_message_def rendered_def)
  moreover have "bt_extend bt_empty (rendered m) = rendered m"
    using assms(2) bt_collect_id [of "rendered m"] by (simp add: bt_collect_def)
  ultimately show ?thesis
    using assms(1) by (simp add: parse_test_results_def capnp_ok_def) (simp add: results_message_def)
qed

lemma tmp_not_capnp [simp]: "tmp_name s c \<noteq> capnp_name c'" "capnp_name c' \<noteq> tmp_name s c"
proof -
  have "x @ ''.new'' \<noteq> y @ ''.capnp''" for x y :: string
  proof
    assume "x @ ''.new'' = y @ ''.capnp''"
    then have "last (x @ ''.new'') = last (y @ ''.capnp'')" by (rule arg_cong)
    then show False by simp
  qed
  from this [of "c @ ''.capnp.'' @ show_nat (pid s) @ ''.'' @ show_nat (unat (tmp_seq s))" c']
  show "tmp_name s c \<noteq> capnp_name c'" by (simp add: tmp_name_def capnp_name_def)
  then show "capnp_name c' \<noteq> tmp_name s c" by (rule not_sym)
qed

lemma capnp_name_inject [simp]: "capnp_name c = capnp_name c' \<longleftrightarrow> c = c'"
  by (simp add: capnp_name_def)

lemma top_names: "\<exists>a. capnp_name c = [a]" "\<exists>a. tmp_name s c = [a]"
  by (simp_all add: capnp_name_def tmp_name_def)

text \<open>Writing the file of a commit touches its two names only, and replaces the file in one step:
  afterwards it is the new file (on success) or the old one (on any error).\<close>

lemma results_to_capnp_puts:
  "results_to_capnp C s c msg m = (r, s') \<Longrightarrow>
     puts {capnp_name c, tmp_name s c} (dsk s) (dsk s') \<and> s' = s\<lparr>tmp_seq := tmp_seq s + 1, dsk := dsk s'\<rparr>"
proof -
  assume run: "results_to_capnp C s c msg m = (r, s')"
  let ?F = "{capnp_name c, tmp_name s c}"
  have w: "puts ?F (dsk s) d2"
    if "create_file (dsk s) (clock s) (tmp_name s c) = Some d"
      and "fill_file d (clock s) (tmp_name s c) b = (ok, d2)" for d b ok d2
    using puts_trans [OF puts_fill puts_create [OF that(1)], of "tmp_name s c" ?F "clock s" b] that(2)
    by simp
  have rn: "puts ?F (dsk s) d3"
    if "create_file (dsk s) (clock s) (tmp_name s c) = Some d"
      and "fill_file d (clock s) (tmp_name s c) b = (ok, d2)"
      and "rename_file d2 (tmp_name s c) (capnp_name c) = (ok', d3)" for d b ok d2 ok' d3
    using puts_trans [OF puts_rename w [OF that(1,2)], of "tmp_name s c" "capnp_name c"] that(3) by simp
  show ?thesis
    using run unfolding results_to_capnp_def Let_def
    by (auto split: option.splits prod.splits bool.splits intro: w rn)
qed

lemma results_to_capnp_Inr:
  assumes "results_to_capnp C s c msg m = (Inr (), s')"
  shows "read_file (dsk s') (capnp_name c) = Some (write_message C (results_message c msg m), clock s)"
  using assms
  by (auto simp: results_to_capnp_def Let_def read_file_def fill_file_at
      dest!: rename_file_at split: option.splits prod.splits bool.splits)

lemma results_to_capnp_Inl:
  assumes "results_to_capnp C s c msg m = (Inl e, s')"
  shows "node_at (tree (dsk s')) (capnp_name c) = node_at (tree (dsk s)) (capnp_name c)"
proof -
  obtain a b where ab: "capnp_name c = [a]" "tmp_name s c = [b]" "a \<noteq> b"
    using top_names tmp_not_capnp(1) [of s c c] by metis
  have cr: "node_at (tree d) [a] = node_at (tree (dsk s)) [a]"
    if "create_file (dsk s) (clock s) [b] = Some d" for d
    using puts_frame [OF puts_create [OF that, of "{[b]}"], of "[a]"] ab(3) by auto
  have wr: "node_at (tree d2) [a] = node_at (tree d) [a]"
    if "fill_file d (clock s) [b] x = (ok, d2)" for d d2 x ok
    using puts_frame [OF puts_fill [of "[b]" "{[b]}" d "clock s" x], of "[a]"] ab(3) that by auto
  show ?thesis
    using assms unfolding results_to_capnp_def Let_def ab(1,2)
    by (auto split: option.splits prod.splits bool.splits simp: cr wr dest!: rename_file_fail)
qed

lemma results_to_capnp_healthy:
  assumes "no_faults (dsk s)" and "is_dir (dsk s) []" and "\<not> is_dir (dsk s) (capnp_name c)"
    and "\<not> is_dir (dsk s) (tmp_name s c)"
  shows "\<exists>s'. results_to_capnp C s c msg m = (Inr (), s')"
proof -
  obtain a b where ab: "capnp_name c = [a]" "tmp_name s c = [b]" "a \<noteq> b"
    using top_names tmp_not_capnp(1) [of s c c] by metis
  with replace_top [OF assms(1,2), of a b "clock s" "write_message C (results_message c msg m)"] assms(3,4)
  obtain d1 d2 d3 where "create_file (dsk s) (clock s) [b] = Some d1"
    and "fill_file d1 (clock s) [b] (write_message C (results_message c msg m)) = (True, d2)"
    and "rename_file d2 [b] [a] = (True, d3)"
    by auto
  then show ?thesis
    using ab by (simp add: results_to_capnp_def Let_def)
qed

lemma results_to_capnp_frame:
  assumes "results_to_capnp C s c msg m = (r, s')" and "q \<noteq> []" and "[hd q] \<noteq> capnp_name c"
    and "[hd q] \<noteq> tmp_name s c"
  shows "node_at (tree (dsk s')) q = node_at (tree (dsk s)) q"
  using results_to_capnp_puts [OF assms(1), THEN conjunct1] assms(2-4)
  by (elim puts_frame) (cases q; auto simp: capnp_name_def tmp_name_def intro!: indep_heads)

section \<open>Results read from the directories\<close>

lemma read_test_result_node:
  "node_at (tree d) p = node_at (tree d') p \<Longrightarrow> read_test_result d p = read_test_result d' p"
proof -
  assume "node_at (tree d) p = node_at (tree d') p"
  then have "read_file d (p @ [x]) = read_file d' (p @ [x])" for x
    by (simp add: read_file_def node_at_append)
  then show ?thesis unfolding read_test_result_def by presburger
qed

lemma commitdir_get_results_fs_get:
  "bt_get (commitdir_get_results_fs d c) n = read_test_result d [c, n]"
proof -
  have fold_get: "bt_ok m \<Longrightarrow>
      bt_ok (fold (\<lambda>n m. case read_test_result d [c, n] of None \<Rightarrow> m | Some r \<Rightarrow> bt_insert m n r) ns m) \<and>
      bt_get (fold (\<lambda>n m. case read_test_result d [c, n] of None \<Rightarrow> m | Some r \<Rightarrow> bt_insert m n r) ns m) k =
        (if k \<in> set ns \<and> read_test_result d [c, k] \<noteq> None then read_test_result d [c, k] else bt_get m k)"
    for ns m k
    by (induction ns arbitrary: m) (auto simp: bt_ok_insert bt_get_insert split: option.splits)
  show ?thesis
  proof (cases "read_dir d [c]")
    case None
    then have "\<not> is_dir d [c]" by (simp add: is_dir_read_dir)
    then have "node_at (tree d) ([c] @ [n]) = None" using is_dir_parent by blast
    then show ?thesis
      using None by (simp add: commitdir_get_results_fs_def read_test_result_def read_file_def node_at_child)
  next
    case (Some ns)
    have "read_test_result d [c, n] = None" if "n \<notin> set ns"
    proof -
      have "node_at (tree d) ([c] @ [n]) = None" using read_dir_iff [OF Some] that by blast
      then show ?thesis by (simp add: read_test_result_def read_file_def node_at_child)
    qed
    then show ?thesis
      using fold_get [of bt_empty ns n] Some by (auto simp: commitdir_get_results_fs_def)
  qed
qed

lemma commitdir_get_results_fs_ok: "bt_ok (commitdir_get_results_fs d c)"
proof -
  have "bt_ok m \<Longrightarrow> bt_ok (fold (\<lambda>n m. case read_test_result d [c, n] of None \<Rightarrow> m | Some r \<Rightarrow> bt_insert m n r) ns m)"
    for ns m
    by (induction ns arbitrary: m) (auto simp: bt_ok_insert split: option.splits)
  then show ?thesis by (auto simp: commitdir_get_results_fs_def split: option.splits)
qed

section \<open>Deleting stale markers\<close>

definition marked :: "disk \<Rightarrow> string \<Rightarrow> string \<Rightarrow> bool" where
  "marked d c n \<longleftrightarrow> map_option (from_str \<circ> fst) (read_file d [c, n, ''status'']) = Some Inprogress"

lemma marked_result: "marked d c n \<longleftrightarrow> map_option status (read_test_result d [c, n]) = Some Inprogress"
  by (auto simp: marked_def read_test_result_def split: option.splits)

lemma marked_dir: "marked d c n \<Longrightarrow> is_dir d [c, n] \<and> is_dir d [c]"
proof -
  assume "marked d c n"
  then have "node_at (tree d) ([c, n] @ [''status'']) \<noteq> None"
    by (auto simp: marked_def read_file_def split: option.splits)
  then have "is_dir d [c, n]" by (rule is_dir_parent)
  moreover from this have "node_at (tree d) ([c] @ [n]) \<noteq> None" using is_dir_exists by fastforce
  then have "is_dir d [c]" by (rule is_dir_parent)
  ultimately show ?thesis by blast
qed

lemma marked_node: "node_at (tree d) [c, n] = node_at (tree d') [c, n] \<Longrightarrow> marked d c n = marked d' c n"
  using read_test_result_node [of d "[c, n]" d'] by (simp add: marked_result)

lemma remove_dir_succeeds:
  assumes "no_faults d" and "is_dir d [c, n]"
  shows "\<exists>d'. remove_dir_all d [c, n] = (True, d')"
proof -
  have "node_at (tree d) ([c] @ [n]) \<noteq> None" using is_dir_exists [OF assms(2)] by simp
  then have "is_dir d [c]" by (rule is_dir_parent)
  then obtain es where "node_at (tree d) [c] = Some (Dir es)"
    by (auto simp: is_dir_def split: option.splits node.splits)
  from put_node_enabled [OF this, of n None]
  obtain t where "put_node (tree d) [c, n] None = Some t" by auto
  with assms show ?thesis by (simp add: remove_dir_all_def no_faults_def)
qed

lemma delete_inprogress_spec:
  "no_faults d \<Longrightarrow> delete_inprogress d c ss k = (k', d') \<Longrightarrow>
     puts {[c, n] |n. True} d d' \<and>
     (\<forall>n. node_at (tree d') [c, n] =
        (if n \<in> set ss \<and> marked d c n then None else node_at (tree d) [c, n])) \<and>
     k \<le> k' \<and> (k' = k \<longrightarrow> d' = d) \<and> ((\<forall>n \<in> set ss. \<not> marked d c n) \<longrightarrow> k' = k)"
proof (induction d c ss k rule: delete_inprogress.induct)
  case (2 d c n0 ss k)
  show ?case
  proof (cases "marked d c n0")
    case False
    then have cond: "map_option (from_str \<circ> fst) (read_file d [c, n0, ''status'']) \<noteq> Some Inprogress"
      by (simp add: marked_def)
    then have "delete_inprogress d c ss k = (k', d')"
      using "2.prems"(2) unfolding delete_inprogress.simps if_not_P [OF cond] by blast
    from "2.IH"(3) [OF cond "2.prems"(1) this] show ?thesis using False by auto
  next
    case True
    then obtain d1 where d1: "remove_dir_all d [c, n0] = (True, d1)"
      using remove_dir_succeeds "2.prems"(1) marked_dir by blast
    have p1: "puts {[c, n] |n. True} d d1"
      using puts_remove_dir [of "[c, n0]" "{[c, n] |n. True}" d] d1 by simp
    have p1': "puts {[c, n0]} d d1"
      using puts_remove_dir [of "[c, n0]" "{[c, n0]}" d] d1 by simp
    have at: "node_at (tree d1) [c, n] = (if n = n0 then None else node_at (tree d) [c, n])" for n
      using remove_dir_all_at [OF d1] puts_frame [OF p1', of "[c, n]"] by auto
    then have mk: "marked d1 c n \<longleftrightarrow> n \<noteq> n0 \<and> marked d c n" for n
      using marked_node [of d1 c n d] marked_dir [of d1 c n0]
      by (cases "n = n0") (auto simp: is_dir_def)
    have nf: "no_faults d1" using puts_fault [OF p1] "2.prems"(1) by (simp add: no_faults_def)
    have cond: "map_option (from_str \<circ> fst) (read_file d [c, n0, ''status'']) = Some Inprogress"
      using True by (simp only: marked_def)
    have rest: "delete_inprogress d1 c ss (k + 1) = (k', d')"
      using "2.prems"(2) d1 unfolding delete_inprogress.simps if_P [OF cond] by simp
    note ih = "2.IH"(1) [OF cond d1 [symmetric] HOL.refl nf rest]
    then show ?thesis
      using True at mk puts_trans [OF _ p1] by auto
  qed
qed auto

section \<open>The whole cleanup\<close>

text \<open>The results directory of a healthy server: nothing is refused, and no directory has a dot in its
  name (commit directories are hexadecimal), so no directory stands where a file has to go.\<close>

definition healthy :: "disk \<Rightarrow> bool" where
  "healthy d \<longleftrightarrow> no_faults d \<and> is_dir d [] \<and> (\<forall>n. is_dir d [n] \<longrightarrow> CHR ''.'' \<notin> set n)"

definition commit_name :: "string \<Rightarrow> bool" where
  "commit_name c \<longleftrightarrow> length c = 40 \<and> list_all is_ascii_hexdigit c"

lemma is_commit_dir_iff: "is_commit_dir d c \<longleftrightarrow> commit_name c \<and> is_dir d [c]"
  by (auto simp: is_commit_dir_def commit_name_def)

lemma commit_name_no_dot: "commit_name c \<Longrightarrow> CHR ''.'' \<notin> set c"
proof
  assume "commit_name c" and "CHR ''.'' \<in> set c"
  then have "is_ascii_hexdigit CHR ''.''" by (auto simp: commit_name_def list_all_iff)
  then show False by (simp add: is_ascii_hexdigit_def less_eq_char_def)
qed

lemma commit_name_not_file [simp]:
  "commit_name c \<Longrightarrow> [c] \<noteq> capnp_name c'" "commit_name c \<Longrightarrow> [c] \<noteq> tmp_name s c'"
  using commit_name_no_dot [of c] by (auto simp: capnp_name_def tmp_name_def)

lemma dotted_not_dir:
  "healthy d \<Longrightarrow> \<not> is_dir d (capnp_name c)" "healthy d \<Longrightarrow> \<not> is_dir d (tmp_name s c)"
  by (auto simp: healthy_def capnp_name_def tmp_name_def)

lemma results_to_capnp_on_healthy:
  assumes "healthy (dsk s)"
  shows "\<exists>s'. results_to_capnp C s c msg m = (Inr (), s') \<and> healthy (dsk s')"
proof -
  obtain s' where s': "results_to_capnp C s c msg m = (Inr (), s')"
    using results_to_capnp_healthy dotted_not_dir assms by (metis healthy_def)
  note p = results_to_capnp_puts [OF s', THEN conjunct1]
  have top: "is_dir (dsk s') [n] \<longrightarrow> CHR ''.'' \<notin> set n" for n
  proof (cases "[n] = capnp_name c")
    case True
    then show ?thesis
      using results_to_capnp_Inr [OF s'] by (auto simp: is_dir_def read_file_def split: option.splits node.splits)
  next
    case False
    have gone: "node_at (tree (dsk s')) (tmp_name s c) = None"
      using s' tmp_not_capnp(1) [of s c c]
      by (auto simp: results_to_capnp_def Let_def tmp_name_def capnp_name_def indep_def
          split: option.splits prod.splits bool.splits elim!: rename_file_gone)
    show ?thesis
    proof (cases "[n] = tmp_name s c")
      case True
      then show ?thesis using gone by (simp add: is_dir_def)
    next
      case not_tmp: False
      then have "node_at (tree (dsk s')) [n] = node_at (tree (dsk s)) [n]"
        using results_to_capnp_frame [OF s', of "[n]"] False by simp
      then show ?thesis using assms by (simp add: healthy_def is_dir_def)
    qed
  qed
  then show ?thesis
    using s' puts_fault [OF p] puts_root [OF p] assms by (auto simp: healthy_def no_faults_def)
qed

text \<open>Results of a commit are determined by what lies in its directory.\<close>

lemma commitdir_get_results_fs_cong:
  assumes "\<And>n. node_at (tree d) [c, n] = node_at (tree d') [c, n]"
  shows "commitdir_get_results_fs d c = commitdir_get_results_fs d' c"
  using bt.entries_ext [OF commitdir_get_results_fs_ok commitdir_get_results_fs_ok, of d c d' c]
    read_test_result_node [OF assms]
  by (simp add: commitdir_get_results_fs_get)

lemma commitdir_get_results_cong:
  "node_at (tree d) (capnp_name c) = node_at (tree d') (capnp_name c) \<Longrightarrow>
     commitdir_get_results C d c = commitdir_get_results C d' c"
  by (simp add: commitdir_get_results_def commit_read_capnp_def read_file_def)

lemma written_results:
  assumes "capnp_ok C" and "bt_ok m" and "results_to_capnp C s c msg m = (Inr (), s')"
  shows "commitdir_get_results C (dsk s') c = Some (rendered m)"
  using results_to_capnp_Inr [OF assms(3)] parse_written [OF assms(1,2)]
  by (simp add: commitdir_get_results_def commit_read_capnp_def)

text \<open>What a round does to the commits, given which of them it is run for.\<close>

definition any_marked :: "disk \<Rightarrow> string \<Rightarrow> bool" where
  "any_marked d c \<longleftrightarrow> (\<exists>n. marked d c n)"

definition cleaned :: "capnp \<Rightarrow> string set \<Rightarrow> disk \<Rightarrow> disk \<Rightarrow> bool" where
  "cleaned C cs d d' \<longleftrightarrow>
     (\<forall>c. commit_name c \<longrightarrow>
        (is_dir d' [c] \<longleftrightarrow> is_dir d [c]) \<and>
        (\<forall>n. node_at (tree d') [c, n] = (if c \<in> cs \<and> marked d c n then None else node_at (tree d) [c, n])) \<and>
        commitdir_get_results C d' c =
          (if c \<in> cs \<and> any_marked d c then Some (rendered (commitdir_get_results_fs d' c))
           else commitdir_get_results C d c))"

lemma cleaned_refl: "(\<And>c n. c \<in> cs \<Longrightarrow> commit_name c \<Longrightarrow> \<not> marked d c n) \<Longrightarrow> cleaned C cs d d"
  by (auto simp: cleaned_def any_marked_def)

lemma cleaned_marked:
  assumes "cleaned C cs d d'" and "commit_name c"
  shows "marked d' c n \<longleftrightarrow> c \<notin> cs \<and> marked d c n"
proof (cases "c \<in> cs \<and> marked d c n")
  case True
  then have "node_at (tree d') [c, n] = None" using assms by (simp add: cleaned_def)
  then have "\<not> is_dir d' [c, n]" by (simp add: is_dir_def)
  then show ?thesis using True marked_dir by blast
next
  case False
  then have "node_at (tree d') [c, n] = node_at (tree d) [c, n]" using assms by (auto simp: cleaned_def)
  from marked_node [OF this] show ?thesis using False by blast
qed

lemma cleaned_trans:
  assumes "cleaned C cs d d'" and "cleaned C cs' d' d''"
  shows "cleaned C (cs \<union> cs') d d''"
  unfolding cleaned_def
proof (intro allI impI)
  fix c assume c: "commit_name c"
  note m = cleaned_marked [OF assms(1) c]
  note 1 = assms(1) [unfolded cleaned_def, rule_format, OF c]
  note 2 = assms(2) [unfolded cleaned_def, rule_format, OF c]
  have nodes: "node_at (tree d'') [c, n] =
      (if c \<in> cs \<union> cs' \<and> marked d c n then None else node_at (tree d) [c, n])" for n
    using 1 2 m [of n] by (cases "c \<in> cs"; cases "marked d c n"; cases "c \<in> cs'") (simp_all split: if_splits)
  have "commitdir_get_results C d'' c =
      (if c \<in> cs \<union> cs' \<and> any_marked d c then Some (rendered (commitdir_get_results_fs d'' c))
       else commitdir_get_results C d c)"
  proof (cases "c \<in> cs")
    case True
    then have "node_at (tree d'') [c, n] = node_at (tree d') [c, n]" for n
      using 2 m [of n] by (simp split: if_splits)
    then have "commitdir_get_results_fs d'' c = commitdir_get_results_fs d' c"
      by (rule commitdir_get_results_fs_cong)
    moreover have "any_marked d' c \<longleftrightarrow> False" using True m by (simp add: any_marked_def)
    ultimately show ?thesis using True 1 2 by simp
  next
    case False
    then have "any_marked d' c \<longleftrightarrow> any_marked d c" using m by (simp add: any_marked_def)
    then show ?thesis using False 1 2 by simp
  qed
  with nodes 1 2
  show "(is_dir d'' [c] \<longleftrightarrow> is_dir d [c]) \<and>
      (\<forall>n. node_at (tree d'') [c, n] =
        (if c \<in> cs \<union> cs' \<and> marked d c n then None else node_at (tree d) [c, n])) \<and>
      commitdir_get_results C d'' c =
      (if c \<in> cs \<union> cs' \<and> any_marked d c then Some (rendered (commitdir_get_results_fs d'' c))
       else commitdir_get_results C d c)"
    by blast
qed

text \<open>Deleting below a directory keeps the directory, and everything outside it.\<close>

lemma puts_keeps_dir:
  "puts F d d' \<Longrightarrow> (\<And>p. p \<in> F \<Longrightarrow> strict_prefix q p \<or> indep p q) \<Longrightarrow> is_dir d' q \<longleftrightarrow> is_dir d q"
proof (induction rule: puts.induct)
  case (step d d' p x t)
  have IH: "is_dir d' q \<longleftrightarrow> is_dir d q" using step by blast
  from step.prems [OF step.hyps(2)] show ?case
  proof
    assume "strict_prefix q p"
    then show ?thesis using put_node_above [OF step.hyps(3)] IH by (fastforce simp: is_dir_def)
  next
    assume "indep p q"
    then show ?thesis
      using put_node_other [OF step.hyps(3), of q] IH by (simp add: indep_def is_dir_def)
  qed
qed simp

lemma below_commit:
  assumes "puts {[c, n] |n. True} d d'"
  shows "fault d' = fault d" and "is_dir d' [] \<longleftrightarrow> is_dir d []" and "is_dir d' [a] \<longleftrightarrow> is_dir d [a]"
    and "q \<noteq> [] \<Longrightarrow> hd q \<noteq> c \<Longrightarrow> node_at (tree d') q = node_at (tree d) q"
proof -
  show "fault d' = fault d" and "is_dir d' [] \<longleftrightarrow> is_dir d []"
    using puts_fault [OF assms] puts_root [OF assms] by blast+
  show "is_dir d' [a] \<longleftrightarrow> is_dir d [a]"
    by (rule puts_keeps_dir [OF assms]) (auto simp: indep_def)
  show "node_at (tree d') q = node_at (tree d) q" if "q \<noteq> []" and "hd q \<noteq> c"
    using that by (intro puts_frame [OF assms]) (cases q; auto intro: indep_heads)
qed

lemma cleanup_rewrites:
  assumes C: "capnp_ok C" and c: "commit_name c" and p: "puts {[c, n] |n. True} (dsk s) d1"
    and at: "\<And>n. node_at (tree d1) [c, n] = (if marked (dsk s) c n then None else node_at (tree (dsk s)) [c, n])"
    and ex: "any_marked (dsk s) c"
    and s2: "results_to_capnp C (s\<lparr>dsk := d1\<rparr>) c None (commitdir_get_results_fs d1 c) = (Inr (), s2)"
  shows "cleaned C {c} (dsk s) (dsk s2)"
proof -
  have fr: "node_at (tree (dsk s2)) (c' # q) = node_at (tree d1) (c' # q)" if "commit_name c'" for c' q
    using results_to_capnp_frame [OF s2, of "c' # q"] that by simp
  have res: "commitdir_get_results C (dsk s2) c = Some (rendered (commitdir_get_results_fs (dsk s2) c))"
    using written_results [OF C commitdir_get_results_fs_ok s2]
      commitdir_get_results_fs_cong [of "dsk s2" c d1] fr [OF c] by simp
  have other: "commitdir_get_results C (dsk s2) c' = commitdir_get_results C (dsk s) c'" if "c' \<noteq> c" for c'
    using results_to_capnp_frame [OF s2, of "capnp_name c'"] below_commit(4) [OF p, of "capnp_name c'"]
      commit_name_not_file(1) [OF c, of c'] tmp_not_capnp(2) [of c' "s\<lparr>dsk := d1\<rparr>" c] that
    by (intro commitdir_get_results_cong) (auto simp: capnp_name_def)
  show ?thesis
    using fr at ex res other below_commit [OF p] by (auto simp: cleaned_def is_dir_def)
qed

lemma cleanup_commit_spec:
  assumes C: "capnp_ok C" and h: "healthy (dsk s)"
  shows "healthy (dsk (cleanup_commit C c s)) \<and> cleaned C {c} (dsk s) (dsk (cleanup_commit C c s))"
proof (cases "is_commit_dir (dsk s) c")
  case False
  then have "cleaned C {c} (dsk s) (dsk s)"
    using marked_dir by (intro cleaned_refl) (auto simp: is_commit_dir_iff)
  then show ?thesis using False h by (simp add: cleanup_commit_def)
next
  case True
  then obtain subtests where sub: "read_dir (dsk s) [c]  = Some subtests" and c: "commit_name c"
    by (auto simp: is_commit_dir_iff is_dir_read_dir)
  obtain k d1 where del: "delete_inprogress (dsk s) c subtests 0 = (k, d1)" by fastforce
  have nf: "no_faults (dsk s)" using h by (simp add: healthy_def)
  note sp = delete_inprogress_spec [OF nf del]
  have p: "puts {[c, n] |n. True} (dsk s) d1" using sp by blast
  have mem: "n \<in> set subtests" if "marked (dsk s) c n" for n
    using read_dir_iff [OF sub, of n] marked_dir [OF that] is_dir_exists by fastforce
  have at: "node_at (tree d1) [c, n] = (if marked (dsk s) c n then None else node_at (tree (dsk s)) [c, n])" for n
    using sp mem by auto
  have h1: "healthy d1"
    using h below_commit [OF p] by (simp add: healthy_def no_faults_def)
  show ?thesis
  proof (cases "k = 0")
    case True
    then have "d1 = dsk s" using sp by simp
    then have "\<not> marked (dsk s) c n" for n
      using at [of n] marked_dir [of "dsk s" c n] is_dir_exists by fastforce
    then have "cleaned C {c} (dsk s) (dsk s)" by (intro cleaned_refl) auto
    then show ?thesis
      using \<open>is_commit_dir (dsk s) c\<close> sub del True h \<open>d1 = dsk s\<close>
      by (simp add: cleanup_commit_def)
  next
    case False
    then have ex: "any_marked (dsk s) c" using sp by (auto simp: any_marked_def)
    let ?s1 = "s\<lparr>dsk := d1\<rparr>" and ?m = "commitdir_get_results_fs d1 c"
    have "healthy (dsk ?s1)" using h1 by simp
    from results_to_capnp_on_healthy [OF this, of C c None ?m] obtain s2
      where s2: "results_to_capnp C ?s1 c None ?m = (Inr (), s2)" and h2: "healthy (dsk s2)"
      by blast
    have step: "cleanup_commit C c s = s2"
      using \<open>is_commit_dir (dsk s) c\<close> sub del False s2
      by (simp add: cleanup_commit_def commit_update_results_def)
    show ?thesis using cleanup_rewrites [OF C c p at ex s2] step h2 by simp
  qed
qed

lemma cleanup_fold_spec:
  "capnp_ok C \<Longrightarrow> healthy (dsk s) \<Longrightarrow>
     healthy (dsk (fold (cleanup_commit C) cs s)) \<and> cleaned C (set cs) (dsk s) (dsk (fold (cleanup_commit C) cs s))"
proof (induction cs arbitrary: s)
  case Nil
  then show ?case using cleaned_refl [of "{}"] by auto
next
  case (Cons c cs)
  note one = cleanup_commit_spec [OF Cons.prems, of c]
  with Cons.IH [OF Cons.prems(1), of "cleanup_commit C c s"]
  show ?case using cleaned_trans [of C "{c}" "dsk s" "dsk (cleanup_commit C c s)" "set cs"] by simp
qed

lemma cleanup_all_spec:
  assumes "capnp_ok C" and "healthy (dsk s)"
  shows "healthy (dsk (cleanup_inprogress_results C s)) \<and>
    cleaned C UNIV (dsk s) (dsk (cleanup_inprogress_results C s))"
proof -
  obtain names where names: "read_dir (dsk s) [] = Some names"
    using assms(2) by (auto simp: healthy_def is_dir_read_dir)
  note sp = cleanup_fold_spec [OF assms, of names]
  have all: "c \<in> set names" if "marked (dsk s) c n" for c n
    using read_dir_iff [OF names, of c] marked_dir [OF that] is_dir_exists by fastforce
  have "c \<in> set names \<and> marked (dsk s) c n \<longleftrightarrow> marked (dsk s) c n"
    and "c \<in> set names \<and> any_marked (dsk s) c \<longleftrightarrow> any_marked (dsk s) c" for c n
    using all by (auto simp: any_marked_def)
  then have "cleaned C UNIV (dsk s) (dsk (fold (cleanup_commit C) names s))"
    using sp by (simp add: cleaned_def)
  then show ?thesis using sp names by (simp add: cleanup_inprogress_results_def)
qed

section \<open>A serialisation\<close>

text \<open>The assumption on the serialisation can be met: a message as a list of strings, a string as its
  characters, each announced by \<open>c\<close>, and a full stop.\<close>

definition put_str :: "string \<Rightarrow> bytes" where
  "put_str s = concat (map (\<lambda>c. [CHR ''c'', c]) s) @ ''.''"

fun get_strs :: "string \<Rightarrow> bytes \<Rightarrow> string list option" where
  "get_strs cur [] = (if cur = [] then Some [] else None)"
| "get_strs cur (t # b) =
     (if t = CHR ''.'' then map_option ((#) cur) (get_strs [] b)
      else (case b of [] \<Rightarrow> None | c # b' \<Rightarrow> get_strs (cur @ [c]) b'))"

fun put_entry :: "result_msg \<Rightarrow> string list" where
  "put_entry e =
     [msg_name e, replicate (nat (msg_starttime e)) CHR ''+'', replicate (nat (- msg_starttime e)) CHR ''-'',
      show_nat (unat (msg_duration e)), to_str (msg_status e)]"

fun get_entries :: "string list \<Rightarrow> result_msg list option" where
  "get_entries [] = Some []"
| "get_entries (n # p # q # d # st # rest) =
     (case parse_u64 d of
        None \<Rightarrow> None
      | Some d' \<Rightarrow>
          map_option ((#) \<lparr> msg_name = n, msg_starttime = int (length p) - int (length q),
                            msg_duration = d', msg_status = from_str st \<rparr>)
            (get_entries rest))"
| "get_entries _ = None"

definition sample_capnp :: capnp where
  "sample_capnp =
     \<lparr> write_message = (\<lambda>m. concat (map put_str
         (msg_message m # msg_commit_id m # concat (map put_entry (msg_entries m))))),
       read_message = (\<lambda>b. case get_strs [] b of
           Some (ms # ci # rest) \<Rightarrow>
             map_option (\<lambda>es. \<lparr> msg_entries = es, msg_message = ms, msg_commit_id = ci \<rparr>) (get_entries rest)
         | _ \<Rightarrow> None) \<rparr>"

lemma get_strs_put: "get_strs cur (put_str s @ b) = map_option ((#) (cur @ s)) (get_strs [] b)"
  unfolding put_str_def by (induction s arbitrary: cur) auto

lemma get_strs_puts: "get_strs [] (concat (map put_str ss)) = Some ss"
  by (induction ss) (auto simp: get_strs_put)

lemma get_entries_put: "get_entries (concat (map put_entry es)) = Some es"
  by (induction es) (auto simp: decimal_u64.dec_enc)

lemma sample_capnp_ok: "capnp_ok sample_capnp"
  unfolding capnp_ok_def sample_capnp_def capnp.simps get_strs_puts
  by (simp add: get_entries_put)

section \<open>Properties\<close>

text \<open>C9: Writing the results of a commit is atomic. When \<open>results_to_capnp\<close> succeeds, readers of the file get the
  given results, with every start time replaced by the epoch; on any error they get the file that was
  there before; the files and directories of other commits are never touched; and on a disk that refuses nothing it does succeed.\<close>

theorem results_to_capnp_atomic:
  assumes "capnp_ok C" and "bt_ok m" and "results_to_capnp C s c msg m = (r, s')"
  shows "(case r of
            Inr _ \<Rightarrow> commitdir_get_results C (dsk s') c = Some (rendered m)
          | Inl _ \<Rightarrow> commit_read_capnp (dsk s') c = commit_read_capnp (dsk s) c) \<and>
    (\<forall>c'. c' \<noteq> c \<longrightarrow> commit_read_capnp (dsk s') c' = commit_read_capnp (dsk s) c') \<and>
    (\<forall>c'. commit_name c' \<longrightarrow> commitdir_get_results_fs (dsk s') c' = commitdir_get_results_fs (dsk s) c') \<and>
    (healthy (dsk s) \<longrightarrow> r = Inr ())"
proof (intro conjI allI impI)
  show "case r of
            Inr _ \<Rightarrow> commitdir_get_results C (dsk s') c = Some (rendered m)
          | Inl _ \<Rightarrow> commit_read_capnp (dsk s') c = commit_read_capnp (dsk s) c"
    using written_results [OF assms(1,2)] results_to_capnp_Inl [of C s c msg m _ s'] assms(3)
    by (cases r) (auto simp: commit_read_capnp_def read_file_def)
next
  fix c' assume "c' \<noteq> c"
  then show "commit_read_capnp (dsk s') c' = commit_read_capnp (dsk s) c'"
    using results_to_capnp_frame [OF assms(3), of "capnp_name c'"] tmp_not_capnp(2) [of c' s c]
    by (simp add: commit_read_capnp_def read_file_def capnp_name_def)
next
  fix c' assume "commit_name c'"
  then show "commitdir_get_results_fs (dsk s') c' = commitdir_get_results_fs (dsk s) c'"
    using results_to_capnp_frame [OF assms(3)] by (intro commitdir_get_results_fs_cong) simp
next
  assume "healthy (dsk s)"
  then show "r = Inr ()"
    using results_to_capnp_on_healthy [of s C c msg m] assms(3) by auto
qed

definition sample_sys :: "node \<Rightarrow> sys" where
  "sample_sys t = \<lparr> dsk = \<lparr> tree = t, fault = (\<lambda>_ _. False) \<rparr>, clock = 100, pid = 7, tmp_seq = 0 \<rparr>"

lemma sample_healthy: "healthy (dsk (sample_sys (Dir [(replicate 40 CHR ''a'', Dir es)])))"
  by (auto simp: healthy_def sample_sys_def no_faults_def is_dir_def split: if_splits)

theorem results_to_capnp_atomic_witness:
  "commitdir_get_results sample_capnp
     (dsk (snd (results_to_capnp sample_capnp (sample_sys (Dir [(replicate 40 CHR ''a'', Dir [])]))
        (replicate 40 CHR ''a'') None [(''t.a'', \<lparr> status = Passed, starttime = 5, duration = 3 \<rparr>)])))
     (replicate 40 CHR ''a'') =
   Some [(''t.a'', \<lparr> status = Passed, starttime = 0, duration = 3 \<rparr>)]"
proof -
  let ?s = "sample_sys (Dir [(replicate 40 CHR ''a'', Dir [])])" and ?c = "replicate 40 CHR ''a''"
    and ?m = "[(''t.a'', \<lparr> status = Passed, starttime = 5, duration = 3 \<rparr>)]"
  obtain r s' where run: "results_to_capnp sample_capnp ?s ?c None ?m = (r, s')" by fastforce
  have "bt_ok ?m" by (simp add: bt_ok_def)
  from results_to_capnp_atomic [OF sample_capnp_ok this run] sample_healthy [of "[]"] run
  show ?thesis by (auto simp: rendered_def)
qed

text \<open>C22: After \<open>cleanup_inprogress_results\<close> no subtest of any commit is recorded as in progress on disk. For
  every commit: exactly the marked subtest directories are gone and every other entry is as it was;
  and a commit that had a marked subtest has its \<open>.capnp\<close> file rebuilt from the directories that are
  left, while the file of any other commit reads as before.\<close>

theorem cleanup_inprogress_results_correct:
  assumes "capnp_ok C" and "healthy (dsk s)" and "commit_name c"
    and "d' = dsk (cleanup_inprogress_results C s)"
  shows "(\<forall>n. node_at (tree d') [c, n] = (if marked (dsk s) c n then None else node_at (tree (dsk s)) [c, n])) \<and>
    (\<forall>n. map_option status (read_test_result d' [c, n]) \<noteq> Some Inprogress) \<and>
    commitdir_get_results C d' c =
      (if \<exists>n. marked (dsk s) c n then Some (rendered (commitdir_get_results_fs d' c))
       else commitdir_get_results C (dsk s) c)"
proof -
  have cl: "cleaned C UNIV (dsk s) d'" using cleanup_all_spec [OF assms(1,2)] assms(4) by simp
  have "map_option status (read_test_result d' [c, n]) \<noteq> Some Inprogress" for n
    using cleaned_marked [OF cl assms(3), of n] marked_result [of d' c n] by blast
  with cl assms(3) show ?thesis unfolding cleaned_def any_marked_def by simp
qed

theorem cleanup_inprogress_results_correct_witness:
  "node_at (tree (dsk (cleanup_inprogress_results sample_capnp
      (sample_sys (Dir [(replicate 40 CHR ''a'',
         Dir [(''t.a'', Dir [(''status'', File ''IN PROGRESS'' 9)]), (''t.b'', Dir [(''status'', File ''PASSED'' 8)])])])))))
     [replicate 40 CHR ''a'', ''t.a''] = None"
proof -
  let ?s = "sample_sys (Dir [(replicate 40 CHR ''a'',
         Dir [(''t.a'', Dir [(''status'', File ''IN PROGRESS'' 9)]), (''t.b'', Dir [(''status'', File ''PASSED'' 8)])])])"
  have c: "commit_name (replicate 40 CHR ''a'')"
    by (simp add: commit_name_def is_ascii_hexdigit_def less_eq_char_def list_all_iff)
  have "marked (dsk ?s) (replicate 40 CHR ''a'') ''t.a''"
    by (simp add: marked_def sample_sys_def read_file_def from_str_def)
  then show ?thesis
    using cleanup_inprogress_results_correct [OF sample_capnp_ok sample_healthy c HOL.refl] by simp
qed

end
