(* ===== verification/Results_Store.thy ===== *)
theory Results_Store
  imports Results_Disk
begin

text \<open>
  \<open>TestResultsStore\<close> (\<open>src/lib.rs\<close>): the daemon's map of results by commit, the source of truth in
  memory, rendered to one \<open>.capnp\<close> file per commit after every change. Each operation runs under the
  store's lock, so an operation is one step. The interface the daemon relies on is the locale
  \<open>result_store\<close>, interpreted on the model's operations.

  Result keys are single path components (\<open>subtest_result_key\<close>).
\<close>

section \<open>The store\<close>

record store = sys +
  by_commit :: "string \<rightharpoonup> TestResultsMap"

definition drop_status :: "bool \<Rightarrow> TestStatus \<Rightarrow> bool" where
  "drop_status clear_failed_to_run s \<longleftrightarrow> s = Inprogress \<or> (clear_failed_to_run \<and> s = FailedToRun)"

text \<open>The loop over the stale keys of one commit, and one round of the loop over the commits.\<close>

fun drop_stale :: "disk \<Rightarrow> string \<Rightarrow> TestResultsMap \<Rightarrow> string list \<Rightarrow> TestResultsMap \<times> disk" where
  "drop_stale d commit m [] = (m, d)"
| "drop_stale d commit m (k # stale) =
     drop_stale (snd (remove_dir_all d [commit, k])) commit (bt_remove m k) stale"

definition load_commit :: "capnp \<Rightarrow> bool \<Rightarrow> string \<Rightarrow> store \<Rightarrow> store" where
  "load_commit C clear_failed_to_run commit_id st =
     (if \<not> is_commit_dir (dsk st) commit_id then st
      else
        (case Option.bind (commit_read_capnp (dsk st) commit_id) (parse_test_results C) of
           None \<Rightarrow> st
         | Some c \<Rightarrow>
             (let m = tests_of c;
                  stale = map fst (filter (\<lambda>(_, r). drop_status clear_failed_to_run (status r)) m);
                  (m, st) =
                    (if stale \<noteq> [] then
                       let (m, d) = drop_stale (dsk st) commit_id m stale;
                           (_, st) = results_to_capnp C (st\<lparr>dsk := d\<rparr>) commit_id None m
                       in (m, st)
                     else (m, st))
              in if m \<noteq> [] then st\<lparr>by_commit := (by_commit st)(commit_id \<mapsto> m)\<rparr> else st)))"

definition load :: "capnp \<Rightarrow> bool \<Rightarrow> sys \<Rightarrow> store" where
  "load C clear_failed_to_run s =
     (let st = \<lparr> dsk = dsk s, clock = clock s, pid = pid s, tmp_seq = tmp_seq s, by_commit = Map.empty \<rparr>
      in case read_dir (dsk s) [] of
           None \<Rightarrow> st
         | Some names \<Rightarrow> fold (load_commit C clear_failed_to_run) names st)"

definition lookup :: "store \<Rightarrow> string \<Rightarrow> string \<Rightarrow> TestStatus option" where
  "lookup st commit key = map_option status (Option.bind (by_commit st commit) (\<lambda>m. bt_get m key))"

definition commit_results :: "store \<Rightarrow> string \<Rightarrow> TestResultsMap option" where
  "commit_results st commit = by_commit st commit"

definition update :: "capnp \<Rightarrow> store \<Rightarrow> string \<Rightarrow> TestResultsMap \<Rightarrow> store" where
  "update C st commit updates =
     (if updates = [] then st
      else
        (let entry = bt_extend (unwrap_or (by_commit st commit) bt_empty) updates;
             st = st\<lparr>by_commit := (by_commit st)(commit \<mapsto> entry)\<rparr>
         in snd (results_to_capnp C st commit None entry)))"

definition update_one :: "capnp \<Rightarrow> store \<Rightarrow> string \<Rightarrow> string \<Rightarrow> TestResult \<Rightarrow> store" where
  "update_one C st commit key result = update C st commit (bt_insert bt_empty key result)"

fun remove_keys :: "TestResultsMap \<Rightarrow> string list \<Rightarrow> bool \<Rightarrow> TestResultsMap \<times> bool" where
  "remove_keys entry [] changed = (entry, changed)"
| "remove_keys entry (k # ks) changed =
     (if bt_contains_key entry k then remove_keys (bt_remove entry k) ks True
      else remove_keys (bt_remove entry k) ks changed)"

definition delete :: "capnp \<Rightarrow> store \<Rightarrow> string \<Rightarrow> string list \<Rightarrow> store" where
  "delete C st commit keys =
     (if keys = [] then st
      else
        (case by_commit st commit of
           None \<Rightarrow> st
         | Some entry \<Rightarrow>
             (let (entry, changed) = remove_keys entry keys False;
                  st = st\<lparr>by_commit := (by_commit st)(commit \<mapsto> entry)\<rparr>
              in if \<not> changed then st else snd (results_to_capnp C st commit None entry))))"

section \<open>The abstract store\<close>

text \<open>What the clients see: one result or none per commit and key.\<close>

definition store_get :: "store \<Rightarrow> string \<Rightarrow> string \<Rightarrow> TestResult option" where
  "store_get st commit key = Option.bind (by_commit st commit) (\<lambda>m. bt_get m key)"

definition store_ok :: "store \<Rightarrow> bool" where
  "store_ok st \<longleftrightarrow> (\<forall>c m. by_commit st c = Some m \<longrightarrow> bt_ok m)"

locale result_store =
  fixes get :: "'st \<Rightarrow> string \<Rightarrow> string \<Rightarrow> TestResult option"
    and upd :: "'st \<Rightarrow> string \<Rightarrow> TestResultsMap \<Rightarrow> 'st"
    and del :: "'st \<Rightarrow> string \<Rightarrow> string list \<Rightarrow> 'st"
    and ok :: "'st \<Rightarrow> bool"
  assumes ok_upd: "ok st \<Longrightarrow> ok (upd st c u)"
    and ok_del: "ok st \<Longrightarrow> ok (del st c ks)"
    and get_upd: "ok st \<Longrightarrow>
      get (upd st c u) c' k = (if c' = c \<and> map_of (rev u) k \<noteq> None then map_of (rev u) k else get st c' k)"
    and get_del: "ok st \<Longrightarrow> get (del st c ks) c' k = (if c' = c \<and> k \<in> set ks then None else get st c' k)"
begin

text \<open>A verdict written after a deletion, and a deletion after a write, win.\<close>

lemma upd_after_del:
  assumes "ok st"
  shows "get (upd (del st c ks) c u) c k =
    (case map_of (rev u) k of Some r \<Rightarrow> Some r | None \<Rightarrow> if k \<in> set ks then None else get st c k)"
  using get_upd [OF ok_del [OF assms]] get_del [OF assms] by (auto split: option.splits)

lemma del_after_upd:
  assumes "ok st" and "set (map fst u) \<subseteq> set ks"
  shows "get (del (upd st c u) c ks) c k = (if k \<in> set ks then None else get st c k)"
proof -
  have "map_of (rev u) k = None" if "k \<notin> set ks"
    using that assms(2) by (auto simp: map_of_eq_None_iff)
  then show ?thesis using get_upd [OF assms(1)] get_del [OF ok_upd [OF assms(1)]] by simp
qed

text \<open>Updates of one commit in two orders agree when they touch different keys.\<close>

lemma upd_commute:
  assumes "ok st" and "set (map fst u) \<inter> set (map fst v) = {}"
  shows "get (upd (upd st c u) c v) c' k = get (upd (upd st c v) c u) c' k"
proof -
  have "map_of (rev u) k = None \<or> map_of (rev v) k = None"
    using assms(2) unfolding map_of_eq_None_iff by auto
  then show ?thesis by (auto simp: get_upd ok_upd assms(1))
qed

lemma other_commit:
  "ok st \<Longrightarrow> c' \<noteq> c \<Longrightarrow> get (upd st c u) c' k = get st c' k \<and> get (del st c ks) c' k = get st c' k"
  by (simp add: get_upd get_del)

end

section \<open>The model provides the interface\<close>

lemma results_to_capnp_store [simp]:
  "by_commit (snd (results_to_capnp C st c msg m)) = by_commit st"
  by (simp add: results_to_capnp_def Let_def split: option.splits prod.splits bool.splits)

lemma remove_keys_eq:
  "remove_keys entry ks changed =
     (fold (\<lambda>k m. bt_remove m k) ks entry, changed \<or> (\<exists>k \<in> set ks. bt_contains_key entry k))"
proof (induction entry ks changed rule: remove_keys.induct)
  case (2 entry k ks changed)
  have "bt_contains_key (bt_remove entry k) k' \<longleftrightarrow> k' \<noteq> k \<and> bt_contains_key entry k'" for k'
    by (simp add: bt_contains_key_def bt_get_remove)
  with 2 show ?case by auto
qed simp

lemma remove_keys_unchanged:
  assumes "bt_ok entry" and "\<not> (\<exists>k \<in> set ks. bt_contains_key entry k)"
  shows "fold (\<lambda>k m. bt_remove m k) ks entry = entry"
  using assms
  by (intro bt.entries_ext bt.ok_fold_del) (auto simp: bt.get_fold_del bt_contains_key_def)

lemma update_by_commit:
  "by_commit (update C st c u) =
     (if u = [] then by_commit st
      else (by_commit st)(c \<mapsto> bt_extend (unwrap_or (by_commit st c) bt_empty) u))"
  by (simp add: update_def Let_def)

lemma delete_by_commit:
  "by_commit (delete C st c ks) c' =
     (if c' = c \<and> ks \<noteq> [] then map_option (fold (\<lambda>k m. bt_remove m k) ks) (by_commit st c) else by_commit st c')"
  by (simp add: delete_def remove_keys_eq Let_def split: option.splits)

lemma store_ok_update: "store_ok st \<Longrightarrow> store_ok (update C st c u)"
  by (auto simp: store_ok_def update_by_commit unwrap_or_def bt_ok_extend bt.ok_empty split: option.splits)

lemma store_ok_delete: "store_ok st \<Longrightarrow> store_ok (delete C st c ks)"
  by (auto simp: store_ok_def delete_by_commit bt.ok_fold_del split: if_splits)

lemma store_get_update:
  assumes "store_ok st"
  shows "store_get (update C st c u) c' k =
    (if c' = c \<and> map_of (rev u) k \<noteq> None then map_of (rev u) k else store_get st c' k)"
proof (cases "by_commit st c")
  case None
  then show ?thesis
    by (auto simp: store_get_def update_by_commit bt_get_extend bt.ok_empty split: option.splits)
next
  case (Some m)
  then have "bt_ok m" using assms by (simp add: store_ok_def)
  with Some show ?thesis
    by (auto simp: store_get_def update_by_commit bt_get_extend split: option.splits)
qed

lemma store_get_delete:
  assumes "store_ok st"
  shows "store_get (delete C st c ks) c' k = (if c' = c \<and> k \<in> set ks then None else store_get st c' k)"
proof (cases "by_commit st c")
  case (Some m)
  then have "bt_ok m" using assms by (simp add: store_ok_def)
  with Some show ?thesis by (auto simp: store_get_def delete_by_commit bt.get_fold_del)
qed (auto simp: store_get_def delete_by_commit)

interpretation rs: result_store store_get "update C" "delete C" store_ok for C
  by unfold_locales (simp_all add: store_ok_update store_ok_delete store_get_update store_get_delete)

section \<open>Memory and disk\<close>

text \<open>The file of a commit is a rendering of what the store holds for it (start times are not kept), for every
  commit outside a set \<open>D\<close>.\<close>

definition file_results :: "capnp \<Rightarrow> disk \<Rightarrow> string \<Rightarrow> TestResultsMap option" where
  "file_results C d c = map_option rendered (commitdir_get_results C d c)"

definition mirrored :: "capnp \<Rightarrow> string set \<Rightarrow> store \<Rightarrow> bool" where
  "mirrored C D st \<longleftrightarrow>
     (\<forall>c m. c \<notin> D \<longrightarrow> by_commit st c = Some m \<longrightarrow> file_results C (dsk st) c = Some (rendered m))"

text \<open>The commits whose file may differ from memory after the file of \<open>c\<close> was due to be written, on the way from
  \<open>st\<close> to \<open>st'\<close>: \<open>c\<close> is among them exactly when the disk refused the write, which the store only logs.\<close>

definition after_write :: "capnp \<Rightarrow> store \<Rightarrow> store \<Rightarrow> string \<Rightarrow> string set \<Rightarrow> string set" where
  "after_write C st st' c D =
     (if fst (results_to_capnp C (st\<lparr>by_commit := by_commit st'\<rparr>) c None (the (by_commit st' c))) = Inr ()
      then D - {c} else insert c D)"

lemma rendered_rendered [simp]: "rendered (rendered m) = rendered m"
  by (auto simp: rendered_def)

lemma capnp_other:
  assumes "results_to_capnp C st c msg m = (r, st')" and "c' \<noteq> c"
  shows "commitdir_get_results C (dsk st') c' = commitdir_get_results C (dsk st) c'"
  using results_to_capnp_frame [OF assms(1), of "capnp_name c'"] tmp_not_capnp(2) [of c' st c] assms(2)
  by (intro commitdir_get_results_cong) (simp add: capnp_name_def)

lemma capnp_other_file:
  "c' \<noteq> c \<Longrightarrow> commitdir_get_results C (dsk (snd (results_to_capnp C st c msg m))) c' = commitdir_get_results C (dsk st) c'"
  by (rule capnp_other [OF prod.collapse [symmetric]])

text \<open>Putting a map for a commit in memory and rendering it keeps the mirror.\<close>

lemma mirrored_write:
  assumes "capnp_ok C" and "mirrored C D st" and "bt_ok m"
    and "st' = snd (results_to_capnp C (st\<lparr>by_commit := (by_commit st)(c \<mapsto> m)\<rparr>) c None m)"
  shows "mirrored C (after_write C st st' c D) st'"
proof -
  let ?st = "st\<lparr>by_commit := (by_commit st)(c \<mapsto> m)\<rparr>"
  obtain r where run: "results_to_capnp C ?st c None m = (r, st')"
    using assms(4) by (cases "results_to_capnp C ?st c None m") auto
  have mem: "by_commit st' = (by_commit st)(c \<mapsto> m)"
    using results_to_capnp_store [of C ?st c None m] run by simp
  have D: "after_write C st st' c D = (if r = Inr () then D - {c} else insert c D)"
    by (simp add: after_write_def mem run)
  have other: "file_results C (dsk st') c' = file_results C (dsk st) c'" if "c' \<noteq> c" for c'
    using capnp_other [OF run that] by (simp add: file_results_def)
  have same: "file_results C (dsk st') c = Some (rendered m)" if "r = Inr ()"
    using written_results [OF assms(1,3) run [unfolded that]] by (simp add: file_results_def)
  have "file_results C (dsk st') c' = Some (rendered m')"
    if "c' \<notin> after_write C st st' c D" and "by_commit st' c' = Some m'" for c' m'
    using that D mem other [of c'] same assms(2) by (cases "c' = c") (auto simp: mirrored_def split: if_splits)
  then show ?thesis by (simp add: mirrored_def)
qed

lemma mirrored_update:
  assumes "capnp_ok C" and "mirrored C D st" and "store_ok st"
  shows "mirrored C (if u = [] then D else after_write C st (update C st c u) c D) (update C st c u)"
proof (cases "u = []")
  case False
  have "bt_ok (bt_extend (unwrap_or (by_commit st c) bt_empty) u)"
    using assms(3) by (auto simp: store_ok_def unwrap_or_def split: option.splits)
  from mirrored_write [OF assms(1,2) this] False show ?thesis by (simp add: update_def Let_def)
qed (use assms in \<open>simp add: update_def\<close>)

lemma mirrored_delete:
  assumes "capnp_ok C" and "mirrored C D st" and "store_ok st"
  shows "mirrored C (if \<exists>k \<in> set ks. store_get st c k \<noteq> None then after_write C st (delete C st c ks) c D else D)
    (delete C st c ks)"
proof (cases "by_commit st c")
  case (Some m)
  then have ok: "bt_ok m" using assms(3) by (simp add: store_ok_def)
  have due: "(\<exists>k \<in> set ks. store_get st c k \<noteq> None) \<longleftrightarrow> (\<exists>k \<in> set ks. bt_contains_key m k)"
    using Some by (simp add: store_get_def bt_contains_key_def)
  note gone = remove_keys_unchanged [OF ok, of ks]
  have same: "st\<lparr>by_commit := (by_commit st)(c \<mapsto> m)\<rparr> = st" using Some by (simp add: fun_upd_idem)
  show ?thesis
    using mirrored_write [OF assms(1,2) bt.ok_fold_del [OF ok, of ks] HOL.refl] Some gone same assms(2)
    unfolding due by (auto simp: delete_def remove_keys_eq Let_def)
qed (use assms in \<open>simp add: delete_def store_get_def\<close>)

section \<open>Loading\<close>

definition kept :: "bool \<Rightarrow> TestResultsMap \<Rightarrow> TestResultsMap" where
  "kept clear m = filter (\<lambda>(_, r). \<not> drop_status clear (status r)) m"

definition stale_key :: "bool \<Rightarrow> TestResultsMap \<Rightarrow> string \<Rightarrow> bool" where
  "stale_key clear m n \<longleftrightarrow> (\<exists>r. bt_get m n = Some r \<and> drop_status clear (status r))"

lemma fold_remove_filter: "fold (\<lambda>k m. bt_remove m k) ks m = filter (\<lambda>e. fst e \<notin> set ks) m"
  by (induction ks arbitrary: m) (auto simp: bt_remove_def intro: filter_cong)

lemma stale_keys:
  assumes "bt_ok m" and "stale = map fst (filter (\<lambda>(_, r). drop_status clear (status r)) m)"
  shows "n \<in> set stale \<longleftrightarrow> stale_key clear m n" and "fold (\<lambda>k m. bt_remove m k) stale m = kept clear m"
    and "stale = [] \<Longrightarrow> kept clear m = m"
proof -
  have mem: "e \<in> set m \<longleftrightarrow> bt_get m (fst e) = Some (snd e)" for e
    using bt.set_entries [OF assms(1)] by (cases e) auto
  show "n \<in> set stale \<longleftrightarrow> stale_key clear m n"
    unfolding assms(2) stale_key_def by (force simp: mem)
  show "fold (\<lambda>k m. bt_remove m k) stale m = kept clear m"
    unfolding fold_remove_filter kept_def
  proof (rule filter_cong [OF HOL.refl])
    fix e assume "e \<in> set m"
    then show "fst e \<notin> set stale \<longleftrightarrow> (case e of (_, r) \<Rightarrow> \<not> drop_status clear (status r))"
      unfolding assms(2) by (force simp: mem)
  qed
  show "kept clear m = m" if "stale = []"
    using that assms(2) by (auto simp: kept_def filter_empty_conv filter_id_conv)
qed

lemma drop_stale_spec:
  "no_faults d \<Longrightarrow> drop_stale d c m ks = (m', d') \<Longrightarrow>
     m' = fold (\<lambda>k m. bt_remove m k) ks m \<and> puts {[c, n] |n. True} d d' \<and>
     (\<forall>n. node_at (tree d') [c, n] =
        (if n \<in> set ks \<and> is_dir d [c, n] then None else node_at (tree d) [c, n]))"
proof (induction d c m ks rule: drop_stale.induct)
  case (2 d c m k ks)
  obtain ok d1 where d1: "remove_dir_all d [c, k] = (ok, d1)" by fastforce
  have p: "puts {[c, n] |n. True} d d1" and p': "puts {[c, k]} d d1"
    using puts_remove_dir [of "[c, k]" "{[c, n] |n. True}" d] puts_remove_dir [of "[c, k]" "{[c, k]}" d] d1
    by simp_all
  have nf: "no_faults d1" using puts_fault [OF p] "2.prems"(1) by (simp add: no_faults_def)
  have gone: "node_at (tree d1) [c, k] = (if is_dir d [c, k] then None else node_at (tree d) [c, k])"
  proof (cases "is_dir d [c, k]")
    case True
    then have ok using remove_dir_succeeds [OF "2.prems"(1) True] d1 by simp
    then show ?thesis using True remove_dir_all_at d1 by simp
  next
    case False
    then have "d1 = d" using d1 by (simp add: remove_dir_all_def)
    then show ?thesis using False by simp
  qed
  have at: "node_at (tree d1) [c, n] =
      (if n = k \<and> is_dir d [c, k] then None else node_at (tree d) [c, n])" for n
    using gone puts_frame [OF p', of "[c, n]"] by (cases "n = k") auto
  then have dir: "is_dir d1 [c, n] \<longleftrightarrow> n \<noteq> k \<and> is_dir d [c, n]" for n
    by (auto simp: is_dir_def split: if_splits)
  from "2.IH" d1 nf "2.prems"(2) have
    "m' = fold (\<lambda>k m. bt_remove m k) ks (bt_remove m k) \<and> puts {[c, n] |n. True} d1 d' \<and>
     (\<forall>n. node_at (tree d') [c, n] = (if n \<in> set ks \<and> is_dir d1 [c, n] then None else node_at (tree d1) [c, n]))"
    by simp
  then show ?case using at dir puts_trans [OF _ p] by auto
qed auto

text \<open>What a round of loading does, given which entries of the directory it is run for.\<close>

definition loaded :: "capnp \<Rightarrow> bool \<Rightarrow> string set \<Rightarrow> store \<Rightarrow> store \<Rightarrow> bool" where
  "loaded C clear cs st st' \<longleftrightarrow>
     (\<forall>c. (is_dir (dsk st') [c] \<longleftrightarrow> is_dir (dsk st) [c]) \<and>
        (case if c \<in> cs \<and> is_commit_dir (dsk st) c then commitdir_get_results C (dsk st) c else None of
           None \<Rightarrow>
             by_commit st' c = by_commit st c \<and>
             commitdir_get_results C (dsk st') c = commitdir_get_results C (dsk st) c \<and>
             (commit_name c \<longrightarrow> (\<forall>n. node_at (tree (dsk st')) [c, n] = node_at (tree (dsk st)) [c, n]))
         | Some m \<Rightarrow>
             by_commit st' c = (if kept clear m = [] then by_commit st c else Some (kept clear m)) \<and>
             map_option rendered (commitdir_get_results C (dsk st') c) = Some (rendered (kept clear m)) \<and>
             (\<forall>n. node_at (tree (dsk st')) [c, n] =
                (if stale_key clear m n \<and> is_dir (dsk st) [c, n] then None
                 else node_at (tree (dsk st)) [c, n]))))"

lemma loaded_refl:
  "(\<And>c. c \<in> cs \<Longrightarrow> is_commit_dir (dsk st) c \<Longrightarrow> commitdir_get_results C (dsk st) c = None) \<Longrightarrow>
     loaded C clear cs st st"
  by (auto simp: loaded_def split: option.splits)

lemma loaded_trans:
  assumes "loaded C clear cs st st'" and "loaded C clear cs' st' st''" and "cs \<inter> cs' = {}"
  shows "loaded C clear (cs \<union> cs') st st''"
  unfolding loaded_def
proof (intro allI)
  fix c
  note 1 = assms(1) [unfolded loaded_def is_commit_dir_iff, rule_format, of c]
  note 2 = assms(2) [unfolded loaded_def is_commit_dir_iff, rule_format, of c]
  have "c \<notin> cs \<or> c \<notin> cs'" using assms(3) by blast
  then show "(is_dir (dsk st'') [c] \<longleftrightarrow> is_dir (dsk st) [c]) \<and>
        (case if c \<in> cs \<union> cs' \<and> is_commit_dir (dsk st) c then commitdir_get_results C (dsk st) c else None of
           None \<Rightarrow>
             by_commit st'' c = by_commit st c \<and>
             commitdir_get_results C (dsk st'') c = commitdir_get_results C (dsk st) c \<and>
             (commit_name c \<longrightarrow> (\<forall>n. node_at (tree (dsk st'')) [c, n] = node_at (tree (dsk st)) [c, n]))
         | Some m \<Rightarrow>
             by_commit st'' c = (if kept clear m = [] then by_commit st c else Some (kept clear m)) \<and>
             map_option rendered (commitdir_get_results C (dsk st'') c) = Some (rendered (kept clear m)) \<and>
             (\<forall>n. node_at (tree (dsk st'')) [c, n] =
                (if stale_key clear m n \<and> is_dir (dsk st) [c, n] then None
                 else node_at (tree (dsk st)) [c, n])))"
    using 1 2 unfolding is_commit_dir_iff
    by (cases "c \<in> cs"; cases "c \<in> cs'"; cases "commit_name c"; cases "is_dir (dsk st) [c]";
        cases "commitdir_get_results C (dsk st) c") (simp_all add: is_dir_def cong: if_cong)
qed

lemma commitdir_results_bind:
  "commitdir_get_results C d c = map_option tests_of (Option.bind (commit_read_capnp d c) (parse_test_results C))"
  by (simp add: commitdir_get_results_def split: option.splits)

lemma commitdir_get_results_ok: "commitdir_get_results C d c = Some m \<Longrightarrow> bt_ok m"
  by (auto simp: commitdir_get_results_def parse_test_results_def split: option.splits)

text \<open>Dropping the stale entries of one commit and rewriting its file.\<close>

lemma drop_and_write:
  assumes C: "capnp_ok C" and h: "healthy (dsk st)" and c: "commit_name c"
    and m: "commitdir_get_results C (dsk st) c = Some m"
    and stale: "stale = map fst (filter (\<lambda>(_, r). drop_status clear (status r)) m)"
    and drop: "drop_stale (dsk st) c m stale = (m', d)"
    and run: "results_to_capnp C (st\<lparr>dsk := d\<rparr>) c None m' = (r, st')"
  shows "m' = kept clear m \<and> healthy (dsk st') \<and> by_commit st' = by_commit st \<and>
    (\<forall>a. is_dir (dsk st') [a] \<longleftrightarrow> is_dir (dsk st) [a]) \<and>
    commitdir_get_results C (dsk st') c = Some (rendered m') \<and>
    (\<forall>c'. c' \<noteq> c \<longrightarrow> commitdir_get_results C (dsk st') c' = commitdir_get_results C (dsk st) c') \<and>
    (\<forall>c' n. commit_name c' \<longrightarrow> node_at (tree (dsk st')) [c', n] =
       (if c' = c \<and> stale_key clear m n \<and> is_dir (dsk st) [c, n] then None
        else node_at (tree (dsk st)) [c', n]))"
proof -
  have nf: "no_faults (dsk st)" using h by (simp add: healthy_def)
  note ok = commitdir_get_results_ok [OF m]
  note sk = stale_keys [OF ok stale]
  note sp = drop_stale_spec [OF nf drop]
  then have m': "m' = kept clear m" and p: "puts {[c, n] |n. True} (dsk st) d" using sk by auto
  note below = below_commit [OF p]
  have h1: "healthy (dsk (st\<lparr>dsk := d\<rparr>))" using h below by (simp add: healthy_def no_faults_def)
  with run have r: "r = Inr ()" and h': "healthy (dsk st')"
    using results_to_capnp_on_healthy [OF h1, of C c None m'] by auto
  note fr = results_to_capnp_frame [OF run]
  have bc: "by_commit st' = by_commit st"
    using results_to_capnp_store [of C "st\<lparr>dsk := d\<rparr>" c None m'] run by simp
  have "bt_ok m'" using ok m' by (simp add: kept_def bt_ok_filter)
  then have res: "commitdir_get_results C (dsk st') c = Some (rendered m')"
    using written_results [OF C] run r by blast
  have other: "commitdir_get_results C (dsk st') c' = commitdir_get_results C (dsk st) c'" if "c' \<noteq> c" for c'
  proof -
    have "commitdir_get_results C d c' = commitdir_get_results C (dsk st) c'"
      using below(4) [of "capnp_name c'"] commit_name_not_file(1) [OF c, of c']
      by (intro commitdir_get_results_cong) (auto simp: capnp_name_def)
    then show ?thesis using capnp_other [OF run that] by simp
  qed
  have dirs: "is_dir (dsk st') [a] \<longleftrightarrow> is_dir (dsk st) [a]" for a
  proof (cases "[a] = capnp_name c \<or> [a] = tmp_name (st\<lparr>dsk := d\<rparr>) c")
    case True
    then show ?thesis
      using dotted_not_dir [OF h'] dotted_not_dir [OF h] by metis
  next
    case False
    then have "node_at (tree (dsk st')) [a] = node_at (tree d) [a]" using fr [of "[a]"] by simp
    then show ?thesis using below(3) [of a] by (simp add: is_dir_def)
  qed
  have "node_at (tree (dsk st')) [c', n] =
       (if c' = c \<and> stale_key clear m n \<and> is_dir (dsk st) [c, n] then None
        else node_at (tree (dsk st)) [c', n])" if "commit_name c'" for c' n
    using fr [of "[c', n]"] that sp sk(1) below(4) [of "[c', n]"] by (cases "c' = c") auto
  with m' h' bc dirs res other show ?thesis by blast
qed

lemma load_commit_spec:
  assumes C: "capnp_ok C" and h: "healthy (dsk st)"
  shows "healthy (dsk (load_commit C clear c st)) \<and> loaded C clear {c} st (load_commit C clear c st)"
proof (cases "if is_commit_dir (dsk st) c then commitdir_get_results C (dsk st) c else None")
  case None
  then have "load_commit C clear c st = st"
    by (auto simp: load_commit_def commitdir_results_bind split: option.splits if_splits)
  moreover have "loaded C clear {c} st st" using None by (intro loaded_refl) auto
  ultimately show ?thesis using h by simp
next
  case (Some m)
  then have cd: "is_commit_dir (dsk st) c" and c: "commit_name c" and m: "commitdir_get_results C (dsk st) c = Some m"
    by (auto simp: is_commit_dir_iff split: if_splits)
  obtain x where x: "Option.bind (commit_read_capnp (dsk st) c) (parse_test_results C) = Some x" and xm: "tests_of x = m"
    using m by (auto simp: commitdir_results_bind)
  define stale where stale: "stale = map fst (filter (\<lambda>(_, r). drop_status clear (status r)) m)"
  note sk = stale_keys [OF commitdir_get_results_ok [OF m] stale]
  show ?thesis
  proof (cases "stale = []")
    case True
    have "load_commit C clear c st = (if m \<noteq> [] then st\<lparr>by_commit := (by_commit st)(c \<mapsto> m)\<rparr> else st)"
      using True cd x xm stale by (auto simp: load_commit_def)
    moreover have "kept clear m = m" and "\<not> stale_key clear m n" for n using sk True by auto
    ultimately show ?thesis
      using h m cd by (auto simp: loaded_def split: option.splits if_splits)
  next
    case False
    obtain m' d where drop: "drop_stale (dsk st) c m stale = (m', d)" by fastforce
    obtain r st' where run: "results_to_capnp C (st\<lparr>dsk := d\<rparr>) c None m' = (r, st')" by fastforce
    note sp = drop_and_write [OF C h c m stale drop run]
    have eq: "load_commit C clear c st = (if m' \<noteq> [] then st'\<lparr>by_commit := (by_commit st')(c \<mapsto> m')\<rparr> else st')"
      using False cd x xm drop run stale by (simp add: load_commit_def)
    have "healthy (dsk (load_commit C clear c st))" using eq sp by simp
    moreover have "loaded C clear {c} st (load_commit C clear c st)"
      using sp cd m c unfolding eq loaded_def by (auto simp: is_commit_dir_iff split: option.splits)
    ultimately show ?thesis by blast
  qed
qed

lemma load_fold_spec:
  "capnp_ok C \<Longrightarrow> healthy (dsk st) \<Longrightarrow> distinct cs \<Longrightarrow>
     healthy (dsk (fold (load_commit C clear) cs st)) \<and> loaded C clear (set cs) st (fold (load_commit C clear) cs st)"
proof (induction cs arbitrary: st)
  case Nil
  then show ?case using loaded_refl [of "{}"] by auto
next
  case (Cons c cs)
  note one = load_commit_spec [OF Cons.prems(1,2), of clear c]
  with Cons.IH [OF Cons.prems(1), of "load_commit C clear c st"] Cons.prems(3)
  show ?case using loaded_trans [of C clear "{c}" st "load_commit C clear c st" "set cs"] by simp
qed

section \<open>Runs of the store\<close>

text \<open>Between operations anything may happen on the disk: the workers write their directories, commit messages
  are added, \<open>gc-results\<close> and \<open>rm-results\<close> remove or rewrite \<open>.capnp\<close> files, writes start or stop being refused. The
  second component of a state collects the commits whose file may differ from memory: the last write of the
  store was refused, or another program changed the results in the file since.\<close>

inductive store_step :: "capnp \<Rightarrow> store \<times> string set \<Rightarrow> store \<times> string set \<Rightarrow> bool" for C where
  upd: "store_step C (st, D) (update C st c u, if u = [] then D else after_write C st (update C st c u) c D)"
| del: "store_step C (st, D) (delete C st c ks,
    if \<exists>k \<in> set ks. store_get st c k \<noteq> None then after_write C st (delete C st c ks) c D else D)"
| env: "store_step C (st, D) (st\<lparr>dsk := d, clock := t\<rparr>, D \<union> {c. file_results C d c \<noteq> file_results C (dsk st) c})"

inductive store_reach :: "capnp \<Rightarrow> store \<times> string set \<Rightarrow> store \<times> string set \<Rightarrow> bool" for C s0 where
  start: "store_reach C s0 s0"
| more: "store_reach C s0 s \<Longrightarrow> store_step C s s' \<Longrightarrow> store_reach C s0 s'"

definition store_inv :: "capnp \<Rightarrow> store \<times> string set \<Rightarrow> bool" where
  "store_inv C s \<longleftrightarrow> store_ok (fst s) \<and> mirrored C (snd s) (fst s)"

lemma mirrored_env:
  "mirrored C D st \<Longrightarrow>
     mirrored C (D \<union> {c. file_results C d c \<noteq> file_results C (dsk st) c}) (st\<lparr>dsk := d, clock := t\<rparr>)"
  by (simp add: mirrored_def)

lemma store_step_inv: "store_step C s s' \<Longrightarrow> capnp_ok C \<Longrightarrow> store_inv C s \<Longrightarrow> store_inv C s'"
proof (induction rule: store_step.induct)
  case (upd st D c u)
  then show ?case using mirrored_update [of C D st u c] store_ok_update by (simp add: store_inv_def)
next
  case (del st D c ks)
  then show ?case using mirrored_delete [of C D st ks c] store_ok_delete by (simp add: store_inv_def)
next
  case (env st D t d)
  then show ?case using mirrored_env [of C D st d t] by (simp add: store_inv_def store_ok_def)
qed

lemma store_reach_inv: "store_reach C s0 s \<Longrightarrow> capnp_ok C \<Longrightarrow> store_inv C s0 \<Longrightarrow> store_inv C s"
  by (induction rule: store_reach.induct) (auto intro: store_step_inv)

lemma load_spec:
  assumes "capnp_ok C" and "healthy (dsk s)" and "read_dir (dsk s) [] = Some names" and "distinct names"
    and "st0 = \<lparr> dsk = dsk s, clock = clock s, pid = pid s, tmp_seq = tmp_seq s, by_commit = Map.empty \<rparr>"
  shows "healthy (dsk (load C clear s)) \<and> loaded C clear UNIV st0 (load C clear s)"
proof -
  have "healthy (dsk st0)" using assms(2,5) by simp
  note sp = load_fold_spec [OF assms(1) this assms(4), of clear]
  have load: "load C clear s = fold (load_commit C clear) names st0"
    using assms(3,5) by (simp add: load_def Let_def)
  have "c \<in> set names \<and> is_commit_dir (dsk st0) c \<longleftrightarrow> is_commit_dir (dsk st0) c" for c
    using read_dir_iff [OF assms(3), of c] is_dir_exists [of "dsk s" "[c]"] assms(5)
    by (auto simp: is_commit_dir_iff)
  then show ?thesis using sp unfolding load loaded_def by simp
qed

lemma load_mirrored:
  assumes "capnp_ok C" and "healthy (dsk s)" and "read_dir (dsk s) [] = Some names" and "distinct names"
  shows "store_inv C (load C clear s, {})"
proof -
  note sp = load_spec [OF assms HOL.refl, of clear]
  have "bt_ok m \<and> map_option rendered (commitdir_get_results C (dsk (load C clear s)) c) = Some (rendered m)"
    if m: "by_commit (load C clear s) c = Some m" for c m
  proof -
    from sp m obtain m0 where "is_commit_dir (dsk s) c" and m0: "commitdir_get_results C (dsk s) c = Some m0"
      by (auto simp: loaded_def dest!: spec [of _ c] split: option.splits if_splits)
    then show ?thesis
      using sp m commitdir_get_results_ok [OF m0]
      by (auto simp: loaded_def kept_def bt_ok_filter dest!: spec [of _ c] split: if_splits)
  qed
  then show ?thesis using sp by (simp add: store_inv_def store_ok_def mirrored_def file_results_def)
qed

text \<open>On a disk that refuses operations the rewriting of a file may fail: the commits with an entry to drop.\<close>

definition has_stale :: "capnp \<Rightarrow> bool \<Rightarrow> disk \<Rightarrow> string \<Rightarrow> bool" where
  "has_stale C clear d c \<longleftrightarrow> (\<exists>m k. commitdir_get_results C d c = Some m \<and> stale_key clear m k)"

definition load_dirty :: "capnp \<Rightarrow> bool \<Rightarrow> sys \<Rightarrow> string set" where
  "load_dirty C clear s =
     (if healthy (dsk s) then {} else {c. has_stale C clear (dsk s) c})"

text \<open>Whatever the disk refuses, a round of loading changes at most the file of a commit with an entry to drop.\<close>

definition load_safe :: "capnp \<Rightarrow> bool \<Rightarrow> disk \<Rightarrow> store \<Rightarrow> bool" where
  "load_safe C clear d st \<longleftrightarrow> store_ok st \<and>
     (\<forall>c. has_stale C clear d c \<or>
        commitdir_get_results C (dsk st) c = commitdir_get_results C d c \<and>
        (\<forall>m. by_commit st c = Some m \<longrightarrow> commitdir_get_results C d c = Some m))"

lemma drop_stale_puts:
  "drop_stale d c m ks = (m', d') \<Longrightarrow> puts {[c, n] |n. True} d d' \<and> m' = fold (\<lambda>k m. bt_remove m k) ks m"
proof (induction d c m ks rule: drop_stale.induct)
  case (2 d c m k ks)
  have "puts {[c, n] |n. True} d (snd (remove_dir_all d [c, k]))" by (rule puts_remove_dir) blast
  with 2 show ?case using puts_trans by auto
qed simp

lemma drop_and_write_other:
  assumes "drop_stale (dsk st) c m stale = (m', d1)" and "results_to_capnp C (st\<lparr>dsk := d1\<rparr>) c None m' = (r, st')"
    and "commit_name c" and "c' \<noteq> c"
  shows "commitdir_get_results C (dsk st') c' = commitdir_get_results C (dsk st) c'"
proof -
  have "commitdir_get_results C d1 c' = commitdir_get_results C (dsk st) c'"
    using below_commit(4) [OF conjunct1 [OF drop_stale_puts [OF assms(1)]], of "capnp_name c'"]
      commit_name_not_file(1) [OF assms(3), of c']
    by (intro commitdir_get_results_cong) (auto simp: capnp_name_def)
  then show ?thesis using capnp_other [OF assms(2,4)] by simp
qed

lemma load_commit_safe:
  assumes "load_safe C clear d st"
  shows "load_safe C clear d (load_commit C clear c st)"
proof (cases "if is_commit_dir (dsk st) c then commitdir_get_results C (dsk st) c else None")
  case None
  then have "load_commit C clear c st = st"
    by (auto simp: load_commit_def commitdir_results_bind split: option.splits if_splits)
  with assms show ?thesis by simp
next
  case (Some m)
  then have cd: "is_commit_dir (dsk st) c" and c: "commit_name c" and m: "commitdir_get_results C (dsk st) c = Some m"
    by (auto simp: is_commit_dir_iff split: if_splits)
  obtain x where x: "Option.bind (commit_read_capnp (dsk st) c) (parse_test_results C) = Some x" and xm: "tests_of x = m"
    using m by (auto simp: commitdir_results_bind)
  define stale where stale: "stale = map fst (filter (\<lambda>(_, r). drop_status clear (status r)) m)"
  note ok = commitdir_get_results_ok [OF m]
  note sk = stale_keys [OF ok stale]
  show ?thesis
  proof (cases "stale = []")
    case True
    have "load_commit C clear c st = (if m \<noteq> [] then st\<lparr>by_commit := (by_commit st)(c \<mapsto> m)\<rparr> else st)"
      using True cd x xm stale by (auto simp: load_commit_def)
    moreover have "has_stale C clear d c \<or> commitdir_get_results C d c = Some m"
      using assms m by (auto simp: load_safe_def dest!: spec [of _ c])
    ultimately show ?thesis using assms ok m by (auto simp: load_safe_def store_ok_def)
  next
    case False
    obtain m' d1 where drop: "drop_stale (dsk st) c m stale = (m', d1)" by fastforce
    obtain r st' where run: "results_to_capnp C (st\<lparr>dsk := d1\<rparr>) c None m' = (r, st')" by fastforce
    note p = drop_stale_puts [OF drop]
    have "bt_ok m'" using p ok by (simp add: bt.ok_fold_del)
    moreover have eq: "load_commit C clear c st = (if m' \<noteq> [] then st'\<lparr>by_commit := (by_commit st')(c \<mapsto> m')\<rparr> else st')"
      using False cd x xm drop run stale by (simp add: load_commit_def)
    moreover have bc: "by_commit st' = by_commit st"
      using results_to_capnp_store [of C "st\<lparr>dsk := d1\<rparr>" c None m'] run by simp
    moreover have "commitdir_get_results C (dsk st') c' = commitdir_get_results C (dsk st) c'" if "c' \<noteq> c" for c'
      using drop_and_write_other [OF drop run c that] .
    moreover have "has_stale C clear d c"
    proof -
      obtain k where "stale_key clear m k" using sk(1) False by (cases stale) auto
      then show ?thesis using assms m by (auto simp: load_safe_def has_stale_def dest!: spec [of _ c])
    qed
    moreover have "commitdir_get_results C (dsk st) c' = commitdir_get_results C d c'" if "\<not> has_stale C clear d c'" for c'
      using that assms by (auto simp: load_safe_def)
    moreover have "c' \<noteq> c" if "\<not> has_stale C clear d c'" for c' using that calculation(5) by blast
    ultimately show ?thesis using assms by (auto simp: load_safe_def store_ok_def)
  qed
qed

lemma load_inv:
  assumes "capnp_ok C" and "\<And>names. read_dir (dsk s) [] = Some names \<Longrightarrow> distinct names"
  shows "store_inv C (load C clear s, load_dirty C clear s)"
proof (cases "healthy (dsk s)")
  case True
  then obtain names where "read_dir (dsk s) [] = Some names" by (auto simp: healthy_def is_dir_read_dir)
  with load_mirrored [OF assms(1) True] assms(2) True show ?thesis by (simp add: load_dirty_def)
next
  case False
  have "load_safe C clear (dsk s) (fold (load_commit C clear) cs st)" if "load_safe C clear (dsk s) st" for cs st
    using that by (induction cs arbitrary: st) (simp_all add: load_commit_safe)
  moreover have "load_safe C clear (dsk s)
      \<lparr> dsk = dsk s, clock = clock s, pid = pid s, tmp_seq = tmp_seq s, by_commit = Map.empty \<rparr>"
    by (simp add: load_safe_def store_ok_def)
  ultimately have safe: "load_safe C clear (dsk s) (load C clear s)"
    by (simp add: load_def Let_def split: option.splits)
  then have "store_ok (load C clear s)" by (simp add: load_safe_def)
  moreover have "commitdir_get_results C (dsk (load C clear s)) c = Some m"
    if "\<not> has_stale C clear (dsk s) c" "by_commit (load C clear s) c = Some m" for c m
    using that safe by (auto simp: load_safe_def dest!: spec [of _ c])
  ultimately show ?thesis
    using False by (auto simp: store_inv_def load_dirty_def mirrored_def file_results_def)
qed

text \<open>An update on a healthy disk is written, and no operation touches the results of another commit's file.\<close>

lemma update_repairs:
  assumes "capnp_ok C" and "healthy (dsk st)" and "store_ok st" and "u \<noteq> []"
  shows "file_results C (dsk (update C st c u)) c = map_option rendered (commit_results (update C st c u) c)"
proof -
  let ?m = "bt_extend (unwrap_or (by_commit st c) bt_empty) u"
  have ok: "bt_ok ?m" using assms(3) by (auto simp: store_ok_def unwrap_or_def split: option.splits)
  let ?st = "st\<lparr>by_commit := (by_commit st)(c \<mapsto> ?m)\<rparr>"
  have "healthy (dsk ?st)" using assms(2) by simp
  then obtain st1 where run: "results_to_capnp C ?st c None ?m = (Inr (), st1)"
    using results_to_capnp_on_healthy by blast
  then have "dsk (update C st c u) = dsk st1" using assms(4) by (simp add: update_def Let_def)
  moreover have "commit_results (update C st c u) c = Some ?m"
    using assms(4) by (simp add: commit_results_def update_by_commit)
  ultimately show ?thesis using written_results [OF assms(1) ok run] by (simp add: file_results_def)
qed

lemma update_other_file:
  "c' \<noteq> c \<Longrightarrow> commitdir_get_results C (dsk (update C st c u)) c' = commitdir_get_results C (dsk st) c'"
  by (simp add: update_def Let_def capnp_other_file)

lemma delete_other_file:
  "c' \<noteq> c \<Longrightarrow> commitdir_get_results C (dsk (delete C st c ks)) c' = commitdir_get_results C (dsk st) c'"
  by (auto simp: capnp_other_file delete_def Let_def remove_keys_eq split: option.splits)

section \<open>Properties\<close>

text \<open>C16: The store refines a map from commit and key to result, whether or not the disk accepts the writes:
  \<open>lookup\<close> and \<open>commit_results\<close> read the map, \<open>update\<close> and \<open>update_one\<close> overwrite exactly the given keys
  of the given commit, \<open>delete\<close> removes exactly the given keys, and two updates of one commit with
  different keys, as two batches make them, have the same result in either order.\<close>

theorem store_refines_map:
  assumes "store_ok st" and "bt_ok u"
  shows "store_ok (update C st c u) \<and> store_ok (delete C st c ks) \<and>
    lookup st c' k = map_option status (store_get st c' k) \<and>
    (\<forall>m. commit_results st c' = Some m \<longrightarrow> bt_get m k = store_get st c' k) \<and>
    store_get (update C st c u) c' k =
      (if c' = c \<and> bt_get u k \<noteq> None then bt_get u k else store_get st c' k) \<and>
    store_get (update_one C st c k0 r) c' k = (if c' = c \<and> k = k0 then Some r else store_get st c' k) \<and>
    store_get (delete C st c ks) c' k = (if c' = c \<and> k \<in> set ks then None else store_get st c' k) \<and>
    (fst ` set u \<inter> fst ` set v = {} \<longrightarrow>
       store_get (update C (update C st c u) c v) c' k = store_get (update C (update C st c v) c u) c' k)"
proof (intro conjI impI)
  have "map_of (rev u) = bt_get u"
    using distinct_map_of_rev bt.entries_distinct assms(2) by blast
  then show "store_get (update C st c u) c' k =
      (if c' = c \<and> bt_get u k \<noteq> None then bt_get u k else store_get st c' k)"
    by (auto simp: rs.get_upd [OF assms(1)])
  assume "fst ` set u \<inter> fst ` set v = {}"
  then show "store_get (update C (update C st c u) c v) c' k = store_get (update C (update C st c v) c u) c' k"
    by (intro rs.upd_commute [OF assms(1)]) simp
qed (use assms in \<open>auto simp: lookup_def commit_results_def update_one_def store_get_def [of st]
       rs.ok_upd rs.ok_del rs.get_upd [OF assms(1)] rs.get_del [OF assms(1)]\<close>)

definition sample_store :: store where
  "sample_store = \<lparr> dsk = \<lparr> tree = Dir [], fault = (\<lambda>_ _. True) \<rparr>, clock = 100, pid = 7, tmp_seq = 0,
     by_commit = Map.empty \<rparr>"

theorem store_refines_map_witness:
  "lookup (update sample_capnp sample_store ''c'' [(''t.a'', \<lparr> status = Passed, starttime = 5, duration = 3 \<rparr>)])
     ''c'' ''t.a'' = Some Passed"
proof -
  let ?u = "[(''t.a'', \<lparr> status = Passed, starttime = 5, duration = 3 \<rparr>)]"
  have ok: "store_ok sample_store" and u: "bt_ok ?u"
    by (simp_all add: store_ok_def sample_store_def bt_ok_def)
  note one = store_refines_map [OF ok u, of sample_capnp "''c''" "[]" "''c''" "''t.a''"]
  then have "store_ok (update sample_capnp sample_store ''c'' ?u)" by blast
  from store_refines_map [OF this u, of sample_capnp "''c''" "[]" "''c''" "''t.a''"] one
  show ?thesis by auto
qed

text \<open>C2: The \<open>.capnp\<close> file of a commit is a rendering of what the store holds for that commit, except where the disk
  refused the store's last write of it or another program changed it since. In every state reached from \<open>load\<close>
  by updates and deletions in any order, with refused writes and with arbitrary changes of the disk between
  them, for every commit outside the set \<open>D\<close> of those exceptions reading the file gives the statuses and
  durations in memory. \<open>D\<close> is empty when the daemon starts on a healthy disk (on another it starts as
  the commits that have a result to drop, whose files \<open>load\<close> tries to rewrite), an accepted write takes its commit
  out of \<open>D\<close> again, and no write of the store touches what the file of another commit gives; so an update on
  a disk that works brings the file of its commit up to date, whatever happened to it before.\<close>

theorem store_mirrors_disk:
  assumes "capnp_ok C" and "\<And>names. read_dir (dsk s) [] = Some names \<Longrightarrow> distinct names"
    and "store_reach C (load C clear s, load_dirty C clear s) (st, D)"
  shows "(\<forall>c m. commit_results st c = Some m \<and> c \<notin> D \<longrightarrow>
      map_option rendered (commitdir_get_results C (dsk st) c) = Some (rendered m)) \<and>
    (\<forall>c u. healthy (dsk st) \<and> u \<noteq> [] \<longrightarrow>
      map_option rendered (commitdir_get_results C (dsk (update C st c u)) c) =
        map_option rendered (commit_results (update C st c u) c)) \<and>
    (\<forall>c c' u ks. c' \<noteq> c \<longrightarrow>
      commitdir_get_results C (dsk (update C st c u)) c' = commitdir_get_results C (dsk st) c' \<and>
      commitdir_get_results C (dsk (delete C st c ks)) c' = commitdir_get_results C (dsk st) c')"
proof (intro conjI allI impI)
  note inv = store_reach_inv [OF assms(3,1) load_inv [OF assms(1,2)]]
  show "map_option rendered (commitdir_get_results C (dsk st) c) = Some (rendered m)"
    if "commit_results st c = Some m \<and> c \<notin> D" for c m
    using that inv by (simp add: store_inv_def mirrored_def commit_results_def file_results_def)
  show "map_option rendered (commitdir_get_results C (dsk (update C st c u)) c) =
      map_option rendered (commit_results (update C st c u) c)" if "healthy (dsk st) \<and> u \<noteq> []" for c u
    using update_repairs [OF assms(1)] inv that by (simp add: store_inv_def file_results_def)
qed (simp_all add: update_other_file delete_other_file)

text \<open>A results directory with one commit, one of its results in progress and one passed.\<close>

definition sample_commit :: string where
  "sample_commit = replicate 40 CHR ''a''"

definition sample_results :: TestResultsMap where
  "sample_results = [(''t.a'', \<lparr> status = Inprogress, starttime = 0, duration = 0 \<rparr>),
     (''t.b'', \<lparr> status = Passed, starttime = 0, duration = 4 \<rparr>)]"

definition sample_root :: node where
  "sample_root = Dir [(sample_commit, Dir [(''t.a'', Dir []), (''t.b'', Dir [])]),
     (sample_commit @ ''.capnp'', File (write_message sample_capnp (results_message sample_commit None sample_results)) 9)]"

lemma sample_results_ok: "bt_ok sample_results" "rendered sample_results = sample_results"
  by (simp_all add: sample_results_def bt_ok_def rendered_def)

lemma sample_root_facts:
  "healthy (dsk (sample_sys sample_root))"
  "read_dir (dsk (sample_sys sample_root)) [] = Some [sample_commit, sample_commit @ ''.capnp'']"
  "is_commit_dir (dsk (sample_sys sample_root)) sample_commit"
  "commitdir_get_results sample_capnp (dsk (sample_sys sample_root)) sample_commit = Some sample_results"
  "is_dir (dsk (sample_sys sample_root)) [sample_commit, ''t.a'']"
proof -
  show "healthy (dsk (sample_sys sample_root))"
    by (auto simp: healthy_def sample_sys_def no_faults_def is_dir_def sample_root_def sample_commit_def split: if_splits)
  show "is_commit_dir (dsk (sample_sys sample_root)) sample_commit"
    by (simp add: is_commit_dir_def is_dir_def sample_sys_def sample_root_def list_all_iff)
      (simp add: sample_commit_def is_ascii_hexdigit_def less_eq_char_def)
  show "commitdir_get_results sample_capnp (dsk (sample_sys sample_root)) sample_commit = Some sample_results"
    using parse_written [OF sample_capnp_ok sample_results_ok(1), of sample_commit None] sample_results_ok(2)
    by (simp add: commitdir_get_results_def commit_read_capnp_def read_file_def capnp_name_def sample_sys_def sample_root_def)
qed (simp_all add: read_dir_def is_dir_def sample_sys_def sample_root_def)

text \<open>A verdict is recorded while the disk refuses every write, the disk recovers, and the next verdict brings the
  file up to date.\<close>

definition sample_verdict :: "string \<Rightarrow> TestResultsMap" where
  "sample_verdict k = [(k, \<lparr> status = Failed, starttime = 7, duration = 2 \<rparr>)]"

theorem store_mirrors_disk_witness:
  "\<exists>st D. store_reach sample_capnp (load sample_capnp False (sample_sys sample_root), {}) (st, D) \<and>
     sample_commit \<notin> D \<and> store_get st sample_commit ''t.c'' \<noteq> None \<and> store_get st sample_commit ''t.d'' \<noteq> None \<and>
     map_option rendered (commitdir_get_results sample_capnp (dsk st) sample_commit) =
       map_option rendered (commit_results st sample_commit)"
proof -
  let ?C = sample_capnp
  define st0 where "st0 = load ?C False (sample_sys sample_root)"
  define st1 where "st1 = st0\<lparr>dsk := (dsk st0)\<lparr>fault := \<lambda>_ _. True\<rparr>, clock := 5\<rparr>"
  define st2 where "st2 = update ?C st1 sample_commit (sample_verdict ''t.c'')"
  define st3 where "st3 = st2\<lparr>dsk := (dsk st2)\<lparr>fault := \<lambda>_ _. False\<rparr>, clock := 6\<rparr>"
  define st4 where "st4 = update ?C st3 sample_commit (sample_verdict ''t.d'')"
  have dist: "read_dir (dsk (sample_sys sample_root)) [] = Some names \<Longrightarrow> distinct names" for names
    using sample_root_facts(2) by auto
  have D0: "load_dirty ?C False (sample_sys sample_root) = {}" using sample_root_facts(1) by (simp add: load_dirty_def)
  obtain D1 where "store_step ?C (st0, {}) (st1, D1)" unfolding st1_def by (blast intro: store_step.env)
  moreover obtain D2 where "store_step ?C (st1, D1) (st2, D2)" unfolding st2_def by (blast intro: store_step.upd)
  moreover obtain D3 where "store_step ?C (st2, D2) (st3, D3)" unfolding st3_def by (blast intro: store_step.env)
  ultimately have r3: "store_reach ?C (st0, {}) (st3, D3)" by (blast intro: store_reach.intros)
  have h0: "healthy (dsk st0)"
    using load_spec [OF sample_capnp_ok sample_root_facts(1,2) dist [OF sample_root_facts(2)] HOL.refl] by (simp add: st0_def)
  have "dsk st2 = dsk st1"
    by (simp add: st2_def st1_def update_def sample_verdict_def Let_def results_to_capnp_def create_file_def)
  then have h3: "healthy (dsk st3)"
    using h0 by (auto simp: st3_def st1_def healthy_def no_faults_def is_dir_def)
  then have "fst (results_to_capnp ?C (st3\<lparr>by_commit := m\<rparr>) c None r) = Inr ()" for m c r
    using results_to_capnp_on_healthy [of "st3\<lparr>by_commit := m\<rparr>" ?C c None r] by auto
  then have "store_step ?C (st3, D3) (st4, D3 - {sample_commit})"
    using store_step.upd [of ?C st3 D3 sample_commit "sample_verdict ''t.d''"]
    by (simp add: st4_def after_write_def sample_verdict_def)
  then have "store_reach ?C (st0, {}) (st4, D3 - {sample_commit})" using r3 by (rule store_reach.more [rotated])
  moreover have "map_option rendered (commitdir_get_results ?C (dsk st4) sample_commit) =
      map_option rendered (commit_results st4 sample_commit)"
    using store_mirrors_disk [OF sample_capnp_ok dist, of "sample_sys sample_root" False st3 D3] r3 h3
    by (simp add: D0 st0_def [symmetric] st4_def sample_verdict_def)
  moreover have "store_ok st1"
    using load_inv [OF sample_capnp_ok dist, of "sample_sys sample_root" False]
    by (simp add: store_inv_def store_ok_def st1_def st0_def)
  then have "store_get st2 c k = (if c = sample_commit \<and> k = ''t.c'' then Some (snd (hd (sample_verdict k))) else store_get st1 c k)"
    and ok3: "store_ok st3" for c k
    using store_ok_update by (simp_all add: st2_def st3_def store_get_update sample_verdict_def store_ok_def)
  then have "store_get st4 sample_commit ''t.c'' \<noteq> None" "store_get st4 sample_commit ''t.d'' \<noteq> None"
    by (simp_all add: st4_def store_get_update sample_verdict_def) (simp add: st3_def store_get_def)
  ultimately show ?thesis unfolding st0_def by blast
qed

text \<open>What the loaded store answers.\<close>

lemma load_get:
  assumes "capnp_ok C" and "healthy (dsk s)" and "read_dir (dsk s) [] = Some names" and "distinct names"
  shows "store_get (load C clear s) c k =
      (if is_commit_dir (dsk s) c
       then (case Option.bind (commitdir_get_results C (dsk s) c) (\<lambda>m. bt_get m k) of
               None \<Rightarrow> None
             | Some r \<Rightarrow> if drop_status clear (status r) then None else Some r)
       else None)"
proof -
  note sp = conjunct2 [OF load_spec [OF assms HOL.refl, of clear], unfolded loaded_def, rule_format, of c]
  have kept_get: "bt_get (kept clear m) k =
      (case bt_get m k of None \<Rightarrow> None | Some r \<Rightarrow> if drop_status clear (status r) then None else Some r)"
    if "commitdir_get_results C (dsk s) c = Some m" for m
    using bt_get_filter [of m "\<lambda>(_, r). \<not> drop_status clear (status r)" k] commitdir_get_results_ok [OF that]
    by (simp add: kept_def split: option.splits)
  show ?thesis
  proof (cases "if is_commit_dir (dsk s) c then commitdir_get_results C (dsk s) c else None")
    case None
    then show ?thesis using sp by (auto simp: store_get_def split: if_splits)
  next
    case (Some m)
    then have m: "is_commit_dir (dsk s) c" "commitdir_get_results C (dsk s) c = Some m" by (auto split: if_splits)
    show ?thesis using sp m kept_get [OF m(2)] by (cases "kept clear m = []") (auto simp: store_get_def)
  qed
qed

text \<open>C8: \<open>load\<close> takes into memory exactly the results of the \<open>.capnp\<close> files of the commit directories, without those
  in progress and, on request, those that failed to run; a result it drops is gone from the file as
  well, and so is its directory, while every other subtest directory is untouched. So the dropped
  subtests are looked up as having no result.\<close>

theorem load_correct:
  assumes "capnp_ok C" and "healthy (dsk s)" and "read_dir (dsk s) [] = Some names" and "distinct names"
    and "st = load C clear s"
  shows "store_get st c k =
      (if is_commit_dir (dsk s) c
       then (case Option.bind (commitdir_get_results C (dsk s) c) (\<lambda>m. bt_get m k) of
               None \<Rightarrow> None
             | Some r \<Rightarrow> if drop_status clear (status r) then None else Some r)
       else None) \<and>
    lookup st c k \<noteq> Some Inprogress \<and>
    (is_commit_dir (dsk s) c \<longrightarrow>
       map_option rendered (commitdir_get_results C (dsk st) c) =
       map_option (rendered \<circ> kept clear) (commitdir_get_results C (dsk s) c)) \<and>
    (is_commit_dir (dsk s) c \<longrightarrow>
       node_at (tree (dsk st)) [c, k] =
       (if (\<exists>m. commitdir_get_results C (dsk s) c = Some m \<and> stale_key clear m k) \<and> is_dir (dsk s) [c, k]
        then None else node_at (tree (dsk s)) [c, k]))"
proof -
  note sp = conjunct2 [OF load_spec [OF assms(1-4) HOL.refl, of clear], unfolded loaded_def, rule_format, of c,
      folded assms(5)]
  note get = load_get [OF assms(1-4), of clear c k, folded assms(5)]
  moreover have "lookup st c k \<noteq> Some Inprogress"
    using get by (auto simp: lookup_def store_get_def drop_status_def split: option.splits if_splits)
  moreover have "is_commit_dir (dsk s) c \<longrightarrow> commit_name c" by (simp add: is_commit_dir_iff)
  ultimately show ?thesis
    using sp by (cases "commitdir_get_results C (dsk s) c") (auto split: if_splits)
qed

theorem load_correct_witness:
  "store_get (load sample_capnp False (sample_sys sample_root)) sample_commit ''t.b'' =
     Some \<lparr> status = Passed, starttime = 0, duration = 4 \<rparr> \<and>
   store_get (load sample_capnp False (sample_sys sample_root)) sample_commit ''t.a'' = None \<and>
   node_at (tree (dsk (load sample_capnp False (sample_sys sample_root)))) [sample_commit, ''t.a''] = None"
proof -
  have dist: "distinct [sample_commit, sample_commit @ ''.capnp'']" by simp
  note inst = load_correct [OF sample_capnp_ok sample_root_facts(1,2) dist HOL.refl, of False sample_commit]
  have "bt_get sample_results ''t.a'' = Some \<lparr> status = Inprogress, starttime = 0, duration = 0 \<rparr>"
    and "bt_get sample_results ''t.b'' = Some \<lparr> status = Passed, starttime = 0, duration = 4 \<rparr>"
    by (simp_all add: sample_results_def)
  with inst [of "''t.a''"] inst [of "''t.b''"] sample_root_facts(3-5) show ?thesis
    by (simp add: drop_status_def stale_key_def)
qed

end
