(* ===== verification/Result_Keys.thy ===== *)
theory Result_Keys
  imports Test_Status
begin

text \<open>
  The names of results (\<open>src/lib.rs\<close>): how a test path, a subtest, a kernel and an encoded
  environment make the name of a result directory, and \<open>encode_env\<close>, the wire format of the
  environment, with the parts of \<open>job_env_prefix\<close> (\<open>src/bin/ci-daemon.rs\<close>) that read it back.
\<close>

section \<open>Operations\<close>

definition subtest_full_name :: "string \<Rightarrow> string \<Rightarrow> string" where
  "subtest_full_name test subtest =
     (let test = str_replace ''.ktest'' '''' test;
          test = test @ ''.'' @ subtest
      in str_replace ''/'' ''.'' test)"

definition sanitize_kernel :: "string \<Rightarrow> string" where
  "sanitize_kernel kern = replace_char CHR ''/'' ''_'' kern"

definition test_name_with_kernel :: "string \<Rightarrow> string \<Rightarrow> string" where
  "test_name_with_kernel test kern =
     (let test = str_replace ''.ktest'' '''' test;
          test = str_replace ''/'' ''.'' test
      in if kern = [] then test else test @ ''@'' @ sanitize_kernel kern)"

definition result_basename :: "string \<Rightarrow> string \<Rightarrow> string \<Rightarrow> string" where
  "result_basename test kern env =
     (let base = test_name_with_kernel test kern
      in if env = [] then base else base @ ''@'' @ env)"

definition subtest_result_key :: "string \<Rightarrow> string \<Rightarrow> string \<Rightarrow> string \<Rightarrow> string" where
  "subtest_result_key test subtest kern env =
     result_basename test kern env @ ''.'' @ replace_char CHR ''/'' ''.'' subtest"

datatype env_error = BadKey string | BadValue string

definition bad_env :: "string \<Rightarrow> bool" where
  "bad_env s \<longleftrightarrow>
     CHR '' '' \<in> set s \<or> CHR ''='' \<in> set s \<or> CHR '','' \<in> set s \<or> CHR ''/'' \<in> set s"

fun encode_env_parts :: "(string, string) btree \<Rightarrow> string list \<Rightarrow> env_error + string list" where
  "encode_env_parts [] parts = Inr parts"
| "encode_env_parts ((k, v) # env) parts =
     (if k = [] \<or> bad_env k then Inl (BadKey k)
      else if bad_env v then Inl (BadValue k)
      else encode_env_parts env (parts @ [k @ ''='' @ v]))"

definition encode_env :: "(string, string) btree \<Rightarrow> env_error + string" where
  "encode_env env =
     (case encode_env_parts env [] of Inl e \<Rightarrow> Inl e | Inr parts \<Rightarrow> Inr (join '','' parts))"

text \<open>\<open>job_env_prefix\<close>: the environment assignments in front of the supervisor command.\<close>

fun push_pairs :: "string \<Rightarrow> string list \<Rightarrow> string" where
  "push_pairs prefx [] = prefx"
| "push_pairs prefx (pair # pairs) = push_pairs (prefx @ pair @ '' '') pairs"

definition job_env_prefix :: "string \<Rightarrow> string \<Rightarrow> string" where
  "job_env_prefix env ws =
     push_pairs (''ktest_deps_dir=$HOME/'' @ ws @ '' '')
       (filter (\<lambda>s. s \<noteq> []) (split_on CHR '','' env))"

section \<open>A reader for encoded environments\<close>

text \<open>The reading a shell makes of the pairs: split at \<open>,\<close>, then at the first \<open>=\<close>.\<close>

definition decode_pair :: "string \<Rightarrow> string \<times> string" where
  "decode_pair p = (takeWhile (\<lambda>c. c \<noteq> CHR ''='') p, tl (dropWhile (\<lambda>c. c \<noteq> CHR ''='') p))"

definition decode_env :: "string \<Rightarrow> (string, string) btree" where
  "decode_env s = map decode_pair (filter (\<lambda>s. s \<noteq> []) (split_on CHR '','' s))"

definition env_ok :: "(string, string) btree \<Rightarrow> bool" where
  "env_ok env \<longleftrightarrow> (\<forall>(k, v) \<in> set env. k \<noteq> [] \<and> \<not> bad_env k \<and> \<not> bad_env v)"

definition pair_text :: "string \<times> string \<Rightarrow> string" where
  "pair_text e = fst e @ ''='' @ snd e"

section \<open>Lemmas on names\<close>

lemma test_name_alt:
  "test_name_with_kernel test kern =
     replace_char CHR ''/'' ''.'' (str_replace ''.ktest'' '''' test) @
     (if kern = [] then [] else ''@'' @ sanitize_kernel kern)"
  by (simp add: test_name_with_kernel_def str_replace_single Let_def)

lemma result_basename_alt:
  "result_basename test kern env =
     test_name_with_kernel test kern @ (if env = [] then [] else ''@'' @ env)"
  by (simp add: result_basename_def Let_def)

lemmas key_alt = subtest_result_key_def result_basename_alt test_name_alt

lemma slash_free_replace: "CHR ''/'' \<notin> set (replace_char CHR ''/'' ''.'' s)"
  by (simp add: set_replace_char)

lemma slash_free_sanitize: "CHR ''/'' \<notin> set (sanitize_kernel k)"
  by (simp add: sanitize_kernel_def set_replace_char)

lemma sanitize_kernel_Nil: "sanitize_kernel k = [] \<longleftrightarrow> k = []"
  by (cases k) (simp_all add: sanitize_kernel_def replace_char_def)

lemma sanitize_kernel_inject:
  assumes "CHR ''_'' \<notin> set k" and "CHR ''_'' \<notin> set k'"
  shows "sanitize_kernel k = sanitize_kernel k' \<longleftrightarrow> k = k'"
proof -
  have inv: "replace_char CHR ''_'' ''/'' (sanitize_kernel k) = k" if "CHR ''_'' \<notin> set k" for k
    using that by (induction k) (auto simp: sanitize_kernel_def replace_char_def)
  then show ?thesis using assms by metis
qed

lemma subtest_key_inject:
  "subtest_result_key t s k e = subtest_result_key t s' k e \<longleftrightarrow>
     replace_char CHR ''/'' ''.'' s = replace_char CHR ''/'' ''.'' s'"
  by (simp add: subtest_result_key_def)

section \<open>Lemmas on environments\<close>

lemma encode_env_parts_ok:
  "env_ok env \<Longrightarrow> encode_env_parts env parts = Inr (parts @ map pair_text env)"
  by (induction env parts rule: encode_env_parts.induct) (auto simp: env_ok_def pair_text_def)

lemma encode_env_ok: "env_ok env \<Longrightarrow> encode_env env = Inr (join '','' (map pair_text env))"
  by (simp add: encode_env_def encode_env_parts_ok)

lemma encode_env_parts_err: "\<not> env_ok env \<Longrightarrow> \<exists>e. encode_env_parts env parts = Inl e"
  by (induction env parts rule: encode_env_parts.induct) (auto simp: env_ok_def)

lemma encode_env_iff: "(\<exists>s. encode_env env = Inr s) \<longleftrightarrow> env_ok env"
proof
  assume "\<exists>s. encode_env env = Inr s"
  then show "env_ok env"
    using encode_env_parts_err [of env "[]"] by (force simp: encode_env_def)
qed (simp add: encode_env_ok)

lemma encode_env_Inr: "encode_env env = Inr s \<Longrightarrow> env_ok env \<and> s = join '','' (map pair_text env)"
  using encode_env_iff [of env] encode_env_ok [of env] by auto

lemma decode_pair_text: "CHR ''='' \<notin> set (fst e) \<Longrightarrow> decode_pair (pair_text e) = e"
  by (simp add: decode_pair_def pair_text_def cut_at_sep)

lemma pair_text_comma_free: "env_ok env \<Longrightarrow> e \<in> set env \<Longrightarrow> CHR '','' \<notin> set (pair_text e)"
  by (auto simp: env_ok_def bad_env_def pair_text_def)

lemma pair_text_not_Nil [simp]: "pair_text e \<noteq> []"
  by (simp add: pair_text_def)

lemma split_encoded:
  assumes "env_ok env"
  shows "filter (\<lambda>s. s \<noteq> []) (split_on CHR '','' (join '','' (map pair_text env))) = map pair_text env"
proof (cases "env = []")
  case False
  then have "split_on CHR '','' (join '','' (map pair_text env)) = map pair_text env"
    using assms pair_text_comma_free by (intro split_on_join) auto
  then show ?thesis by (simp add: filter_id_conv)
qed simp

lemma decode_encode:
  assumes "env_ok env"
  shows "decode_env (join '','' (map pair_text env)) = env"
proof -
  have "decode_pair (pair_text e) = e" if "e \<in> set env" for e
    using assms that by (auto simp: env_ok_def bad_env_def intro!: decode_pair_text)
  then show ?thesis
    using assms by (simp add: decode_env_def split_encoded map_idI)
qed

interpretation env_text: text_codec
  "\<lambda>env. join '','' (map pair_text env)" "\<lambda>s. Some (decode_env s)" env_ok
  by unfold_locales (simp add: decode_encode)

lemma push_pairs_eq: "push_pairs p pairs = p @ concat (map (\<lambda>x. x @ '' '') pairs)"
  by (induction p pairs rule: push_pairs.induct) auto

lemma encoded_chars:
  assumes "env_ok env" and "c \<in> set (join '','' (map pair_text env))" and "c \<notin> {CHR '','', CHR ''=''}"
  shows "\<exists>(k, v) \<in> set env. c \<in> set k \<union> set v"
  using assms set_join [of "'',''" "map pair_text env"] by (fastforce simp: pair_text_def)

text \<open>A non-empty encoding starts with its first key and an equals sign.\<close>

lemma encoded_shape:
  assumes "env \<noteq> []"
  shows "\<exists>r. join '','' (map pair_text env) = fst (hd env) @ CHR ''='' # r"
  using assms by (cases env rule: remdups_adj.cases) (auto simp: pair_text_def)

lemma encode_Nil_iff: "env_ok env \<Longrightarrow> join '','' (map pair_text env) = [] \<longleftrightarrow> env = []"
  by (cases env) (auto simp: join_eq_Nil pair_text_def)

text \<open>The qualifier a kernel and an environment add to a test name.\<close>

definition qualifier :: "string \<Rightarrow> string \<Rightarrow> string" where
  "qualifier kern env =
     (if kern = [] then [] else ''@'' @ sanitize_kernel kern) @ (if env = [] then [] else ''@'' @ env)"

lemma result_basename_qualifier:
  "result_basename test kern env =
     replace_char CHR ''/'' ''.'' (str_replace ''.ktest'' '''' test) @ qualifier kern env"
  by (simp add: result_basename_alt test_name_alt qualifier_def)

definition plain_kernel :: "string \<Rightarrow> bool" where
  "plain_kernel k \<longleftrightarrow> CHR ''@'' \<notin> set k \<and> CHR ''='' \<notin> set k"

lemma plain_sanitize: "plain_kernel k \<Longrightarrow> plain_kernel (sanitize_kernel k)"
  by (auto simp: plain_kernel_def sanitize_kernel_def set_replace_char)

lemma sanitize_Nil [simp]: "sanitize_kernel k = [] \<longleftrightarrow> k = []"
  by (cases k) (auto simp: sanitize_kernel_def)

text \<open>An encoded environment is neither a kernel nor a kernel followed by another environment.\<close>

lemma plain_neq_encoded:
  assumes "plain_kernel k" and "env \<noteq> []"
  shows "k \<noteq> join '','' (map pair_text env)"
  using assms encoded_shape [OF assms(2)] by (auto simp: plain_kernel_def)

lemma plain_at_neq_encoded:
  assumes "plain_kernel k" and "env \<noteq> []" and "CHR ''@'' \<notin> set (fst (hd env))"
  shows "k @ CHR ''@'' # e \<noteq> join '','' (map pair_text env)"
proof
  assume eq: "k @ CHR ''@'' # e = join '','' (map pair_text env)"
  obtain r where "join '','' (map pair_text env) = fst (hd env) @ CHR ''='' # r"
    using encoded_shape [OF assms(2)] by blast
  with eq have "k @ CHR ''@'' # e = fst (hd env) @ CHR ''='' # r" by simp
  then show False
    using assms(1,3) sep_mismatch [of "CHR ''@''" "CHR ''=''" k "fst (hd env)"]
    by (auto simp: plain_kernel_def)
qed

lemma qualifier_inject:
  assumes "plain_kernel k" and "plain_kernel k'"
    and e: "env_ok e" "e \<noteq> [] \<longrightarrow> CHR ''@'' \<notin> set (fst (hd e))"
    and e': "env_ok e'" "e' \<noteq> [] \<longrightarrow> CHR ''@'' \<notin> set (fst (hd e'))"
    and eq: "qualifier k (join '','' (map pair_text e)) = qualifier k' (join '','' (map pair_text e'))"
  shows "sanitize_kernel k = sanitize_kernel k' \<and> e = e'"
proof -
  note s = plain_sanitize [OF assms(1)] plain_sanitize [OF assms(2)]
  have at: "CHR ''@'' \<notin> set (sanitize_kernel k)" "CHR ''@'' \<notin> set (sanitize_kernel k')"
    using s by (auto simp: plain_kernel_def)
  show ?thesis
    using eq e e' at plain_neq_encoded [OF s(1), of e'] plain_neq_encoded [OF s(2), of e]
      plain_at_neq_encoded [OF s(1), of e'] plain_at_neq_encoded [OF s(2), of e]
      env_text.enc_inject [OF e(1) e'(1)] sep_not_free [OF at(1)] sep_not_free [OF at(2)]
    by (auto simp: qualifier_def encode_Nil_iff append_sep_inject split: if_splits)
qed

section \<open>Properties\<close>

text \<open>With no kernel and no environment, \<open>subtest_result_key\<close> is \<open>subtest_full_name\<close>, so the result
  directories written before kernels and environments existed keep their names.\<close>

theorem key_legacy: "subtest_result_key test subtest [] [] = subtest_full_name test subtest"
  by (simp add: key_alt subtest_full_name_def str_replace_single Let_def)

text \<open>Whatever the test path, the subtest and the kernel, the result key of an encoded environment
  has no \<open>/\<close>: it names one directory directly below the commit's directory.\<close>

theorem key_single_component:
  assumes "encode_env env = Inr e"
  shows "CHR ''/'' \<notin> set (subtest_result_key test subtest kern e)"
proof -
  have "CHR ''/'' \<notin> set e"
    using encode_env_Inr [OF assms] encoded_chars [of env "CHR ''/''"]
    by (fastforce simp: env_ok_def bad_env_def)
  then show ?thesis
    using slash_free_replace slash_free_sanitize by (auto simp: key_alt split: if_splits)
qed

theorem key_single_component_witness:
  "encode_env [(''BAR'', ''x''), (''FOO'', ''1'')] = Inr ''BAR=x,FOO=1'' \<and>
   CHR ''/'' \<notin> set (subtest_result_key ''fs/ec.ktest'' ''generic/001'' ''debian/forky'' ''BAR=x,FOO=1'')"
proof -
  have "encode_env [(''BAR'', ''x''), (''FOO'', ''1'')] = Inr ''BAR=x,FOO=1''"
    by (simp add: encode_env_def bad_env_def)
  with key_single_component [OF this] show ?thesis by blast
qed

text \<open>C23: Which runs of one subtest share a result key. For kernels without \<open>@\<close> and \<open>=\<close>, and environments that can be
  encoded and have no \<open>@\<close> in a variable's name, two runs have the same key exactly when their environments are
  equal and their kernels are equal once \<open>/\<close> is flattened to \<open>_\<close>. So the kernels \<open>a/b\<close> and \<open>a_b\<close> share a key, and
  kernels without \<open>_\<close> do so only when they are equal.\<close>

theorem key_distinguishes_variants:
  assumes "plain_kernel k" and "plain_kernel k'"
    and "encode_env m = Inr e" and "encode_env m' = Inr e'"
    and "\<forall>(n, v) \<in> set m. CHR ''@'' \<notin> set n" and "\<forall>(n, v) \<in> set m'. CHR ''@'' \<notin> set n"
  shows "(subtest_result_key test subtest k e = subtest_result_key test subtest k' e' \<longleftrightarrow>
      m = m' \<and> sanitize_kernel k = sanitize_kernel k') \<and>
    (CHR ''_'' \<notin> set k \<and> CHR ''_'' \<notin> set k' \<longrightarrow>
      (subtest_result_key test subtest k e = subtest_result_key test subtest k' e' \<longleftrightarrow> m = m' \<and> k = k'))"
proof -
  have "e = join '','' (map pair_text m)" and "e' = join '','' (map pair_text m')"
    and m: "env_ok m" "env_ok m'"
    using assms(3,4) encode_env_Inr by blast+
  moreover have "m \<noteq> [] \<longrightarrow> CHR ''@'' \<notin> set (fst (hd m))" and "m' \<noteq> [] \<longrightarrow> CHR ''@'' \<notin> set (fst (hd m'))"
    using assms(5,6) by (cases m; cases m'; auto)+
  ultimately have "m = m' \<and> sanitize_kernel k = sanitize_kernel k'" if "qualifier k e = qualifier k' e'"
    using qualifier_inject [OF assms(1,2) m(1) _ m(2)] that by simp
  moreover have "qualifier k e = qualifier k' e'"
    if "subtest_result_key test subtest k e = subtest_result_key test subtest k' e'"
    using that by (simp add: subtest_result_key_def result_basename_qualifier)
  moreover have "subtest_result_key test subtest k e = subtest_result_key test subtest k' e'"
    if "m = m'" "sanitize_kernel k = sanitize_kernel k'"
    using that assms(3,4) sanitize_kernel_Nil [of k] sanitize_kernel_Nil [of k'] by (auto simp: key_alt)
  ultimately have "subtest_result_key test subtest k e = subtest_result_key test subtest k' e' \<longleftrightarrow>
      m = m' \<and> sanitize_kernel k = sanitize_kernel k'"
    by blast
  then show ?thesis using sanitize_kernel_inject [of k k'] by blast
qed

theorem key_distinguishes_variants_witness:
  "subtest_result_key ''ec.ktest'' ''ec'' ''stable-kasan'' ''X=1'' \<noteq>
      subtest_result_key ''ec.ktest'' ''ec'' ''stable-kasan'' ''X=2''"
proof -
  have k: "plain_kernel ''stable-kasan''" by (simp add: plain_kernel_def)
  have "encode_env [(''X'', ''1'')] = Inr ''X=1''" and "encode_env [(''X'', ''2'')] = Inr ''X=2''"
    by (simp_all add: encode_env_def bad_env_def)
  from key_distinguishes_variants [OF k k this, of "''ec.ktest''" "''ec''"] show ?thesis by simp
qed

text \<open>C32: \<open>encode_env\<close> succeeds exactly on the environments whose names are non-empty and whose names and
  values have no space, \<open>=\<close>, \<open>,\<close> or \<open>/\<close>; the encoding can be read back, so it is injective there; and
  \<open>job_env_prefix\<close> turns it into one \<open>K=V\<close> word per variable, in order, after \<open>ktest_deps_dir\<close>.\<close>

theorem encode_env_correct:
  "(case encode_env env of
      Inl _ \<Rightarrow> \<not> env_ok env
    | Inr s \<Rightarrow> env_ok env \<and> decode_env s = env \<and>
        job_env_prefix s ws =
          ''ktest_deps_dir=$HOME/'' @ ws @ '' '' @ concat (map (\<lambda>(k, v). k @ ''='' @ v @ '' '') env))"
proof (cases "encode_env env")
  case (Inl err)
  then show ?thesis using encode_env_iff [of env] by auto
next
  case (Inr s)
  then have ok: "env_ok env" and s: "s = join '','' (map pair_text env)"
    using encode_env_Inr by blast+
  have "concat (map ((\<lambda>x. x @ '' '') \<circ> pair_text) env) = concat (map (\<lambda>(k, v). k @ ''='' @ v @ '' '') env)"
    by (simp add: pair_text_def comp_def case_prod_unfold)
  then have "job_env_prefix s ws =
      ''ktest_deps_dir=$HOME/'' @ ws @ '' '' @ concat (map (\<lambda>(k, v). k @ ''='' @ v @ '' '') env)"
    using split_encoded [OF ok] by (simp add: job_env_prefix_def push_pairs_eq s)
  then show ?thesis
    using Inr ok decode_encode [OF ok] by (simp add: s)
qed

end
