(* ===== verification/Durations.thy ===== *)
theory Durations
  imports Results_Store Result_Keys
begin

text \<open>
  Historical durations: \<open>src/bin/gen-avg-duration.rs\<close>, which sums the results of all commits and
  writes the averages to \<open>test_durations.capnp\<close>, and \<open>test_stats\<close> (\<open>src/lib.rs\<close>), the binary search
  over that file which the job matrix makes for every subtest. The messages follow
  \<open>src/durations.capnp\<close>; their serialisation is the parameter \<open>D\<close>. The text of an entry that was
  read can be damaged, which is \<open>None\<close> (that it may not be UTF-8, a panic, is left out). Unwrapping an error and
  dividing by zero are panics.
\<close>

section \<open>Data\<close>

record TestDuration =
  secs :: u64
  td_nr :: u64
  nr_passed :: u64
  nr_failed :: u64

type_synonym TestDurationMap = "(string, TestDuration) btree"

record duration_msg =
  dm_test :: "string option"
  dm_nr :: u64
  dm_passed :: u64
  dm_failed :: u64
  dm_duration :: u64

record durations_capnp =
  write_durations :: "duration_msg list \<Rightarrow> bytes"
  read_durations :: "bytes \<Rightarrow> duration_msg list option"

definition durations_ok :: "durations_capnp \<Rightarrow> bool" where
  "durations_ok D \<longleftrightarrow> (\<forall>es. read_durations D (write_durations D es) = Some es)"

record TestStats =
  st_nr :: u64
  st_passed :: u64
  st_failed :: u64
  st_duration :: u64

section \<open>Summing and writing\<close>

definition default_duration :: TestDuration where
  "default_duration = \<lparr> secs = 0, td_nr = 0, nr_passed = 0, nr_failed = 0 \<rparr>"

definition bool_u64 :: "bool \<Rightarrow> u64" where
  "bool_u64 b = (if b then 1 else 0)"

definition add_result :: "string \<times> TestResult \<Rightarrow> TestDurationMap \<Rightarrow> TestDurationMap" where
  "add_result e durations =
     (let (test, result) = e;
          t = unwrap_or (bt_get durations test) default_duration
      in bt_insert durations test
           \<lparr> secs = secs t + duration result,
             td_nr = td_nr t + 1,
             nr_passed = nr_passed t + bool_u64 (status result = Passed),
             nr_failed = nr_failed t + bool_u64 (status result = Failed) \<rparr>)"

definition read_duration_sums :: "capnp \<Rightarrow> disk \<Rightarrow> TestDurationMap" where
  "read_duration_sums C d =
     (case read_dir d [] of
        None \<Rightarrow> bt_empty
      | Some names \<Rightarrow>
          fold (fold add_result)
            (List.map_filter (commitdir_get_results C d) (filter (\<lambda>e. is_dir d [e]) names)) bt_empty)"

fun duration_entries :: "TestDurationMap \<Rightarrow> duration_msg list option" where
  "duration_entries [] = Some []"
| "duration_entries ((name, duration_in) # durations_in) =
     (if td_nr duration_in = 0 then None
      else map_option ((#) \<lparr> dm_test = Some name, dm_nr = td_nr duration_in, dm_passed = nr_passed duration_in,
                             dm_failed = nr_failed duration_in,
                             dm_duration = secs duration_in div td_nr duration_in \<rparr>)
             (duration_entries durations_in))"

definition durations_name :: path where
  "durations_name = [''test_durations.capnp'']"

text \<open>\<open>None\<close> is a panic.\<close>

definition write_durations_capnp :: "durations_capnp \<Rightarrow> sys \<Rightarrow> TestDurationMap \<Rightarrow> unit option \<times> sys" where
  "write_durations_capnp D s durations_in =
     (case duration_entries durations_in of
        None \<Rightarrow> (None, s)
      | Some es \<Rightarrow>
          (let fname = durations_name;
               fname_new = [''test_durations.capnp.new'']
           in case create_file (dsk s) (clock s) fname_new of
                None \<Rightarrow> (None, s)
              | Some d \<Rightarrow>
                  (case fill_file d (clock s) fname_new (write_durations D es) of
                     (False, d) \<Rightarrow> (None, s\<lparr>dsk := d\<rparr>)
                   | (True, d) \<Rightarrow>
                       (case rename_file d fname_new fname of
                          (False, d) \<Rightarrow> (None, s\<lparr>dsk := d\<rparr>)
                        | (True, d) \<Rightarrow> (Some (), s\<lparr>dsk := d\<rparr>)))))"

definition gen_avg_duration :: "capnp \<Rightarrow> durations_capnp \<Rightarrow> sys \<Rightarrow> unit option \<times> sys" where
  "gen_avg_duration C D s = write_durations_capnp D s (read_duration_sums C (dsk s))"

section \<open>Looking up\<close>

function search_stats :: "duration_msg list \<Rightarrow> string \<Rightarrow> nat \<Rightarrow> nat \<Rightarrow> TestStats option" where
  "search_stats d full_test l r =
     (if l < r then
        (let m = l + (r - l) div 2; d_m = d ! m
         in case dm_test d_m of
              None \<Rightarrow> None
            | Some d_m_test \<Rightarrow>
                if full_test < d_m_test then search_stats d full_test l m
                else if d_m_test < full_test then search_stats d full_test (m + 1) r
                else Some \<lparr> st_nr = dm_nr d_m, st_passed = dm_passed d_m, st_failed = dm_failed d_m,
                            st_duration = dm_duration d_m \<rparr>)
      else None)"
  by pat_completeness auto
termination
  by (relation "measure (\<lambda>(d, t, l, r). r - l)") auto

declare search_stats.simps [simp del]

definition test_stats ::
  "durations_capnp \<Rightarrow> bytes option \<Rightarrow> string \<Rightarrow> string \<Rightarrow> string \<Rightarrow> string \<Rightarrow> TestStats option" where
  "test_stats D durations test subtest kern env =
     (case durations of
        None \<Rightarrow> None
      | Some d \<Rightarrow>
          (case read_durations D d of
             None \<Rightarrow> None
           | Some d \<Rightarrow> search_stats d (subtest_result_key test subtest kern env) 0 (length d)))"

section \<open>Binary search\<close>

text \<open>What the search looks for: the entry of that name.\<close>

definition entry_stats :: "duration_msg \<Rightarrow> TestStats" where
  "entry_stats e = \<lparr> st_nr = dm_nr e, st_passed = dm_passed e, st_failed = dm_failed e, st_duration = dm_duration e \<rparr>"

definition names_ascending :: "duration_msg list \<Rightarrow> bool" where
  "names_ascending d \<longleftrightarrow> (\<forall>e \<in> set d. dm_test e \<noteq> None) \<and> sorted_wrt (<) (map (the \<circ> dm_test) d)"

lemma ascending_nth:
  assumes "names_ascending d" and "i < length d" and "dm_test (d ! i) = Some a"
    and "j < length d" and "dm_test (d ! j) = Some b"
  shows "a < b \<longleftrightarrow> i < j" and "a = b \<longleftrightarrow> i = j"
proof -
  have s: "i' < j' \<Longrightarrow> j' < length d \<Longrightarrow> the (dm_test (d ! i')) < the (dm_test (d ! j'))" for i' j'
    using assms(1) sorted_wrt_nth_less [of "(<)" "map (the \<circ> dm_test) d" i' j'] by (simp add: names_ascending_def)
  show "a < b \<longleftrightarrow> i < j" and "a = b \<longleftrightarrow> i = j"
    using s [of i j] s [of j i] assms(2-5) by (cases i j rule: linorder_cases; force)+
qed

lemma search_stats_correct:
  "names_ascending d \<Longrightarrow> r \<le> length d \<Longrightarrow>
     search_stats d t l r = Some x \<longleftrightarrow> (\<exists>i. l \<le> i \<and> i < r \<and> dm_test (d ! i) = Some t \<and> x = entry_stats (d ! i))"
proof (induction d t l r rule: search_stats.induct)
  case (1 d t l r)
  show ?case
  proof (cases "l < r")
    case False
    then show ?thesis by (simp add: search_stats.simps)
  next
    case True
    define m where "m = l + (r - l) div 2"
    have m: "l \<le> m" "m < r" using True by (auto simp: m_def)
    with "1.prems" have ml: "m < length d" by simp
    then obtain b where b: "dm_test (d ! m) = Some b"
      using "1.prems"(1) by (force simp: names_ascending_def)
    have pos: "t < b \<longleftrightarrow> i < m" "t = b \<longleftrightarrow> i = m" if "i < r" "dm_test (d ! i) = Some t" for i
      using ascending_nth [OF "1.prems"(1) _ that(2) ml b] that(1) "1.prems"(2) by auto
    have step: "search_stats d t l r =
        (if t < b then search_stats d t l m else if b < t then search_stats d t (m + 1) r
         else Some (entry_stats (d ! m)))"
      using True b by (subst search_stats.simps) (simp add: m_def Let_def entry_stats_def)
    note IH = "1.IH" [OF True m_def HOL.refl b]
    consider "t < b" | "b < t" | "t = b" by fastforce
    then show ?thesis
    proof cases
      case 1
      have "(l \<le> i \<and> i < r \<and> dm_test (d ! i) = Some t \<and> x = entry_stats (d ! i)) \<longleftrightarrow> (l \<le> i \<and> i < m \<and> dm_test (d ! i) = Some t \<and> x = entry_stats (d ! i))" for i
        using pos(1) [of i] m 1 by auto
      then show ?thesis using step 1 IH(1) [OF 1 "1.prems"(1)] ml by simp
    next
      case 2
      then have nb: "\<not> t < b" "t \<noteq> b" by auto
      have "(l \<le> i \<and> i < r \<and> dm_test (d ! i) = Some t \<and> x = entry_stats (d ! i)) \<longleftrightarrow> (m + 1 \<le> i \<and> i < r \<and> dm_test (d ! i) = Some t \<and> x = entry_stats (d ! i))" for i
        using pos [of i] m nb by (cases i m rule: linorder_cases) auto
      then show ?thesis using step 2 nb IH(2) [OF nb(1) 2 "1.prems"] by simp
    next
      case 3
      have "(l \<le> i \<and> i < r \<and> dm_test (d ! i) = Some t \<and> x = entry_stats (d ! i)) \<longleftrightarrow>
          (i = m \<and> x = entry_stats (d ! m))" for i
        using pos(2) [of i] m b 3 by blast
      moreover have "search_stats d t l r = Some (entry_stats (d ! m))" using step 3 by simp
      ultimately show ?thesis by auto
    qed
  qed
qed

section \<open>Sums\<close>

text \<open>The results recorded for a test, over all commit directories.\<close>

definition recorded :: "capnp \<Rightarrow> disk \<Rightarrow> string \<Rightarrow> TestResult list" where
  "recorded C d t =
     (case read_dir d [] of
        None \<Rightarrow> []
      | Some names \<Rightarrow>
          List.map_filter (\<lambda>m. bt_get m t)
            (List.map_filter (commitdir_get_results C d) (filter (\<lambda>e. is_dir d [e]) names)))"

definition tally :: "TestResult list \<Rightarrow> TestDuration" where
  "tally rs = \<lparr> secs = sum_list (map duration rs), td_nr = of_nat (length rs),
     nr_passed = of_nat (length (filter (\<lambda>r. status r = Passed) rs)),
     nr_failed = of_nat (length (filter (\<lambda>r. status r = Failed) rs)) \<rparr>"

definition tallied :: "TestResult list \<Rightarrow> TestDuration option" where
  "tallied rs = (if rs = [] then None else Some (tally rs))"

lemma tally_snoc:
  "tallied (rs @ [r]) =
     (let t = unwrap_or (tallied rs) default_duration
      in Some \<lparr> secs = secs t + duration r, td_nr = td_nr t + 1,
                nr_passed = nr_passed t + bool_u64 (status r = Passed),
                nr_failed = nr_failed t + bool_u64 (status r = Failed) \<rparr>)"
  by (auto simp: tallied_def tally_def default_duration_def bool_u64_def)

text \<open>\<open>f\<close> lists the results already counted for each test.\<close>

lemma add_results:
  assumes "bt_ok m" and "bt_ok acc" and "\<And>t. bt_get acc t = tallied (f t)"
  shows "bt_ok (fold add_result m acc) \<and>
    (\<forall>t. bt_get (fold add_result m acc) t = tallied (f t @ (case bt_get m t of None \<Rightarrow> [] | Some r \<Rightarrow> [r])))"
  using assms
proof (induction m arbitrary: acc f)
  case (Cons e m)
  obtain n r where e: "e = (n, r)" by fastforce
  have acc': "bt_get (add_result e acc) t = tallied (f t @ (if t = n then [r] else []))" for t
    using Cons.prems(2,3) by (simp add: add_result_def e bt_get_insert tally_snoc Let_def)
  have ok': "bt_ok (add_result e acc)" and m: "bt_ok m" and n: "bt_get m n = None"
    using Cons.prems(1,2) bt_ok_insert [of acc]
    by (simp_all add: add_result_def e Let_def) (auto simp: bt_ok_def map_of_eq_None_iff)
  from Cons.IH [OF m ok' acc'] n show ?case by (auto simp: e)
qed simp

lemma add_all_results:
  assumes "\<forall>m \<in> set ms. bt_ok m" and "bt_ok acc" and "\<And>t. bt_get acc t = tallied (f t)"
  shows "bt_ok (fold (fold add_result) ms acc) \<and>
    (\<forall>t. bt_get (fold (fold add_result) ms acc) t = tallied (f t @ List.map_filter (\<lambda>m. bt_get m t) ms))"
  using assms
proof (induction ms arbitrary: acc f)
  case (Cons m ms)
  note one = add_results [OF _ Cons.prems(2,3), of m]
  show ?case
    using Cons.IH [of "fold add_result m acc" "\<lambda>t. f t @ (case bt_get m t of None \<Rightarrow> [] | Some r \<Rightarrow> [r])"]
      one Cons.prems(1) by (auto simp: map_filter_simps split: option.splits)
qed (simp add: map_filter_simps)

lemma read_duration_sums_get:
  "bt_ok (read_duration_sums C d) \<and> bt_get (read_duration_sums C d) t = tallied (recorded C d t)"
proof (cases "read_dir d []")
  case (Some names)
  have "\<forall>m \<in> set (List.map_filter (commitdir_get_results C d) (filter (\<lambda>e. is_dir d [e]) names)). bt_ok m"
    by (auto simp: List.map_filter_def dest: commitdir_get_results_ok)
  from add_all_results [OF this, of bt_empty "\<lambda>_. []"] Some
  show ?thesis by (simp add: read_duration_sums_def recorded_def tallied_def)
qed (simp add: read_duration_sums_def recorded_def tallied_def)

section \<open>The written file\<close>

definition duration_entry :: "string \<times> TestDuration \<Rightarrow> duration_msg" where
  "duration_entry e = \<lparr> dm_test = Some (fst e), dm_nr = td_nr (snd e), dm_passed = nr_passed (snd e),
     dm_failed = nr_failed (snd e), dm_duration = secs (snd e) div td_nr (snd e) \<rparr>"

lemma duration_entries_eq:
  "duration_entries m = (if \<exists>e \<in> set m. td_nr (snd e) = 0 then None else Some (map duration_entry m))"
  by (induction m rule: duration_entries.induct) (auto simp: duration_entry_def)

lemma search_written:
  assumes "bt_ok m"
  shows "search_stats (map duration_entry m) t 0 (length m) = map_option (\<lambda>x. entry_stats (duration_entry (t, x))) (bt_get m t)"
proof -
  have asc: "names_ascending (map duration_entry m)"
    using assms by (simp add: names_ascending_def bt_ok_def duration_entry_def comp_def sorted_wrt_map)
  have mem: "bt_get m t = Some x \<longleftrightarrow> (\<exists>i < length m. m ! i = (t, x))" for x
    using bt.set_entries [OF assms] by (auto simp: in_set_conv_nth set_eq_iff)
  have iff: "search_stats (map duration_entry m) t 0 (length m) = Some y \<longleftrightarrow>
      (\<exists>x. bt_get m t = Some x \<and> y = entry_stats (duration_entry (t, x)))" for y
    unfolding search_stats_correct [OF asc, of "length m", simplified] mem
    by (auto simp: duration_entry_def) (metis prod.collapse)+
  show ?thesis
  proof (cases "bt_get m t")
    case None
    with iff have "search_stats (map duration_entry m) t 0 (length m) \<noteq> Some y" for y by simp
    then have "search_stats (map duration_entry m) t 0 (length m) = None" by (metis not_Some_eq)
    then show ?thesis using None by simp
  next
    case (Some x)
    with iff [of "entry_stats (duration_entry (t, x))"] show ?thesis by simp
  qed
qed

lemma write_durations_file:
  assumes "write_durations_capnp D s m = (Some (), s')"
  shows "read_file (dsk s') durations_name = Some (write_durations D (map duration_entry m), clock s)"
  using assms
  by (auto simp: write_durations_capnp_def duration_entries_eq Let_def read_file_def fill_file_at
      dest!: rename_file_at split: option.splits prod.splits bool.splits if_splits)

lemma write_durations_healthy:
  assumes "healthy (dsk s)" and "\<forall>e \<in> set m. td_nr (snd e) \<noteq> 0"
  shows "\<exists>s'. write_durations_capnp D s m = (Some (), s')"
proof -
  let ?b = "write_durations D (map duration_entry m)"
  have "\<not> is_dir (dsk s) [''test_durations.capnp'']" and "\<not> is_dir (dsk s) [''test_durations.capnp.new'']"
    using assms(1) by (auto simp: healthy_def)
  then obtain d1 d2 d3 where "create_file (dsk s) (clock s) [''test_durations.capnp.new''] = Some d1"
    and "fill_file d1 (clock s) [''test_durations.capnp.new''] ?b = (True, d2)"
    and "rename_file d2 [''test_durations.capnp.new''] durations_name = (True, d3)"
    using replace_top [of "dsk s" "''test_durations.capnp''" "''test_durations.capnp.new''" "clock s" ?b] assms(1)
    by (auto simp: healthy_def durations_name_def)
  then show ?thesis
    using assms(2) by (simp add: write_durations_capnp_def duration_entries_eq Let_def)
qed

lemma sums_nonzero:
  assumes "\<And>t. length (recorded C d t) < 2 ^ 64" and "e \<in> set (read_duration_sums C d)"
  shows "td_nr (snd e) \<noteq> 0"
proof -
  have "bt_get (read_duration_sums C d) (fst e) = Some (snd e)"
    using bt.set_entries [of "read_duration_sums C d"] read_duration_sums_get [of C d] assms(2) by (cases e) auto
  then have "tallied (recorded C d (fst e)) = Some (snd e)" using read_duration_sums_get [of C d] by simp
  then have e: "snd e = tally (recorded C d (fst e))" and ne: "recorded C d (fst e) \<noteq> []"
    by (simp_all add: tallied_def split: if_splits)
  have "\<not> 2 ^ 64 dvd length (recorded C d (fst e))"
    using assms(1) [of "fst e"] ne by (intro nat_dvd_not_less) auto
  then show ?thesis unfolding e by (simp add: tally_def word_of_nat_eq_0_iff)
qed

section \<open>Properties\<close>

text \<open>C11: \<open>gen-avg-duration\<close> and \<open>test_stats\<close> agree. On a disk that refuses nothing, with fewer than \<open>2 ^ 64\<close>
  results per test, the program does not panic; and after it, looking up any subtest, kernel and environment in the
  file it wrote finds an entry exactly when some commit has a result under that key, and the entry
  holds the number of those results, how many passed, how many failed, and the sum of their durations
  divided by their number.\<close>

theorem gen_avg_duration_lookup:
  assumes "durations_ok D" and "healthy (dsk s)" and "\<forall>t. length (recorded C (dsk s) t) < 2 ^ 64"
    and "rs = recorded C (dsk s) (subtest_result_key test subtest kern en)"
  shows "\<exists>s'. gen_avg_duration C D s = (Some (), s') \<and>
    test_stats D (map_option fst (read_file (dsk s') durations_name)) test subtest kern en =
      (if rs = [] then None
       else Some \<lparr> st_nr = of_nat (length rs),
                   st_passed = of_nat (length (filter (\<lambda>r. status r = Passed) rs)),
                   st_failed = of_nat (length (filter (\<lambda>r. status r = Failed) rs)),
                   st_duration = sum_list (map duration rs) div of_nat (length rs) \<rparr>)"
proof -
  let ?m = "read_duration_sums C (dsk s)"
  have "\<forall>e \<in> set ?m. td_nr (snd e) \<noteq> 0" using sums_nonzero assms(3) by blast
  from write_durations_healthy [OF assms(2) this, of D] obtain s' where
    s': "write_durations_capnp D s ?m = (Some (), s')" by blast
  have "test_stats D (map_option fst (read_file (dsk s') durations_name)) test subtest kern en =
      search_stats (map duration_entry ?m) (subtest_result_key test subtest kern en) 0 (length ?m)"
    using assms(1) write_durations_file [OF s'] by (simp add: test_stats_def durations_ok_def)
  also have "\<dots> = map_option (\<lambda>x. entry_stats (duration_entry (subtest_result_key test subtest kern en, x))) (tallied rs)"
    unfolding assms(4) using search_written [of ?m] read_duration_sums_get [of C "dsk s"] by simp
  finally have "test_stats D (map_option fst (read_file (dsk s') durations_name)) test subtest kern en =
      map_option (\<lambda>x. entry_stats (duration_entry (subtest_result_key test subtest kern en, x))) (tallied rs)" .
  then show ?thesis
    using s' by (simp add: gen_avg_duration_def tallied_def entry_stats_def duration_entry_def tally_def)
qed

text \<open>A serialisation of durations, on the strings of the sample serialisation of results.\<close>

fun put_duration :: "duration_msg \<Rightarrow> string list" where
  "put_duration e =
     [unwrap_or (dm_test e) [], (if dm_test e = None then ''n'' else ''s''), show_nat (unat (dm_nr e)),
      show_nat (unat (dm_passed e)), show_nat (unat (dm_failed e)), show_nat (unat (dm_duration e))]"

fun get_durations :: "string list \<Rightarrow> duration_msg list option" where
  "get_durations [] = Some []"
| "get_durations (t # k # a # b # c # d # rest) =
     map_option ((#) \<lparr> dm_test = (if k = ''n'' then None else Some t), dm_nr = unwrap_or (parse_u64 a) 0,
                       dm_passed = unwrap_or (parse_u64 b) 0, dm_failed = unwrap_or (parse_u64 c) 0,
                       dm_duration = unwrap_or (parse_u64 d) 0 \<rparr>)
       (get_durations rest)"
| "get_durations _ = None"

definition sample_durations :: durations_capnp where
  "sample_durations =
     \<lparr> write_durations = (\<lambda>es. concat (map put_str (concat (map put_duration es)))),
       read_durations = (\<lambda>b. Option.bind (get_strs [] b) get_durations) \<rparr>"

lemma get_durations_put: "get_durations (concat (map put_duration es)) = Some es"
  by (induction es) (auto simp: decimal_u64.dec_enc)

lemma sample_durations_ok: "durations_ok sample_durations"
  unfolding durations_ok_def sample_durations_def durations_capnp.simps get_strs_puts
  by (simp add: get_durations_put)

lemma sample_recorded:
  "recorded sample_capnp (dsk (sample_sys sample_root)) t =
     (case bt_get sample_results t of None \<Rightarrow> [] | Some r \<Rightarrow> [r])"
proof -
  have "is_dir (dsk (sample_sys sample_root)) [sample_commit]"
    and "\<not> is_dir (dsk (sample_sys sample_root)) [sample_commit @ ''.capnp'']"
    using sample_root_facts(3) dotted_not_dir(1) [OF sample_root_facts(1), of sample_commit]
    by (simp_all add: is_commit_dir_iff capnp_name_def)
  then show ?thesis
    using sample_root_facts(2,4) by (simp add: recorded_def map_filter_simps split: option.splits)
qed

theorem gen_avg_duration_lookup_witness:
  "\<exists>s'. gen_avg_duration sample_capnp sample_durations (sample_sys sample_root) = (Some (), s') \<and>
     test_stats sample_durations (map_option fst (read_file (dsk s') durations_name)) ''t.ktest'' ''b'' '''' '''' =
       Some \<lparr> st_nr = 1, st_passed = 1, st_failed = 0, st_duration = 4 \<rparr>"
proof -
  have key: "subtest_result_key ''t.ktest'' ''b'' '''' '''' = ''t.b''"
    by (simp add: key_alt)
  have small: "\<forall>t. length (recorded sample_capnp (dsk (sample_sys sample_root)) t) < 2 ^ 64"
    by (auto simp: sample_recorded split: option.splits)
  have "recorded sample_capnp (dsk (sample_sys sample_root)) ''t.b'' =
      [\<lparr> status = Passed, starttime = 0, duration = 4 \<rparr>]"
    by (simp add: sample_recorded sample_results_def)
  with gen_avg_duration_lookup [OF sample_durations_ok sample_root_facts(1) small HOL.refl, of "''t.ktest''" "''b''" "''''" "''''"] key
  show ?thesis by simp
qed

end
