(* ===== verification/Ktestrc.thy ===== *)
theory Ktestrc
  imports Rust_BTreeMap
begin

text \<open>
  The server configuration (\<open>Ktestrc\<close> and its \<open>impl\<close> in \<open>src/lib.rs\<close>): the repositories by short
  name, the executors, and the lookups the other components make in them.
\<close>

section \<open>Data\<close>

record ExecutorHost =
  slots :: u32

record RepoConfig =
  rpath :: string
  url :: string
  path_url :: string

record Ktestrc =
  linux_repo :: string
  output_dir :: string
  ktest_dir :: string
  ktest_url :: "string option"
  repos :: "(string, RepoConfig) btree"
  ci_url :: "string option"
  ci_remote :: "string option"
  ci_host :: "string option"
  users_dir :: "string option"
  subtest_duration_max :: "u64 option"
  subtest_duration_def :: "u64 option"
  keep_results_commits :: "u64 option"
  verbose :: bool
  user_nice :: "(string, i64) btree"
  executors :: "(string, ExecutorHost) btree"

section \<open>Operations\<close>

definition repo_path :: "Ktestrc \<Rightarrow> string \<Rightarrow> string option" where
  "repo_path rc name =
     (case bt_get (repos rc) name of
        Some r \<Rightarrow> Some (rpath r)
      | None \<Rightarrow> if name = ''linux'' then Some (linux_repo rc) else None)"

definition repo_url :: "Ktestrc \<Rightarrow> string \<Rightarrow> string option" where
  "repo_url rc name = map_option url (bt_get (repos rc) name)"

definition repo_path_url :: "Ktestrc \<Rightarrow> string \<Rightarrow> string option" where
  "repo_path_url rc name =
     map_option (\<lambda>r. if path_url r = [] then url r else path_url r) (bt_get (repos rc) name)"

text \<open>
  \<open>ktestrc_read\<close>: the configuration is \<open>public_html/ktest-ci.json5\<close> below the nearest ancestor of
  the binary that has one. \<open>exe\<close> is \<open>current_exe()\<close>, \<open>exists\<close> and \<open>read_file\<close> are the file system,
  \<open>parse\<close> is \<open>json_five::from_str\<close>.
\<close>

datatype rc_error = NoExe | NotFound | ReadError string | ParseError string

text \<open>\<open>Path::ancestors\<close>: the path itself, then each parent.\<close>

fun ancestors :: "path \<Rightarrow> path list" where
  "ancestors [] = [[]]"
| "ancestors (p # ps) = map ((#) p) (ancestors ps) @ [[]]"

definition ktestrc_read ::
  "path option \<Rightarrow> (path \<Rightarrow> bool) \<Rightarrow> (path \<Rightarrow> string option) \<Rightarrow> (string \<Rightarrow> Ktestrc option)
    \<Rightarrow> rc_error + Ktestrc" where
  "ktestrc_read exe exists read_file parse =
     (case exe of
        None \<Rightarrow> Inl NoExe
      | Some e \<Rightarrow>
          (case find exists (map (\<lambda>dir. dir @ [''public_html'', ''ktest-ci.json5'']) (ancestors e)) of
             None \<Rightarrow> Inl NotFound
           | Some p \<Rightarrow>
               (case read_file p of
                  None \<Rightarrow> Inl (ReadError (join ''/'' p))
                | Some config \<Rightarrow>
                    (case parse config of
                       None \<Rightarrow> Inl (ParseError (join ''/'' p))
                     | Some rc \<Rightarrow> Inr rc))))"

section \<open>Lemmas\<close>

lemma ancestors_eq: "ancestors p = map (\<lambda>n. take n p) (rev [0..<Suc (length p)])"
proof (induction p)
  case (Cons x p)
  have "rev [0..<Suc (length (x # p))] = map Suc (rev [0..<Suc (length p)]) @ [0]"
    by (simp add: map_Suc_upt rev_map [symmetric] upt_conv_Cons del: upt_Suc)
  with Cons show ?case by (simp add: comp_def del: upt_Suc)
qed simp

lemma repo_path_url_some: "repo_path_url rc name = Some u \<Longrightarrow> repo_path rc name \<noteq> None"
  by (auto simp: repo_path_url_def repo_path_def)

end
