(* ===== verification/Userrc.thy ===== *)
theory Userrc
  imports Rust_BTreeMap
begin

text \<open>
  The per-user configuration (\<open>src/users.rs\<close>): test groups that extend one another, flattened by
  \<open>resolve_group\<close> with a memo table and a stack that detects cycles, and the checks of
  \<open>userrc_read_str\<close>. The JSON5 reader (\<open>json_five\<close>) is the parameter \<open>parse\<close>.

  The specification is \<open>group_den\<close>: what a group means, by recursion along \<open>extends\<close>, with no memo
  table, no stack and no order. The refinement is that the code computes it exactly when it exists.
\<close>

section \<open>Data\<close>

record RawTestGroup =
  extends :: "string option"
  r_max_commits :: "u64 option"
  r_nice :: "u64 option"
  r_test_duration_nice :: "u64 option"
  r_test_always_passes_nice :: "u64 option"
  r_tests :: "string list option"
  r_kernels :: "string list option"
  r_env :: "(string, string) btree option"

record RawBranch =
  r_fetch :: string
  r_repo :: string
  r_test_groups :: "string list"

record RawUserrc =
  raw_groups :: "(string, RawTestGroup) btree"
  raw_branches :: "(string, RawBranch) btree"

record RcTestGroup =
  max_commits :: u64
  nice :: u64
  test_duration_nice :: u64
  test_always_passes_nice :: u64
  tests :: "string list"
  kernels :: "string list"
  env :: "(string, string) btree"

record RcBranch =
  fetch :: string
  repo :: string
  branch_test_groups :: "string list"

record Userrc =
  test_groups :: "(string, RcTestGroup) btree"
  branches :: "(string, RcBranch) btree"

datatype user_error =
    Cycle "string list" string
  | NotDefined string
  | UndefinedReference string string
  | BadSyntax
  | Unreadable string

section \<open>Operations\<close>

text \<open>The flattened group: the group's own field, else the parent's, else the default.\<close>

definition merge_group :: "RawTestGroup \<Rightarrow> RcTestGroup option \<Rightarrow> RcTestGroup" where
  "merge_group g parent =
     \<lparr> max_commits = unwrap_or (opt_or (r_max_commits g) (map_option max_commits parent)) 50,
       nice = unwrap_or (opt_or (r_nice g) (map_option nice parent)) 0,
       test_duration_nice =
         unwrap_or (opt_or (r_test_duration_nice g) (map_option test_duration_nice parent)) 180,
       test_always_passes_nice =
         unwrap_or (opt_or (r_test_always_passes_nice g) (map_option test_always_passes_nice parent)) 10,
       tests = unwrap_or (opt_or (r_tests g) (map_option tests parent)) [],
       kernels = unwrap_or (opt_or (r_kernels g) (map_option kernels parent)) [],
       env = (let inherited = unwrap_or (map_option env parent) bt_empty
              in case r_env g of None \<Rightarrow> inherited | Some e \<Rightarrow> bt_extend inherited e) \<rparr>"

text \<open>\<open>resolve_group\<close> updates \<open>resolved\<close> and \<open>stack\<close>; the model returns them. On an error the caller
  drops both.\<close>

function resolve_group ::
  "string \<Rightarrow> (string, RawTestGroup) btree \<Rightarrow> (string, RcTestGroup) btree \<Rightarrow> string list
    \<Rightarrow> user_error + (string, RcTestGroup) btree \<times> string list" where
  "resolve_group name raw resolved stack =
     (if bt_contains_key resolved name then Inr (resolved, stack)
      else if name \<in> set stack then Inl (Cycle stack name)
      else
        (case bt_get raw name of
           None \<Rightarrow> Inl (NotDefined name)
         | Some g \<Rightarrow>
             (case (case extends g of
                      None \<Rightarrow> Inr (resolved, stack @ [name])
                    | Some p \<Rightarrow> resolve_group p raw resolved (stack @ [name])) of
                Inl e \<Rightarrow> Inl e
              | Inr (resolved, stack) \<Rightarrow>
                  (let parent = Option.bind (extends g) (bt_get resolved)
                   in Inr (bt_insert resolved name (merge_group g parent), butlast stack)))))"
  by pat_completeness auto
termination
proof (relation "measure (\<lambda>(name, raw, resolved, stack). card (fst ` set raw - set stack))", goal_cases)
  case (2 name raw resolved stack g p)
  then have "name \<in> fst ` set raw - set stack"
    using map_of_SomeD [of raw name g] by (force simp: image_iff)
  then have "fst ` set raw - set (stack @ [name]) \<subset> fst ` set raw - set stack"
    by auto
  then have "card (fst ` set raw - set (stack @ [name])) < card (fst ` set raw - set stack)"
    by (intro psubset_card_mono) auto
  then show ?case by (simp only: in_measure case_prod_conv)
qed simp

declare resolve_group.simps [simp del]

fun resolve_groups ::
  "string list \<Rightarrow> (string, RawTestGroup) btree \<Rightarrow> (string, RcTestGroup) btree \<Rightarrow> string list
    \<Rightarrow> user_error + (string, RcTestGroup) btree \<times> string list" where
  "resolve_groups [] raw resolved stack = Inr (resolved, stack)"
| "resolve_groups (name # names) raw resolved stack =
     (case resolve_group name raw resolved stack of
        Inl e \<Rightarrow> Inl e
      | Inr (resolved, stack) \<Rightarrow> resolve_groups names raw resolved stack)"

fun check_groups :: "string \<Rightarrow> string list \<Rightarrow> (string, RcTestGroup) btree \<Rightarrow> user_error option" where
  "check_groups bname [] resolved = None"
| "check_groups bname (tg # tgs) resolved =
     (if \<not> bt_contains_key resolved tg then Some (UndefinedReference bname tg)
      else check_groups bname tgs resolved)"

fun check_branches :: "(string, RawBranch) btree \<Rightarrow> (string, RcTestGroup) btree \<Rightarrow> user_error option" where
  "check_branches [] resolved = None"
| "check_branches ((bname, b) # bs) resolved =
     (case check_groups bname (r_test_groups b) resolved of
        Some e \<Rightarrow> Some e
      | None \<Rightarrow> check_branches bs resolved)"

definition rc_branch :: "RawBranch \<Rightarrow> RcBranch" where
  "rc_branch b = \<lparr> fetch = r_fetch b, repo = r_repo b, branch_test_groups = r_test_groups b \<rparr>"

definition userrc_read_str :: "(string \<Rightarrow> RawUserrc option) \<Rightarrow> string \<Rightarrow> user_error + Userrc" where
  "userrc_read_str parse s =
     (case parse s of
        None \<Rightarrow> Inl BadSyntax
      | Some raw \<Rightarrow>
          (case resolve_groups (map fst (raw_groups raw)) (raw_groups raw) bt_empty [] of
             Inl e \<Rightarrow> Inl e
           | Inr (resolved, stack) \<Rightarrow>
               (case check_branches (raw_branches raw) resolved of
                  Some e \<Rightarrow> Inl e
                | None \<Rightarrow>
                    Inr \<lparr> test_groups = resolved,
                          branches = bt_collect (map (\<lambda>(name, b). (name, rc_branch b)) (raw_branches raw)) \<rparr>)))"

definition userrc_read ::
  "(string \<Rightarrow> RawUserrc option) \<Rightarrow> (string \<Rightarrow> string option) \<Rightarrow> string \<Rightarrow> user_error + Userrc" where
  "userrc_read parse read_file p =
     (case read_file p of
        None \<Rightarrow> Inl (Unreadable p)
      | Some config \<Rightarrow> userrc_read_str parse config)"

section \<open>Specification\<close>

text \<open>The groups along the \<open>extends\<close> chain of a group, the group itself first; and the flattened
  group they denote.\<close>

inductive group_chain :: "(string, RawTestGroup) btree \<Rightarrow> string \<Rightarrow> RawTestGroup list \<Rightarrow> bool"
  for raw where
  root: "bt_get raw n = Some g \<Longrightarrow> extends g = None \<Longrightarrow> group_chain raw n [g]"
| child: "bt_get raw n = Some g \<Longrightarrow> extends g = Some p \<Longrightarrow> group_chain raw p gs \<Longrightarrow>
    group_chain raw n (g # gs)"

fun flatten_chain :: "RawTestGroup list \<Rightarrow> RcTestGroup option" where
  "flatten_chain [] = None"
| "flatten_chain (g # gs) = Some (merge_group g (flatten_chain gs))"

definition group_den :: "(string, RawTestGroup) btree \<Rightarrow> string \<Rightarrow> RcTestGroup \<Rightarrow> bool" where
  "group_den raw n grp \<longleftrightarrow> (\<exists>gs. group_chain raw n gs \<and> flatten_chain gs = Some grp)"

definition ext_rel :: "(string, RawTestGroup) btree \<Rightarrow> (string \<times> string) set" where
  "ext_rel raw = {(n, p). \<exists>g. bt_get raw n = Some g \<and> extends g = Some p}"

text \<open>The first group of a chain that sets a field.\<close>

fun first_set :: "('a \<Rightarrow> 'b option) \<Rightarrow> 'a list \<Rightarrow> 'b option" where
  "first_set f [] = None"
| "first_set f (x # xs) = opt_or (f x) (first_set f xs)"

definition resolved_ok ::
  "(string, RawTestGroup) btree \<Rightarrow> (string, RcTestGroup) btree \<Rightarrow> bool" where
  "resolved_ok raw resolved \<longleftrightarrow>
     bt_ok resolved \<and> (\<forall>n grp. bt_get resolved n = Some grp \<longrightarrow> group_den raw n grp)"

inductive_cases group_chainE: "group_chain raw n gs"

section \<open>Lemmas on the specification\<close>

lemma group_chain_unique: "group_chain raw n gs \<Longrightarrow> group_chain raw n gs' \<Longrightarrow> gs = gs'"
proof (induction arbitrary: gs' rule: group_chain.induct)
  case (root n g)
  then show ?case by (auto elim: group_chainE)
next
  case (child n g p gs)
  from child.prems child.hyps obtain gs2 where "gs' = g # gs2" and "group_chain raw p gs2"
    by (auto elim: group_chainE)
  then show ?case using child.IH by simp
qed

lemma group_den_unique: "group_den raw n a \<Longrightarrow> group_den raw n b \<Longrightarrow> a = b"
  using group_chain_unique by (fastforce simp: group_den_def)

lemma group_chain_flat: "group_chain raw n gs \<Longrightarrow> \<exists>grp. flatten_chain gs = Some grp"
  by (cases gs) (auto elim: group_chainE)

lemma group_den_root:
  "bt_get raw n = Some g \<Longrightarrow> extends g = None \<Longrightarrow> group_den raw n (merge_group g None)"
  by (auto simp: group_den_def intro!: exI [of _ "[g]"] group_chain.root)

lemma group_den_child:
  "bt_get raw n = Some g \<Longrightarrow> extends g = Some p \<Longrightarrow> group_den raw p pg \<Longrightarrow>
     group_den raw n (merge_group g (Some pg))"
  unfolding group_den_def by (metis flatten_chain.simps(2) group_chain.child)

lemma group_den_parent:
  "bt_get raw n = Some g \<Longrightarrow> extends g = Some p \<Longrightarrow> group_den raw n grp \<Longrightarrow> \<exists>pg. group_den raw p pg"
proof -
  assume g: "bt_get raw n = Some g" "extends g = Some p" and "group_den raw n grp"
  then obtain gs where "group_chain raw n gs" by (auto simp: group_den_def)
  from \<open>group_chain raw n gs\<close> g obtain gs' where "group_chain raw p gs'"
    by (cases rule: group_chain.cases) auto
  then show ?thesis using group_chain_flat unfolding group_den_def by blast
qed

lemma group_den_defined: "group_den raw n grp \<Longrightarrow> bt_get raw n \<noteq> None"
  by (auto simp: group_den_def elim: group_chainE)

text \<open>A group with a meaning is on no cycle of \<open>extends\<close>.\<close>

lemma ext_rel_step: "(n, m) \<in> (ext_rel raw)\<^sup>+ \<Longrightarrow> bt_get raw n = Some g \<Longrightarrow> extends g = Some p \<Longrightarrow>
    (p, m) \<in> (ext_rel raw)\<^sup>*"
  by (auto simp: ext_rel_def dest!: tranclD)

lemma group_chain_acyclic: "group_chain raw n gs \<Longrightarrow> (n, n) \<notin> (ext_rel raw)\<^sup>+"
proof (induction rule: group_chain.induct)
  case (root n g)
  then show ?case by (auto simp: ext_rel_def dest: tranclD)
next
  case (child n g p gs)
  have "(p, p) \<in> (ext_rel raw)\<^sup>+" if "(n, n) \<in> (ext_rel raw)\<^sup>+"
  proof -
    have "(p, n) \<in> (ext_rel raw)\<^sup>*" using ext_rel_step [OF that child.hyps(1,2)] .
    moreover have "(n, p) \<in> ext_rel raw" using child.hyps by (auto simp: ext_rel_def)
    ultimately show ?thesis by (rule rtrancl_into_trancl1)
  qed
  then show ?case using child.IH by blast
qed

lemma group_den_acyclic: "group_den raw n grp \<Longrightarrow> (n, n) \<notin> (ext_rel raw)\<^sup>+"
  using group_chain_acyclic by (auto simp: group_den_def)

text \<open>The first group of the chain that sets a field decides it.\<close>

lemma merge_env_get:
  "(\<And>e. r_env g = Some e \<Longrightarrow> bt_ok e) \<Longrightarrow> (\<And>p. parent = Some p \<Longrightarrow> bt_ok (env p)) \<Longrightarrow>
     bt_ok (env (merge_group g parent)) \<and>
     bt_get (env (merge_group g parent)) k =
       opt_or (Option.bind (r_env g) (\<lambda>e. bt_get e k)) (Option.bind parent (\<lambda>p. bt_get (env p) k))"
  by (cases parent; cases "r_env g")
    (auto simp: merge_group_def bt_get_extend distinct_map_of_rev bt.entries_distinct opt_or_def
      split: option.splits)

lemma flatten_field:
  assumes "\<And>g parent. sel (merge_group g parent) = unwrap_or (opt_or (r g) (map_option sel parent)) d"
    and "flatten_chain gs = Some grp"
  shows "sel grp = unwrap_or (first_set r gs) d"
  using assms(2)
proof (induction gs arbitrary: grp)
  case (Cons g gs)
  show ?case
  proof (cases "flatten_chain gs")
    case None
    then have "gs = []" by (cases gs) auto
    with Cons.prems None show ?thesis by (auto simp: assms(1))
  next
    case (Some pg)
    with Cons show ?thesis by (cases "r g") (auto simp: assms(1))
  qed
qed simp

lemma flatten_fields:
  assumes "flatten_chain gs = Some grp"
  shows "max_commits grp = unwrap_or (first_set r_max_commits gs) 50 \<and>
    nice grp = unwrap_or (first_set r_nice gs) 0 \<and>
    test_duration_nice grp = unwrap_or (first_set r_test_duration_nice gs) 180 \<and>
    test_always_passes_nice grp = unwrap_or (first_set r_test_always_passes_nice gs) 10 \<and>
    tests grp = unwrap_or (first_set r_tests gs) [] \<and>
    kernels grp = unwrap_or (first_set r_kernels gs) []"
  by (intro conjI flatten_field [OF _ assms]) (simp_all add: merge_group_def)

lemma flatten_env:
  "flatten_chain gs = Some grp \<Longrightarrow> (\<forall>g \<in> set gs. \<forall>e. r_env g = Some e \<longrightarrow> bt_ok e) \<Longrightarrow>
     bt_ok (env grp) \<and> bt_get (env grp) k = first_set (\<lambda>g. Option.bind (r_env g) (\<lambda>e. bt_get e k)) gs"
proof (induction gs arbitrary: grp)
  case (Cons g gs)
  show ?case
  proof (cases "flatten_chain gs")
    case None
    then have "gs = []" by (cases gs) auto
    with Cons.prems None show ?thesis using merge_env_get [of g None] by simp
  next
    case (Some pg)
    with Cons have "bt_ok (env pg)"
      "bt_get (env pg) k = first_set (\<lambda>g. Option.bind (r_env g) (\<lambda>e. bt_get e k)) gs"
      by simp_all
    with Cons.prems Some show ?thesis using merge_env_get [of g "Some pg"] by simp
  qed
qed simp

section \<open>The code computes the specification\<close>

lemma resolved_ok_insert:
  "resolved_ok raw r \<Longrightarrow> group_den raw n grp \<Longrightarrow> resolved_ok raw (bt_insert r n grp)"
  by (auto simp: resolved_ok_def bt_ok_insert bt_get_insert)

lemma resolve_group_sound:
  "resolve_group name raw resolved stack = Inr (r', st') \<Longrightarrow> resolved_ok raw resolved \<Longrightarrow>
     st' = stack \<and> resolved_ok raw r' \<and> bt_get r' name \<noteq> None \<and>
     (\<forall>n. bt_get resolved n \<noteq> None \<longrightarrow> bt_get r' n = bt_get resolved n)"
proof (induction name raw resolved stack arbitrary: r' st' rule: resolve_group.induct)
  case (1 name raw resolved stack)
  show ?case
  proof (cases "bt_contains_key resolved name")
    case True
    then show ?thesis
      using "1.prems" by (auto simp: resolve_group.simps [of name] bt_contains_key_def)
  next
    case False
    with "1.prems"(1) obtain g where new: "name \<notin> set stack" and g: "bt_get raw name = Some g"
      by (auto simp: resolve_group.simps [of name] split: if_splits option.splits)
    show ?thesis
    proof (cases "extends g")
      case None
      with "1.prems"(1) False new g have
        eqs: "r' = bt_insert resolved name (merge_group g None)" "st' = stack"
        by (auto simp: resolve_group.simps [of name])
      moreover have "resolved_ok raw r'"
        using resolved_ok_insert [OF "1.prems"(2) group_den_root [OF g None]] eqs by simp
      ultimately show ?thesis
        using "1.prems"(2) False by (auto simp: bt_get_insert resolved_ok_def bt_contains_key_def)
    next
      case (Some p)
      with "1.prems"(1) False new g obtain r2 st2 where
        rec: "resolve_group p raw resolved (stack @ [name]) = Inr (r2, st2)" and
        eqs: "r' = bt_insert r2 name (merge_group g (bt_get r2 p))" "st' = butlast st2"
        by (auto simp: resolve_group.simps [of name] Let_def split: sum.splits)
      from "1.IH" [OF False new g Some rec "1.prems"(2)]
      have ih: "st2 = stack @ [name]" "resolved_ok raw r2" "bt_get r2 p \<noteq> None"
        "\<forall>n. bt_get resolved n \<noteq> None \<longrightarrow> bt_get r2 n = bt_get resolved n" by auto
      then obtain pg where pg: "bt_get r2 p = Some pg" and "group_den raw p pg"
        by (auto simp: resolved_ok_def)
      then have "group_den raw name (merge_group g (Some pg))"
        using group_den_child [OF g Some] by blast
      then have "resolved_ok raw r'"
        using resolved_ok_insert [OF ih(2)] eqs pg by simp
      moreover have "bt_get r' n = (if n = name then Some (merge_group g (Some pg)) else bt_get r2 n)" for n
        using ih(2) eqs pg by (simp add: bt_get_insert resolved_ok_def)
      ultimately show ?thesis
        using ih eqs False by (auto simp: bt_contains_key_def)
    qed
  qed
qed

definition on_path :: "(string, RawTestGroup) btree \<Rightarrow> string list \<Rightarrow> string \<Rightarrow> bool" where
  "on_path raw stack name \<longleftrightarrow> (\<forall>m \<in> set stack. (m, name) \<in> (ext_rel raw)\<^sup>+)"

lemma on_path_push:
  "on_path raw stack name \<Longrightarrow> bt_get raw name = Some g \<Longrightarrow> extends g = Some p \<Longrightarrow>
     on_path raw (stack @ [name]) p"
  by (auto simp: on_path_def ext_rel_def intro: trancl_into_trancl)

lemma resolve_group_error:
  "resolve_group name raw resolved stack = Inl e \<Longrightarrow> on_path raw stack name \<Longrightarrow>
     (\<nexists>grp. group_den raw name grp) \<and>
     (case e of Cycle st n \<Rightarrow> (n, n) \<in> (ext_rel raw)\<^sup>+ | NotDefined n \<Rightarrow> bt_get raw n = None | _ \<Rightarrow> False)"
proof (induction name raw resolved stack rule: resolve_group.induct)
  case (1 name raw resolved stack)
  have new: "\<not> bt_contains_key resolved name"
    using "1.prems"(1) by (auto simp: resolve_group.simps [of name])
  consider (cycle) "name \<in> set stack"
    | (undef) "name \<notin> set stack" "bt_get raw name = None"
    | (rec) g p where "name \<notin> set stack" "bt_get raw name = Some g" "extends g = Some p"
        "resolve_group p raw resolved (stack @ [name]) = Inl e"
    using "1.prems"(1) new
    by (auto simp: resolve_group.simps [of name] split: if_splits option.splits sum.splits)
  then show ?case
  proof cases
    case cycle
    then show ?thesis
      using "1.prems" new group_den_acyclic
      by (fastforce simp: resolve_group.simps [of name] on_path_def)
  next
    case undef
    then show ?thesis
      using "1.prems" new by (auto simp: resolve_group.simps [of name] dest: group_den_defined)
  next
    case rec
    then show ?thesis
      using "1.IH" [OF new rec(1-3) rec(4) on_path_push [OF "1.prems"(2) rec(2,3)]]
        group_den_parent [OF rec(2,3)] by blast
  qed
qed

lemma resolve_groups_sound:
  "resolve_groups names raw resolved stack = Inr (r', st') \<Longrightarrow> resolved_ok raw resolved \<Longrightarrow>
     resolved_ok raw r' \<and> (\<forall>n \<in> set names. bt_get r' n \<noteq> None) \<and>
     (\<forall>n. bt_get resolved n \<noteq> None \<longrightarrow> bt_get r' n = bt_get resolved n)"
proof (induction names raw resolved stack rule: resolve_groups.induct)
  case (2 name names raw resolved stack)
  then obtain r1 st1 where r1: "resolve_group name raw resolved stack = Inr (r1, st1)"
    and rest: "resolve_groups names raw r1 st1 = Inr (r', st')"
    by (auto split: sum.splits)
  note s = resolve_group_sound [OF r1 "2.prems"(2)]
  with "2.IH" [OF r1 _ rest] show ?case by auto
qed simp

lemma resolve_groups_error:
  "resolve_groups names raw resolved [] = Inl e \<Longrightarrow> resolved_ok raw resolved \<Longrightarrow>
     (\<exists>n \<in> set names. \<nexists>grp. group_den raw n grp) \<and>
     (case e of Cycle st n \<Rightarrow> (n, n) \<in> (ext_rel raw)\<^sup>+ | NotDefined n \<Rightarrow> bt_get raw n = None | _ \<Rightarrow> False)"
proof (induction names arbitrary: resolved)
  case (Cons name names)
  show ?case
  proof (cases "resolve_group name raw resolved []")
    case (Inl e')
    then show ?thesis
      using Cons.prems resolve_group_error [OF Inl] by (auto simp: on_path_def)
  next
    case (Inr rs)
    obtain r1 st1 where rs: "rs = (r1, st1)" by (cases rs)
    note s = resolve_group_sound [OF Inr [unfolded rs] Cons.prems(2)]
    then show ?thesis
      using Cons.prems(1) Cons.IH [of r1] Inr rs by auto
  qed
qed simp

lemma check_groups_None: "check_groups b tgs r = None \<longleftrightarrow> (\<forall>tg \<in> set tgs. bt_get r tg \<noteq> None)"
  by (induction tgs) (auto simp: bt_contains_key_def)


lemma check_groups_Some: "check_groups b tgs r = Some e \<Longrightarrow>
    \<exists>tg \<in> set tgs. e = UndefinedReference b tg \<and> bt_get r tg = None"
  by (induction tgs) (auto simp: bt_contains_key_def split: if_splits)

lemma check_branches_Some: "check_branches bs r = Some e \<Longrightarrow>
    \<exists>(n, b) \<in> set bs. \<exists>tg \<in> set (r_test_groups b). e = UndefinedReference n tg \<and> bt_get r tg = None"
  by (induction bs r rule: check_branches.induct)
    (auto split: option.splits dest!: check_groups_Some)

lemma check_branches_None:
  "check_branches bs r = None \<longleftrightarrow> (\<forall>(n, b) \<in> set bs. \<forall>tg \<in> set (r_test_groups b). bt_get r tg \<noteq> None)"
  by (induction bs r rule: check_branches.induct)
    (auto simp: check_groups_None split: option.splits dest!: check_groups_Some)

lemma userrc_read_str_Inr:
  assumes "parse s = Some raw" and "userrc_read_str parse s = Inr u"
  shows "resolved_ok (raw_groups raw) (test_groups u)"
    and "\<forall>n. bt_get (raw_groups raw) n \<noteq> None \<longrightarrow> bt_get (test_groups u) n \<noteq> None"
    and "check_branches (raw_branches raw) (test_groups u) = None"
    and "branches u = bt_collect (map (\<lambda>(name, b). (name, rc_branch b)) (raw_branches raw))"
proof -
  from assms obtain st where
    res: "resolve_groups (map fst (raw_groups raw)) (raw_groups raw) bt_empty [] = Inr (test_groups u, st)"
    and chk: "check_branches (raw_branches raw) (test_groups u) = None"
    and br: "branches u = bt_collect (map (\<lambda>(name, b). (name, rc_branch b)) (raw_branches raw))"
    by (auto simp: userrc_read_str_def split: sum.splits option.splits)
  have "resolved_ok (raw_groups raw) bt_empty" by (simp add: resolved_ok_def)
  note s = resolve_groups_sound [OF res this]
  then show "resolved_ok (raw_groups raw) (test_groups u)" by simp
  from s show "\<forall>n. bt_get (raw_groups raw) n \<noteq> None \<longrightarrow> bt_get (test_groups u) n \<noteq> None"
    by (auto simp: map_of_eq_None_iff)
  show "check_branches (raw_branches raw) (test_groups u) = None" by (rule chk)
  show "branches u = bt_collect (map (\<lambda>(name, b). (name, rc_branch b)) (raw_branches raw))" by (rule br)
qed

lemma userrc_groups_den:
  assumes "parse s = Some raw" and "userrc_read_str parse s = Inr u"
  shows "bt_get (test_groups u) n = Some grp \<longleftrightarrow> group_den (raw_groups raw) n grp"
proof
  assume "group_den (raw_groups raw) n grp"
  moreover obtain grp' where "bt_get (test_groups u) n = Some grp'"
    using calculation group_den_defined userrc_read_str_Inr(2) [OF assms] by blast
  moreover have "group_den (raw_groups raw) n grp'"
    using calculation(2) userrc_read_str_Inr(1) [OF assms] by (simp add: resolved_ok_def)
  ultimately show "bt_get (test_groups u) n = Some grp"
    using group_den_unique by blast
qed (use userrc_read_str_Inr(1) [OF assms] in \<open>simp add: resolved_ok_def\<close>)

lemma userrc_read_str_Inl:
  assumes raw: "parse s = Some raw" and err: "userrc_read_str parse s = Inl e"
  shows "case e of
      Cycle st n \<Rightarrow> (n, n) \<in> (ext_rel (raw_groups raw))\<^sup>+
    | NotDefined n \<Rightarrow> bt_get (raw_groups raw) n = None
    | UndefinedReference b tg \<Rightarrow>
        bt_get (raw_groups raw) tg = None \<and>
        (\<exists>br. (b, br) \<in> set (raw_branches raw) \<and> tg \<in> set (r_test_groups br))
    | _ \<Rightarrow> False"
proof (cases "resolve_groups (map fst (raw_groups raw)) (raw_groups raw) bt_empty []")
  case (Inl e')
  then show ?thesis
    using assms resolve_groups_error [OF Inl] by (auto simp: userrc_read_str_def resolved_ok_def split: user_error.splits)
next
  case (Inr rs)
  then obtain r st where rs: "resolve_groups (map fst (raw_groups raw)) (raw_groups raw) bt_empty [] = Inr (r, st)"
    by (cases rs) auto
  with assms have "check_branches (raw_branches raw) r = Some e"
    by (auto simp: userrc_read_str_def split: option.splits)
  note c = check_branches_Some [OF this]
  have "\<forall>n. bt_get (raw_groups raw) n \<noteq> None \<longrightarrow> bt_get r n \<noteq> None"
    using resolve_groups_sound [OF rs] by (auto simp: resolved_ok_def map_of_eq_None_iff)
  with c show ?thesis by force
qed

lemma userrc_no_group_error:
  assumes "parse s = Some raw" and "userrc_read_str parse s = Inl e"
    and "\<forall>n. bt_get (raw_groups raw) n \<noteq> None \<longrightarrow> (\<exists>grp. group_den (raw_groups raw) n grp)"
  shows "\<exists>b tg. e = UndefinedReference b tg"
proof (cases "resolve_groups (map fst (raw_groups raw)) (raw_groups raw) bt_empty []")
  case (Inl e')
  then show ?thesis
    using assms(3) resolve_groups_error [OF Inl] by (auto simp: resolved_ok_def map_of_eq_None_iff)
next
  case (Inr rs)
  then show ?thesis
    using assms check_branches_Some [of "raw_branches raw"]
    by (fastforce simp: userrc_read_str_def split: option.splits prod.splits)
qed

lemma bt_get_rc_branches:
  "bt_ok bs \<Longrightarrow> bt_get (bt_collect (map (\<lambda>(name, b). (name, rc_branch b)) bs)) n =
     map_option rc_branch (bt_get bs n)"
  using bt_ok_map_values [of "\<lambda>_. rc_branch" bs]
  by (simp add: bt_collect_id bt_get_map_values)

section \<open>Properties\<close>

text \<open>C6: \<open>userrc_read_str\<close> refines the declarative meaning of test groups. When it succeeds, a group is in
  the result exactly with the meaning its \<open>extends\<close> chain gives it, every group of the file has one, and
  every group a branch names is there (so the lookup in \<open>build_test_specs\<close> never misses). When it
  fails, the error is accurate: a reported cycle is a cycle of \<open>extends\<close>, a group reported as not
  defined is not in the file, and a reported reference of a branch is to a group not in the file. The
  memo table, the stack and the order of resolution do not matter.\<close>

theorem userrc_read_str_refines:
  assumes "parse s = Some raw" and "bt_ok (raw_branches raw)"
  shows "case userrc_read_str parse s of
      Inr u \<Rightarrow>
        (\<forall>n grp. bt_get (test_groups u) n = Some grp \<longleftrightarrow> group_den (raw_groups raw) n grp) \<and>
        (\<forall>n. bt_get (raw_groups raw) n \<noteq> None \<longrightarrow> bt_get (test_groups u) n \<noteq> None) \<and>
        (\<forall>b. bt_get (branches u) b = map_option rc_branch (bt_get (raw_branches raw) b)) \<and>
        (\<forall>b br tg. bt_get (branches u) b = Some br \<longrightarrow> tg \<in> set (branch_test_groups br) \<longrightarrow>
           bt_get (test_groups u) tg \<noteq> None)
    | Inl (Cycle st n) \<Rightarrow> (n, n) \<in> (ext_rel (raw_groups raw))\<^sup>+
    | Inl (NotDefined n) \<Rightarrow> bt_get (raw_groups raw) n = None
    | Inl (UndefinedReference b tg) \<Rightarrow>
        bt_get (raw_groups raw) tg = None \<and>
        (\<exists>br. (b, br) \<in> set (raw_branches raw) \<and> tg \<in> set (r_test_groups br))
    | Inl _ \<Rightarrow> False"
proof (cases "userrc_read_str parse s")
  case (Inl e)
  then show ?thesis
    using userrc_read_str_Inl [OF assms(1) Inl] by (cases e) auto
next
  case (Inr u)
  note f = userrc_read_str_Inr [OF assms(1) Inr]
  have get: "bt_get (branches u) b = map_option rc_branch (bt_get (raw_branches raw) b)" for b
    using assms(2) f(4) by (simp add: bt_get_rc_branches)
  have "bt_get (test_groups u) tg \<noteq> None"
    if "bt_get (branches u) b = Some br" and "tg \<in> set (branch_test_groups br)" for b br tg
    using that f(3) map_of_SomeD [of "raw_branches raw" b]
    by (fastforce simp: get check_branches_None rc_branch_def)
  then show ?thesis
    using Inr f(2) get userrc_groups_den [OF assms(1) Inr] by simp
qed

definition demo_raw :: RawUserrc where
  "demo_raw =
     \<lparr> raw_groups =
         [(''base'', \<lparr> extends = None, r_max_commits = Some 100, r_nice = None,
            r_test_duration_nice = None, r_test_always_passes_nice = None,
            r_tests = Some [''a.ktest''], r_kernels = Some [''k''],
            r_env = Some [(''BAR'', ''base''), (''FOO'', ''1'')] \<rparr>),
          (''ext'', \<lparr> extends = Some ''base'', r_max_commits = Some 5, r_nice = Some 5,
            r_test_duration_nice = None, r_test_always_passes_nice = None,
            r_tests = None, r_kernels = None,
            r_env = Some [(''BAR'', ''child''), (''BAZ'', ''2'')] \<rparr>)],
       raw_branches = [(''br'', \<lparr> r_fetch = ''linux master'', r_repo = ''linux'',
            r_test_groups = [''base'', ''ext''] \<rparr>)] \<rparr>"

lemma demo_read: "\<exists>u. userrc_read_str (\<lambda>_. Some demo_raw) [] = Inr u"
  by (simp add: userrc_read_str_def demo_raw_def resolve_group.simps bt_contains_key_def merge_group_def
      bt_extend_def)

lemma demo_ext: "bt_get (raw_groups demo_raw) ''ext'' \<noteq> None"
  by (simp add: demo_raw_def)

theorem userrc_read_str_refines_witness:
  "\<exists>u grp. userrc_read_str (\<lambda>_. Some demo_raw) [] = Inr u \<and>
     bt_get (test_groups u) ''ext'' = Some grp \<and> group_den (raw_groups demo_raw) ''ext'' grp"
proof -
  obtain u where u: "userrc_read_str (\<lambda>_. Some demo_raw) [] = Inr u"
    using demo_read by blast
  have "bt_ok (raw_branches demo_raw)" by (simp add: demo_raw_def bt_ok_def)
  with userrc_read_str_refines [of "\<lambda>_. Some demo_raw" "[]" demo_raw] u
  have "\<forall>n. bt_get (raw_groups demo_raw) n \<noteq> None \<longrightarrow> bt_get (test_groups u) n \<noteq> None"
    and "\<forall>n grp. bt_get (test_groups u) n = Some grp \<longleftrightarrow> group_den (raw_groups demo_raw) n grp"
    by auto
  then show ?thesis using u demo_ext by auto
qed

text \<open>C24: A file that parses is accepted exactly when every group has a meaning (its \<open>extends\<close> chain is
  finite and ends in defined groups) and every group that a branch names is in the file:
  \<open>resolve_group\<close> neither rejects a good file nor loops on a bad one.\<close>

theorem userrc_read_str_accepts:
  assumes "parse s = Some raw"
  shows "(\<exists>u. userrc_read_str parse s = Inr u) \<longleftrightarrow>
    (\<forall>n. bt_get (raw_groups raw) n \<noteq> None \<longrightarrow> (\<exists>grp. group_den (raw_groups raw) n grp)) \<and>
    (\<forall>(b, br) \<in> set (raw_branches raw). \<forall>tg \<in> set (r_test_groups br). bt_get (raw_groups raw) tg \<noteq> None)"
    (is "_ \<longleftrightarrow> ?good")
proof
  assume "\<exists>u. userrc_read_str parse s = Inr u"
  then obtain u where u: "userrc_read_str parse s = Inr u" by blast
  note f = userrc_read_str_Inr [OF assms u]
  have "bt_get (raw_groups raw) n \<noteq> None" if "bt_get (test_groups u) n \<noteq> None" for n
    using that userrc_groups_den [OF assms u] group_den_defined by blast
  with f(2,3) show ?good
    using userrc_groups_den [OF assms u] by (fastforce simp: check_branches_None)
next
  assume good: ?good
  show "\<exists>u. userrc_read_str parse s = Inr u"
  proof (cases "userrc_read_str parse s")
    case (Inl e)
    then show ?thesis
      using good userrc_read_str_Inl [OF assms Inl] userrc_no_group_error [OF assms Inl]
      by (cases e) fastforce+
  qed blast
qed

theorem userrc_read_str_accepts_witness:
  "\<exists>grp. group_den (raw_groups demo_raw) ''ext'' grp"
  using userrc_read_str_accepts [of "\<lambda>_. Some demo_raw" "[]" demo_raw] demo_read demo_ext by blast

text \<open>Inheritance. In a configuration that was read, each field of a group is the one set nearest to the
  group on its \<open>extends\<close> chain, and the documented default when no group of the chain sets it; the
  environment is merged variable by variable, the nearest setting of each variable winning.\<close>

theorem group_inheritance:
  assumes "parse s = Some raw" and "userrc_read_str parse s = Inr u"
    and "bt_get (test_groups u) n = Some grp"
    and "\<forall>(k, g) \<in> set (raw_groups raw). \<forall>e. r_env g = Some e \<longrightarrow> bt_ok e"
  shows "\<exists>gs. group_chain (raw_groups raw) n gs \<and>
    max_commits grp = unwrap_or (first_set r_max_commits gs) 50 \<and>
    nice grp = unwrap_or (first_set r_nice gs) 0 \<and>
    test_duration_nice grp = unwrap_or (first_set r_test_duration_nice gs) 180 \<and>
    test_always_passes_nice grp = unwrap_or (first_set r_test_always_passes_nice gs) 10 \<and>
    tests grp = unwrap_or (first_set r_tests gs) [] \<and>
    kernels grp = unwrap_or (first_set r_kernels gs) [] \<and>
    (\<forall>k. bt_get (env grp) k = first_set (\<lambda>g. Option.bind (r_env g) (\<lambda>e. bt_get e k)) gs)"
proof -
  obtain gs where gs: "group_chain (raw_groups raw) n gs" "flatten_chain gs = Some grp"
    using assms(1-3) by (auto simp: userrc_groups_den group_den_def)
  have "\<forall>g \<in> set gs. \<exists>k. (k, g) \<in> set (raw_groups raw)"
    using gs(1) by (induction rule: group_chain.induct) (auto dest: map_of_SomeD)
  with assms(4) have "\<forall>g \<in> set gs. \<forall>e. r_env g = Some e \<longrightarrow> bt_ok e" by fastforce
  then show ?thesis
    using gs flatten_fields [OF gs(2)] flatten_env [OF gs(2)] by blast
qed

theorem group_inheritance_witness:
  "\<exists>u grp. userrc_read_str (\<lambda>_. Some demo_raw) [] = Inr u \<and>
     bt_get (test_groups u) ''ext'' = Some grp \<and>
     (\<exists>gs. group_chain (raw_groups demo_raw) ''ext'' gs \<and>
       max_commits grp = unwrap_or (first_set r_max_commits gs) 50)"
proof -
  obtain u where u: "userrc_read_str (\<lambda>_. Some demo_raw) [] = Inr u"
    using demo_read by blast
  moreover obtain grp where "bt_get (test_groups u) ''ext'' = Some grp"
    using userrc_read_str_Inr(2) [OF _ u, of demo_raw] demo_ext by auto
  moreover have "\<forall>(k, g) \<in> set (raw_groups demo_raw). \<forall>e. r_env g = Some e \<longrightarrow> bt_ok e"
    by (simp add: demo_raw_def bt_ok_def)
  ultimately show ?thesis
    using group_inheritance [of "\<lambda>_. Some demo_raw" "[]" demo_raw u "''ext''" grp] by blast
qed

end
