(* ===== verification/Job_Matrix.thy ===== *)
theory Job_Matrix
  imports Durations Ktestrc Userrc
begin

text \<open>
  The job matrix (\<open>src/jobs.rs\<close>): which test jobs the configuration wants run, given the branches, the
  subtests of the tests and the results recorded so far; and \<open>ciconfig_read\<close> and \<open>git_get_commit\<close>
  (\<open>src/lib.rs\<close>), which it reads.

  Git (the \<open>git2\<close> crate) and the host (file times, running a test with \<open>list-tests\<close>) are the
  parameters \<open>G\<close> and \<open>H\<close>. The signed weight is a 64-bit word compared through \<^const>\<open>sint\<close>.
\<close>

section \<open>Configuration\<close>

record CiConfig =
  ktest :: Ktestrc
  users :: "(string, user_error + Userrc) btree"

text \<open>\<open>Path::file_stem\<close> and \<open>Path::extension\<close> of a file name.\<close>

definition stem_extension :: "string \<Rightarrow> string \<times> string option" where
  "stem_extension n =
     (let ext = takeWhile (\<lambda>c. c \<noteq> CHR ''.'') (rev n);
          rest = dropWhile (\<lambda>c. c \<noteq> CHR ''.'') (rev n)
      in if length rest \<le> 1 then (n, None) else (rev (tl rest), Some (rev ext)))"

datatype config_error = KtestrcError rc_error | UsersDir string

definition ciconfig_read ::
  "rc_error + Ktestrc \<Rightarrow> (string \<Rightarrow> string list option) \<Rightarrow> (string \<Rightarrow> user_error + Userrc) \<Rightarrow> config_error + CiConfig" where
  "ciconfig_read ktestrc list_dir read_userrc =
     (case ktestrc of
        Inl e \<Rightarrow> Inl (KtestrcError e)
      | Inr k \<Rightarrow>
          (case users_dir k of
             None \<Rightarrow> Inr \<lparr> ktest = k, users = bt_empty \<rparr>
           | Some dir \<Rightarrow>
               (case list_dir dir of
                  None \<Rightarrow> Inl (UsersDir dir)
                | Some names \<Rightarrow>
                    Inr \<lparr> ktest = k,
                          users = bt_extend bt_empty
                            (map (\<lambda>n. (fst (stem_extension n), read_userrc (path_join dir n)))
                               (filter (\<lambda>n. snd (stem_extension n) = Some ''json5'') names)) \<rparr>)))"

section \<open>Git\<close>

text \<open>\<open>walk r c\<close> is a revision walk started at a commit: \<open>None\<close> when it cannot be set up, an element is
  \<open>None\<close> when the iterator yields an error. \<open>find_commit r c\<close> is the message of a commit.
  Creating the walk is taken to succeed where \<open>lib.rs\<close> unwraps it.\<close>

record git2 =
  open_repo :: "string \<Rightarrow> bool"
  revparse_single :: "string \<Rightarrow> string \<Rightarrow> string option"
  peel_to_commit :: "string \<Rightarrow> string \<Rightarrow> string option"
  walk :: "string \<Rightarrow> string \<Rightarrow> string option list option"
  find_commit :: "string \<Rightarrow> string \<Rightarrow> string option"

definition git_get_commit :: "git2 \<Rightarrow> string \<Rightarrow> string \<Rightarrow> string option" where
  "git_get_commit G r reference =
     (case revparse_single G r reference of
        None \<Rightarrow> None
      | Some obj \<Rightarrow> peel_to_commit G r obj)"

definition branch_commits :: "git2 \<Rightarrow> string \<Rightarrow> string \<Rightarrow> nat \<Rightarrow> string list option" where
  "branch_commits G r userbranch mx =
     (case git_get_commit G r userbranch of
        None \<Rightarrow> None
      | Some c \<Rightarrow> map_option (\<lambda>ids. take mx (List.map_filter id ids)) (walk G r c))"

section \<open>Subtests of a test\<close>

record host =
  mtime_of :: "string \<Rightarrow> int option"
  list_tests :: "string \<Rightarrow> (bool \<times> string) option"

type_synonym subtest_cache = "string \<rightharpoonup> int \<times> string list"

definition list_subtests :: "host \<Rightarrow> string \<Rightarrow> string list" where
  "list_subtests H p =
     (case list_tests H p of
        Some (success, stdout) \<Rightarrow> if success then split_whitespace stdout else []
      | None \<Rightarrow> [])"

definition get_subtests :: "host \<Rightarrow> subtest_cache \<Rightarrow> string \<Rightarrow> string list \<times> subtest_cache" where
  "get_subtests H cache test_path =
     (let mtm = mtime_of H test_path;
          relist =
            (let subtests = list_subtests H test_path
             in (subtests,
                 case mtm of
                   Some mt \<Rightarrow> if subtests \<noteq> [] then cache(test_path \<mapsto> (mt, subtests)) else cache
                 | None \<Rightarrow> cache))
      in case mtm of
           None \<Rightarrow> relist
         | Some mt \<Rightarrow>
             (case cache test_path of
                None \<Rightarrow> relist
              | Some (cached_mt, subtests) \<Rightarrow> if cached_mt = mt then (subtests, cache) else relist))"

section \<open>Which jobs\<close>

record JobKey =
  jk_user :: string
  jk_repo :: string
  jk_commit :: string
  jk_kernel :: string
  jk_env :: string
  jk_test :: string
  jk_subtest :: string

record Job =
  job_key :: JobKey
  age :: u64
  job_niceness :: i64
  job_duration :: u64

definition result_is_done :: "TestStatus \<Rightarrow> bool" where
  "result_is_done s \<longleftrightarrow> s = Passed \<or> s = Failed \<or> s = Notrun \<or> s = FailedToRun"

definition job_wanted :: "TestStatus option \<Rightarrow> bool" where
  "job_wanted s =
     (case s of
        None \<Rightarrow> True
      | Some s \<Rightarrow> \<not> result_is_done s \<and> s \<noteq> Inprogress)"

definition job_nice :: "RcTestGroup \<Rightarrow> TestStats option \<Rightarrow> i64" where
  "job_nice tg stats =
     (case stats of
        None \<Rightarrow> nice tg
      | Some stats \<Rightarrow>
          (let n = nice tg;
               n = (if test_always_passes_nice tg \<noteq> 0 \<and> st_passed stats \<noteq> st_failed stats \<and>
                       st_passed stats + st_failed stats > test_always_passes_nice tg
                    then n + test_always_passes_nice tg else n)
           in if test_duration_nice tg \<noteq> 0 then n + st_duration stats div test_duration_nice tg else n))"

record TestSpec =
  ts_user :: string
  ts_repo :: string
  ts_test :: string
  ts_env :: string
  tg :: RcTestGroup
  subtests :: "string list"
  ts_kernels :: "string list"
  commits :: "string list"

text \<open>The loops of \<open>build_test_specs\<close>, innermost first: the tests of a group, the groups of a branch, the
  branches of a user, the users.\<close>

definition spec_test ::
  "host \<Rightarrow> CiConfig \<Rightarrow> string \<Rightarrow> RcBranch \<Rightarrow> string \<Rightarrow> RcTestGroup \<Rightarrow> string list \<Rightarrow> string
    \<Rightarrow> TestSpec list \<times> subtest_cache \<Rightarrow> TestSpec list \<times> subtest_cache" where
  "spec_test H rc user branchconfig en g cs test acc =
     (let (specs, cache) = acc;
          (subs, cache) = get_subtests H cache (path_join (path_join (ktest_dir (ktest rc)) ''tests'') test)
      in if subs = [] then (specs, cache)
         else (specs @ [\<lparr> ts_user = user, ts_repo = repo branchconfig, ts_test = test, ts_env = en, tg = g,
                          subtests = subs, ts_kernels = (if kernels g = [] then [''''] else kernels g),
                          commits = cs \<rparr>], cache))"

definition spec_group ::
  "git2 \<Rightarrow> host \<Rightarrow> CiConfig \<Rightarrow> string \<Rightarrow> Userrc \<Rightarrow> string \<Rightarrow> RcBranch \<Rightarrow> string
    \<Rightarrow> TestSpec list \<times> subtest_cache \<Rightarrow> TestSpec list \<times> subtest_cache" where
  "spec_group G H rc user userconfig branch branchconfig tg_name acc =
     (case bt_get (test_groups userconfig) tg_name of
        None \<Rightarrow> acc
      | Some g \<Rightarrow>
          (case encode_env (env g) of
             Inl _ \<Rightarrow> acc
           | Inr en \<Rightarrow>
               (case repo_path (ktest rc) (repo branchconfig) of
                  None \<Rightarrow> acc
                | Some rp \<Rightarrow>
                    if \<not> open_repo G rp then acc
                    else
                      (case branch_commits G rp (user @ ''/'' @ branch) (unat (max_commits g)) of
                         None \<Rightarrow> acc
                       | Some cs \<Rightarrow> fold (spec_test H rc user branchconfig en g cs) (tests g) acc))))"

definition spec_user ::
  "git2 \<Rightarrow> host \<Rightarrow> CiConfig \<Rightarrow> string \<times> (user_error + Userrc)
    \<Rightarrow> TestSpec list \<times> subtest_cache \<Rightarrow> TestSpec list \<times> subtest_cache" where
  "spec_user G H rc ue acc =
     (case snd ue of
        Inl _ \<Rightarrow> acc
      | Inr userconfig \<Rightarrow>
          fold (\<lambda>(branch, branchconfig).
                  fold (spec_group G H rc (fst ue) userconfig branch branchconfig) (branch_test_groups branchconfig))
            (branches userconfig) acc)"

definition build_test_specs ::
  "git2 \<Rightarrow> host \<Rightarrow> CiConfig \<Rightarrow> subtest_cache \<Rightarrow> TestSpec list \<times> subtest_cache" where
  "build_test_specs G H rc cache = fold (spec_user G H rc) (users rc) ([], cache)"

definition job_weight :: "Job \<Rightarrow> i64" where
  "job_weight j = age j + job_niceness j"

section \<open>The desired jobs\<close>

definition spec_jobs ::
  "durations_capnp \<Rightarrow> bytes option \<Rightarrow> CiConfig \<Rightarrow> TestResultsMap \<Rightarrow> nat \<Rightarrow> string \<Rightarrow> TestSpec \<Rightarrow> Job list" where
  "spec_jobs D durations rc results a commit spec =
     concat (map (\<lambda>subtest.
       (let n = job_nice (tg spec) (test_stats D durations (ts_test spec) subtest '''' '''')
        in List.map_filter (\<lambda>kern.
             (let d = unwrap_or (map_option st_duration
                        (test_stats D durations (ts_test spec) subtest kern (ts_env spec)))
                        (unwrap_or (subtest_duration_def (ktest rc)) 30);
                  key = subtest_result_key (ts_test spec) subtest kern (ts_env spec)
              in if \<not> job_wanted (map_option status (bt_get results key)) then None
                 else Some \<lparr> job_key =
                               \<lparr> jk_user = ts_user spec, jk_repo = ts_repo spec, jk_commit = commit, jk_kernel = kern,
                                 jk_env = ts_env spec, jk_test = ts_test spec, jk_subtest = subtest \<rparr>,
                             age = of_nat a, job_niceness = n, job_duration = d \<rparr>))
             (ts_kernels spec))) (subtests spec))"

definition emit_spec ::
  "durations_capnp \<Rightarrow> bytes option \<Rightarrow> CiConfig \<Rightarrow> store \<Rightarrow> nat \<Rightarrow> TestSpec
    \<Rightarrow> (string \<rightharpoonup> TestResultsMap) \<times> Job list \<Rightarrow> (string \<rightharpoonup> TestResultsMap) \<times> Job list" where
  "emit_spec D durations rc st a spec acc =
     (if a < length (commits spec) then
        (let (results_cache, out) = acc;
             commit = commits spec ! a;
             results =
               (case results_cache commit of
                  Some m \<Rightarrow> m
                | None \<Rightarrow> unwrap_or (commit_results st commit) bt_empty)
         in (results_cache(commit \<mapsto> results), out @ spec_jobs D durations rc results a commit spec))
      else acc)"

definition max_age :: "TestSpec list \<Rightarrow> nat" where
  "max_age specs = fold max (map (\<lambda>s. length (commits s)) specs) 0"

definition all_jobs ::
  "durations_capnp \<Rightarrow> bytes option \<Rightarrow> CiConfig \<Rightarrow> store \<Rightarrow> TestSpec list \<Rightarrow> Job list" where
  "all_jobs D durations rc st specs =
     snd (fold (\<lambda>a. fold (emit_spec D durations rc st a) specs) [0..<max_age specs] (Map.empty, []))"

text \<open>The order of the jobs: \<open>sort_by\<close> is a stable sort, and the comparisons chained with \<open>then\<close> are the
  lexicographic order of the tuple.\<close>

definition job_order :: "Job \<Rightarrow> int \<times> string \<times> string \<times> string \<times> string \<times> nat" where
  "job_order j =
     (sint (job_weight j), jk_commit (job_key j), jk_test (job_key j), jk_kernel (job_key j), jk_env (job_key j),
      unat (job_duration j))"

fun retain_first :: "JobKey set \<Rightarrow> Job list \<Rightarrow> Job list" where
  "retain_first seen [] = []"
| "retain_first seen (j # js) =
     (if job_key j \<in> seen then retain_first seen js
      else j # retain_first (insert (job_key j) seen) js)"

definition durations_map :: "disk \<Rightarrow> bytes option" where
  "durations_map d =
     (case read_file d durations_name of
        None \<Rightarrow> None
      | Some (b, _) \<Rightarrow> if b = [] then None else Some b)"

definition desired_jobs ::
  "durations_capnp \<Rightarrow> git2 \<Rightarrow> host \<Rightarrow> CiConfig \<Rightarrow> store \<Rightarrow> subtest_cache \<Rightarrow> nat \<Rightarrow> Job list \<times> subtest_cache" where
  "desired_jobs D G H rc st cache limit =
     (let durations = durations_map (dsk st);
          (specs, cache) = build_test_specs G H rc cache;
          out = sort_key job_order (all_jobs D durations rc st specs)
      in (take limit (retain_first {} out), cache))"

section \<open>The matrix as a set\<close>

text \<open>The job a point of the matrix stands for, and the points that are wanted.\<close>

definition job_of ::
  "durations_capnp \<Rightarrow> bytes option \<Rightarrow> CiConfig \<Rightarrow> TestSpec \<Rightarrow> nat \<Rightarrow> string \<Rightarrow> string \<Rightarrow> Job" where
  "job_of D durations rc spec a subtest kern =
     \<lparr> job_key = \<lparr> jk_user = ts_user spec, jk_repo = ts_repo spec, jk_commit = commits spec ! a, jk_kernel = kern,
                   jk_env = ts_env spec, jk_test = ts_test spec, jk_subtest = subtest \<rparr>,
       age = of_nat a,
       job_niceness = job_nice (tg spec) (test_stats D durations (ts_test spec) subtest '''' ''''),
       job_duration = unwrap_or (map_option st_duration (test_stats D durations (ts_test spec) subtest kern (ts_env spec)))
                        (unwrap_or (subtest_duration_def (ktest rc)) 30) \<rparr>"

definition wanted_jobs ::
  "durations_capnp \<Rightarrow> bytes option \<Rightarrow> CiConfig \<Rightarrow> store \<Rightarrow> TestSpec list \<Rightarrow> Job set" where
  "wanted_jobs D durations rc st specs =
     {j. \<exists>spec \<in> set specs. \<exists>a < length (commits spec). \<exists>subtest \<in> set (subtests spec). \<exists>kern \<in> set (ts_kernels spec).
        j = job_of D durations rc spec a subtest kern \<and>
        job_wanted (lookup st (commits spec ! a) (subtest_result_key (ts_test spec) subtest kern (ts_env spec)))}"

lemma map_filter_set: "set (List.map_filter f xs) = {y. \<exists>x \<in> set xs. f x = Some y}"
  by (induction xs) (auto simp: map_filter_simps split: option.splits)

lemma set_spec_jobs:
  "set (spec_jobs D durations rc results a (commits spec ! a) spec) =
     {j. \<exists>subtest \<in> set (subtests spec). \<exists>kern \<in> set (ts_kernels spec).
        j = job_of D durations rc spec a subtest kern \<and>
        job_wanted (map_option status (bt_get results (subtest_result_key (ts_test spec) subtest kern (ts_env spec))))}"
  by (auto simp: spec_jobs_def map_filter_set Let_def job_of_def split: if_splits)

text \<open>The cache of results is transparent.\<close>

definition snapshot :: "store \<Rightarrow> string \<Rightarrow> TestResultsMap" where
  "snapshot st commit = unwrap_or (commit_results st commit) bt_empty"

lemma snapshot_lookup: "map_option status (bt_get (snapshot st c) k) = lookup st c k"
  by (simp add: snapshot_def lookup_def commit_results_def unwrap_or_def split: option.splits)

definition cache_true :: "store \<Rightarrow> (string \<rightharpoonup> TestResultsMap) \<Rightarrow> bool" where
  "cache_true st cache \<longleftrightarrow> (\<forall>c m. cache c = Some m \<longrightarrow> m = snapshot st c)"

definition jobs_at ::
  "durations_capnp \<Rightarrow> bytes option \<Rightarrow> CiConfig \<Rightarrow> store \<Rightarrow> nat \<Rightarrow> TestSpec \<Rightarrow> Job list" where
  "jobs_at D durations rc st a spec =
     (if a < length (commits spec)
      then spec_jobs D durations rc (snapshot st (commits spec ! a)) a (commits spec ! a) spec else [])"

text \<open>A loop that extends a list and keeps an invariant of the rest of its state.\<close>

lemma fold_append:
  assumes "\<And>x s ys. x \<in> set xs \<Longrightarrow> P s \<Longrightarrow> \<exists>s'. f x (s, ys) = (s', ys @ g x) \<and> P s'" and "P s"
  shows "\<exists>s'. fold f xs (s, ys) = (s', ys @ concat (map g xs)) \<and> P s'"
  using assms
proof (induction xs arbitrary: s ys)
  case (Cons x xs)
  obtain s1 where s1: "f x (s, ys) = (s1, ys @ g x)" "P s1"
    using Cons.prems(1) [of x s ys] Cons.prems(2) by auto
  from Cons.IH [OF Cons.prems(1) s1(2), of "ys @ g x"] s1(1) show ?case by simp
qed simp

lemma emit_spec_step:
  "cache_true st cache \<Longrightarrow>
     \<exists>cache'. emit_spec D durations rc st a spec (cache, out) = (cache', out @ jobs_at D durations rc st a spec) \<and>
       cache_true st cache'"
  by (auto simp: emit_spec_def jobs_at_def cache_true_def Let_def snapshot_def split: option.splits)

lemma all_jobs_eq:
  "all_jobs D durations rc st specs =
     concat (map (\<lambda>a. concat (map (jobs_at D durations rc st a) specs)) [0..<max_age specs])"
proof -
  have "cache_true st Map.empty" by (simp add: cache_true_def)
  from fold_append [where P = "cache_true st" and f = "\<lambda>a. fold (emit_spec D durations rc st a) specs"
      and g = "\<lambda>a. concat (map (jobs_at D durations rc st a) specs)", OF _ this, of "[0..<max_age specs]" "[]"]
    fold_append [where P = "cache_true st", OF emit_spec_step]
  show ?thesis by (fastforce simp: all_jobs_def)
qed

lemma max_age_ge: "spec \<in> set specs \<Longrightarrow> length (commits spec) \<le> max_age specs"
proof -
  have mono: "a \<le> fold max xs a" for xs and a :: nat
    by (induction xs arbitrary: a) (auto intro: order_trans [OF max.cobounded2])
  have "x \<in> set xs \<Longrightarrow> x \<le> fold max xs a" for x xs and a :: nat
    by (induction xs arbitrary: a) (auto intro: order_trans [OF max.cobounded1 mono])
  then show "spec \<in> set specs \<Longrightarrow> length (commits spec) \<le> max_age specs" by (auto simp: max_age_def)
qed

lemma set_all_jobs: "set (all_jobs D durations rc st specs) = wanted_jobs D durations rc st specs"
proof -
  have "set (jobs_at D durations rc st a spec) =
      {j. a < length (commits spec) \<and> (\<exists>subtest \<in> set (subtests spec). \<exists>kern \<in> set (ts_kernels spec).
        j = job_of D durations rc spec a subtest kern \<and>
        job_wanted (lookup st (commits spec ! a) (subtest_result_key (ts_test spec) subtest kern (ts_env spec))))}" for a spec
    by (simp add: jobs_at_def set_spec_jobs snapshot_lookup)
  moreover have "a < max_age specs" if "spec \<in> set specs" "a < length (commits spec)" for a spec
    using max_age_ge [OF that(1)] that(2) by simp
  ultimately show ?thesis unfolding all_jobs_eq wanted_jobs_def by fastforce
qed

section \<open>Keeping the first of each key\<close>

lemma retain_first_subset: "set (retain_first seen js) \<subseteq> set js"
  by (induction seen js rule: retain_first.induct) auto

lemma retain_first_keys: "job_key ` set (retain_first seen js) = job_key ` set js - seen"
  by (induction seen js rule: retain_first.induct) auto

lemma retain_first_distinct: "distinct (map job_key (retain_first seen js))"
proof (induction seen js rule: retain_first.induct)
  case (2 seen j js)
  moreover have "job_key j \<notin> job_key ` set (retain_first (insert (job_key j) seen) js)"
    by (simp add: retain_first_keys)
  ultimately show ?case by auto
qed simp

lemma retain_first_sorted: "sorted (map g js) \<Longrightarrow> sorted (map g (retain_first seen js))"
  by (induction seen js rule: retain_first.induct) (use retain_first_subset in fastforce)+

lemma retain_first_best:
  assumes "sorted (map g js)" and "j \<in> set (retain_first seen js)" and "j' \<in> set js" and "job_key j' = job_key j"
  shows "g j \<le> g j'"
  using assms
proof (induction seen js rule: retain_first.induct)
  case (2 seen i js)
  have notin: "x \<in> set (retain_first s js) \<Longrightarrow> job_key x \<notin> s" for x s
    using retain_first_keys [of s js] by blast
  show ?case
  proof (cases "job_key i \<in> seen")
    case True
    then have "j' \<noteq> i" using "2.prems"(2,4) notin [of j seen] by auto
    then show ?thesis using "2.IH"(1) True "2.prems" by simp
  next
    case False
    then consider "j = i" | "j \<in> set (retain_first (insert (job_key i) seen) js)" using "2.prems"(2) by auto
    then show ?thesis
    proof cases
      case 1
      then show ?thesis using "2.prems"(1,3) by auto
    next
      case 2
      with notin have "job_key j \<noteq> job_key i" by blast
      then have "j' \<in> set js" using "2.prems"(3,4) by auto
      then show ?thesis using "2.IH"(2) False 2 "2.prems"(1,4) by simp
    qed
  qed
qed simp

lemma sorted_take:
  assumes "sorted (map g xs)" and "y \<in> set xs" and "y \<notin> set (take n xs)"
  shows "length (take n xs) = n \<and> (\<forall>x \<in> set (take n xs). g x \<le> g y)"
proof -
  have y: "y \<in> set (drop n xs)" using assms(2,3) by (metis Un_iff append_take_drop_id set_append)
  then have "n < length xs" by (metis drop_eq_Nil empty_iff list.set(1) not_le)
  then show ?thesis
    using y assms(1) sorted_append [of "map g (take n xs)" "map g (drop n xs)"]
    by (auto simp flip: map_append)
qed

section \<open>Subtests\<close>

text \<open>A cache entry that is still valid holds what the file lists.\<close>

definition cache_fresh :: "host \<Rightarrow> subtest_cache \<Rightarrow> bool" where
  "cache_fresh H cache \<longleftrightarrow>
     (\<forall>p mt subs. cache p = Some (mt, subs) \<and> mtime_of H p = Some mt \<longrightarrow> subs = list_subtests H p)"

lemma get_subtests_fresh:
  "cache_fresh H cache \<Longrightarrow>
     \<exists>cache'. get_subtests H cache p = (list_subtests H p, cache') \<and> cache_fresh H cache'"
  by (auto simp: get_subtests_def cache_fresh_def Let_def split: option.splits)

section \<open>The specs\<close>

definition spec_of ::
  "host \<Rightarrow> CiConfig \<Rightarrow> string \<Rightarrow> RcBranch \<Rightarrow> string \<Rightarrow> RcTestGroup \<Rightarrow> string list \<Rightarrow> string \<Rightarrow> TestSpec list" where
  "spec_of H rc user branchconfig en g cs test =
     (let subs = list_subtests H (path_join (path_join (ktest_dir (ktest rc)) ''tests'') test)
      in if subs = [] then []
         else [\<lparr> ts_user = user, ts_repo = repo branchconfig, ts_test = test, ts_env = en, tg = g, subtests = subs,
                 ts_kernels = (if kernels g = [] then [''''] else kernels g), commits = cs \<rparr>])"

text \<open>The same loop lemma, with the list first.\<close>

lemma fold_append':
  assumes "\<And>x s ys. x \<in> set xs \<Longrightarrow> P s \<Longrightarrow> \<exists>s'. f x (ys, s) = (ys @ g x, s') \<and> P s'" and "P s"
  shows "\<exists>s'. fold f xs (ys, s) = (ys @ concat (map g xs), s') \<and> P s'"
  using assms
proof (induction xs arbitrary: s ys)
  case (Cons x xs)
  obtain s1 where s1: "f x (ys, s) = (ys @ g x, s1)" "P s1"
    using Cons.prems(1) [of x s ys] Cons.prems(2) by auto
  from Cons.IH [OF Cons.prems(1) s1(2), of "ys @ g x"] s1(1) show ?case by simp
qed simp

lemma spec_test_step:
  "cache_fresh H cache \<Longrightarrow>
     \<exists>cache'. spec_test H rc user b en g cs test (specs, cache) =
       (specs @ spec_of H rc user b en g cs test, cache') \<and> cache_fresh H cache'"
  using get_subtests_fresh [of H cache "path_join (path_join (ktest_dir (ktest rc)) ''tests'') test"]
  by (auto simp: spec_test_def spec_of_def Let_def)

text \<open>The groups of a branch that reach the loop over their tests.\<close>

definition group_ready ::
  "git2 \<Rightarrow> CiConfig \<Rightarrow> string \<Rightarrow> Userrc \<Rightarrow> string \<Rightarrow> RcBranch \<Rightarrow> string \<Rightarrow> (RcTestGroup \<times> string \<times> string list) option" where
  "group_ready G rc user userconfig branch branchconfig tg_name =
     (case (bt_get (test_groups userconfig) tg_name, repo_path (ktest rc) (repo branchconfig)) of
        (Some g, Some rp) \<Rightarrow>
          (case (encode_env (env g), branch_commits G rp (user @ ''/'' @ branch) (unat (max_commits g))) of
             (Inr en, Some cs) \<Rightarrow> if open_repo G rp then Some (g, en, cs) else None
           | _ \<Rightarrow> None)
      | _ \<Rightarrow> None)"

definition group_specs ::
  "git2 \<Rightarrow> host \<Rightarrow> CiConfig \<Rightarrow> string \<Rightarrow> Userrc \<Rightarrow> string \<Rightarrow> RcBranch \<Rightarrow> string \<Rightarrow> TestSpec list" where
  "group_specs G H rc user userconfig branch branchconfig tg_name =
     (case group_ready G rc user userconfig branch branchconfig tg_name of
        None \<Rightarrow> []
      | Some (g, en, cs) \<Rightarrow> concat (map (spec_of H rc user branchconfig en g cs) (tests g)))"

lemma spec_group_step:
  assumes "cache_fresh H cache"
  shows "\<exists>cache'. spec_group G H rc user u branch b tg_name (specs, cache) =
    (specs @ group_specs G H rc user u branch b tg_name, cache') \<and> cache_fresh H cache'"
proof (cases "group_ready G rc user u branch b tg_name")
  case None
  then show ?thesis
    using assms by (auto simp: spec_group_def group_specs_def group_ready_def split: option.splits sum.splits if_splits)
next
  case (Some x)
  obtain g en cs where x: "x = (g, en, cs)" using prod_cases3 by blast
  have "spec_group G H rc user u branch b tg_name (specs, cache) =
      fold (spec_test H rc user b en g cs) (tests g) (specs, cache)"
    using Some by (auto simp: x spec_group_def group_ready_def split: option.splits sum.splits if_splits)
  then show ?thesis
    using fold_append' [where P = "cache_fresh H", OF spec_test_step assms] Some
    by (simp add: x group_specs_def)
qed

definition user_specs :: "git2 \<Rightarrow> host \<Rightarrow> CiConfig \<Rightarrow> string \<times> (user_error + Userrc) \<Rightarrow> TestSpec list" where
  "user_specs G H rc ue =
     (case snd ue of
        Inl _ \<Rightarrow> []
      | Inr u \<Rightarrow>
          concat (map (\<lambda>(branch, b). concat (map (group_specs G H rc (fst ue) u branch b) (branch_test_groups b)))
            (branches u)))"

lemma spec_user_step:
  assumes "cache_fresh H cache"
  shows "\<exists>cache'. spec_user G H rc ue (specs, cache) = (specs @ user_specs G H rc ue, cache') \<and> cache_fresh H cache'"
proof (cases "snd ue")
  case (Inl e)
  then show ?thesis using assms by (simp add: spec_user_def user_specs_def)
next
  case (Inr u)
  have branch: "\<exists>cache'. (case x of (branch, b) \<Rightarrow> fold (spec_group G H rc (fst ue) u branch b) (branch_test_groups b)) (specs, cache) =
      (specs @ (case x of (branch, b) \<Rightarrow> concat (map (group_specs G H rc (fst ue) u branch b) (branch_test_groups b))), cache') \<and>
      cache_fresh H cache'" if "cache_fresh H cache" for x specs cache
    using fold_append' [where P = "cache_fresh H", OF spec_group_step that] by (cases x) auto
  show ?thesis
    using fold_append' [where P = "cache_fresh H", OF branch assms] Inr
    by (simp add: spec_user_def user_specs_def)
qed

lemma build_test_specs_eq:
  assumes "cache_fresh H cache"
  shows "\<exists>cache'. build_test_specs G H rc cache = (concat (map (user_specs G H rc) (users rc)), cache') \<and> cache_fresh H cache'"
  using fold_append' [where P = "cache_fresh H" and f = "spec_user G H rc" and g = "user_specs G H rc"
      and ys = "[]", OF spec_user_step assms]
  by (simp add: build_test_specs_def)

section \<open>Weights\<close>

text \<open>Unsigned sums that do not reach the sign bit are exact.\<close>

lemma unat_add_exact: "unat (x :: u64) + unat y < 2 ^ 64 \<Longrightarrow> unat (x + y) = unat x + unat y"
  by (simp add: unat_word_ariths(1))

lemma sint_exact: "unat (x :: i64) < 2 ^ 63 \<Longrightarrow> sint x = int (unat x)"
proof -
  assume "unat x < 2 ^ 63"
  then have "uint x < 2 ^ 63" by (simp add: nat_less_iff flip: nat_uint_eq)
  then have "signed_take_bit 63 (uint x) = uint x"
    by (intro signed_take_bit_int_eq_self) (auto intro: order_trans [OF _ uint_ge_0])
  then show ?thesis by (simp add: sint_uint)
qed

definition nice_sum :: "RcTestGroup \<Rightarrow> TestStats option \<Rightarrow> nat" where
  "nice_sum g stats =
     unat (nice g) +
     (case stats of
        None \<Rightarrow> 0
      | Some s \<Rightarrow>
          (if test_always_passes_nice g \<noteq> 0 \<and> st_passed s \<noteq> st_failed s \<and>
              st_passed s + st_failed s > test_always_passes_nice g
           then unat (test_always_passes_nice g) else 0) +
          (if test_duration_nice g \<noteq> 0 then unat (st_duration s) div unat (test_duration_nice g) else 0))"

lemma job_nice_exact: "nice_sum g stats < 2 ^ 64 \<Longrightarrow> unat (job_nice g stats) = nice_sum g stats"
  by (auto simp: job_nice_def nice_sum_def Let_def unat_add_exact unat_div split: option.splits if_splits)

section \<open>A configuration\<close>

text \<open>One user with one branch and one test of two subtests; the branch has two commits.\<close>

definition sample_group :: RcTestGroup where
  "sample_group = \<lparr> max_commits = 2, nice = 3, test_duration_nice = 180, test_always_passes_nice = 10,
     tests = [''ec.ktest''], kernels = [], env = [] \<rparr>"

definition sample_ktestrc :: Ktestrc where
  "sample_ktestrc = \<lparr> linux_repo = ''/linux'', output_dir = ''/out'', ktest_dir = ''/ktest'', ktest_url = None,
     repos = [], ci_url = None, ci_remote = None, ci_host = None, users_dir = None, subtest_duration_max = None,
     subtest_duration_def = None, keep_results_commits = None, verbose = False, user_nice = [], executors = [] \<rparr>"

definition sample_branch :: RcBranch where
  "sample_branch = \<lparr> fetch = ''origin master'', repo = ''linux'', branch_test_groups = [''fs''] \<rparr>"

definition sample_userrc :: Userrc where
  "sample_userrc = \<lparr> test_groups = [(''fs'', sample_group)], branches = [(''master'', sample_branch)] \<rparr>"

definition sample_rc :: CiConfig where
  "sample_rc = \<lparr> ktest = sample_ktestrc, users = [(''kent'', Inr sample_userrc)] \<rparr>"

definition sample_git :: git2 where
  "sample_git = \<lparr> open_repo = (\<lambda>_. True), revparse_single = (\<lambda>_ r. Some r), peel_to_commit = (\<lambda>_ _. Some ''c0''),
     walk = (\<lambda>_ _. Some [Some ''c0'', None, Some ''c1'']), find_commit = (\<lambda>_ _. Some ''msg'') \<rparr>"

definition sample_host :: host where
  "sample_host = \<lparr> mtime_of = (\<lambda>_. Some 5), list_tests = (\<lambda>_. Some (True, ''a b'')) \<rparr>"

definition sample_spec :: TestSpec where
  "sample_spec = \<lparr> ts_user = ''kent'', ts_repo = ''linux'', ts_test = ''ec.ktest'', ts_env = [], tg = sample_group,
     subtests = [''a'', ''b''], ts_kernels = [''''], commits = [''c0'', ''c1''] \<rparr>"

lemma sample_subtests: "list_subtests sample_host p = [''a'', ''b'']"
  by (simp add: list_subtests_def sample_host_def split_whitespace_def is_whitespace_def)

lemma sample_specs: "fst (build_test_specs sample_git sample_host sample_rc Map.empty) = [sample_spec]"
proof -
  have "encode_env (env sample_group) = Inr []"
    by (simp add: sample_group_def encode_env_def)
  then have "user_specs sample_git sample_host sample_rc (''kent'', Inr sample_userrc) = [sample_spec]"
    by (simp add: user_specs_def sample_userrc_def sample_branch_def group_specs_def group_ready_def spec_of_def
        repo_path_def sample_rc_def sample_ktestrc_def sample_git_def branch_commits_def git_get_commit_def
        sample_subtests sample_spec_def sample_group_def map_filter_simps)
  then show ?thesis
    using build_test_specs_eq [of sample_host Map.empty sample_git sample_rc]
    by (auto simp: cache_fresh_def sample_rc_def)
qed

text \<open>The specs of a configuration.\<close>

lemma build_test_specs_iff:
  assumes "cache_fresh H cache"
  shows "spec \<in> set (fst (build_test_specs G H rc cache)) \<longleftrightarrow>
    (\<exists>user u branch b n g en rp ids test subs tip.
       (user, Inr u) \<in> set (users rc) \<and> (branch, b) \<in> set (branches u) \<and> n \<in> set (branch_test_groups b) \<and>
       bt_get (test_groups u) n = Some g \<and> encode_env (env g) = Inr en \<and>
       repo_path (ktest rc) (repo b) = Some rp \<and> open_repo G rp \<and>
       git_get_commit G rp (user @ ''/'' @ branch) = Some tip \<and> walk G rp tip = Some ids \<and>
       test \<in> set (tests g) \<and>
       subs = list_subtests H (path_join (path_join (ktest_dir (ktest rc)) ''tests'') test) \<and> subs \<noteq> [] \<and>
       spec = \<lparr> ts_user = user, ts_repo = repo b, ts_test = test, ts_env = en, tg = g, subtests = subs,
                ts_kernels = (if kernels g = [] then [''''] else kernels g),
                commits = take (unat (max_commits g)) (List.map_filter id ids) \<rparr>)"
    (is "_ \<longleftrightarrow> ?configured")
proof -
  have ready: "group_ready G rc user u branch b n = Some (g, en, cs) \<longleftrightarrow>
      (\<exists>rp tip ids. bt_get (test_groups u) n = Some g \<and> encode_env (env g) = Inr en \<and>
        repo_path (ktest rc) (repo b) = Some rp \<and> open_repo G rp \<and>
        git_get_commit G rp (user @ ''/'' @ branch) = Some tip \<and> walk G rp tip = Some ids \<and>
        cs = take (unat (max_commits g)) (List.map_filter id ids))" for user u branch b n g en cs
    by (auto simp: group_ready_def branch_commits_def split: option.splits sum.splits if_splits)
  have gs: "spec \<in> set (group_specs G H rc user u branch b n) \<longleftrightarrow>
      (\<exists>g en cs test. group_ready G rc user u branch b n = Some (g, en, cs) \<and> test \<in> set (tests g) \<and>
        spec \<in> set (spec_of H rc user b en g cs test))" for user u branch b n
    by (cases "group_ready G rc user u branch b n") (auto simp: group_specs_def)
  have mem: "spec \<in> set (spec_of H rc user b en g cs test) \<longleftrightarrow>
      (\<exists>subs. subs = list_subtests H (path_join (path_join (ktest_dir (ktest rc)) ''tests'') test) \<and> subs \<noteq> [] \<and>
        spec = \<lparr> ts_user = user, ts_repo = repo b, ts_test = test, ts_env = en, tg = g, subtests = subs,
                ts_kernels = (if kernels g = [] then [''''] else kernels g), commits = cs \<rparr>)" for user b en g cs test
    by (auto simp: spec_of_def Let_def)
  have us: "spec \<in> set (user_specs G H rc ue) \<longleftrightarrow>
      (\<exists>u. snd ue = Inr u \<and> (\<exists>branch b n. (branch, b) \<in> set (branches u) \<and> n \<in> set (branch_test_groups b) \<and>
        spec \<in> set (group_specs G H rc (fst ue) u branch b n)))" for ue
    by (cases "snd ue") (force simp: user_specs_def)+

  have "spec \<in> set (fst (build_test_specs G H rc cache)) \<longleftrightarrow> (\<exists>ue \<in> set (users rc). spec \<in> set (user_specs G H rc ue))"
    using build_test_specs_eq [OF assms, of G rc] by auto
  also have "\<dots> \<longleftrightarrow> (\<exists>user u branch b n g en cs test. (user, Inr u) \<in> set (users rc) \<and>
      (branch, b) \<in> set (branches u) \<and> n \<in> set (branch_test_groups b) \<and>
      group_ready G rc user u branch b n = Some (g, en, cs) \<and> test \<in> set (tests g) \<and>
      spec \<in> set (spec_of H rc user b en g cs test))"
    by (simp only: us gs Bex_def split_paired_Ex fst_conv snd_conv) blast
  also have "\<dots> \<longleftrightarrow> ?configured"
    unfolding ready mem
    by (rule iffI; elim exE conjE; intro exI conjI; (assumption | rule HOL.refl | simp only:))
  finally show ?thesis .
qed

section \<open>Properties\<close>

text \<open>C3: \<open>desired_jobs\<close> returns the best jobs first. With \<open>W\<close> the set of jobs at the points of the matrix
  (spec, age, subtest, kernel) whose subtest has neither a verdict nor a run in progress in the
  store: no two returned jobs have the same key; they are in the order of weight, commit, test, kernel, environment and
  duration; there are at most \<open>limit\<close>; each is a job of \<open>W\<close>, and the best of those with its key; and
  a key of \<open>W\<close> is missing only when the limit is reached and every returned job is at least as good.\<close>

theorem desired_jobs_best_first:
  assumes "js = fst (desired_jobs D G H rc st cache limit)"
    and "W = wanted_jobs D (durations_map (dsk st)) rc st (fst (build_test_specs G H rc cache))"
  shows "distinct (map job_key js) \<and> sorted (map job_order js) \<and> length js \<le> limit \<and>
    (\<forall>j \<in> set js. j \<in> W \<and> (\<forall>j' \<in> W. job_key j' = job_key j \<longrightarrow> job_order j \<le> job_order j')) \<and>
    (\<forall>j' \<in> W. (\<exists>j \<in> set js. job_key j = job_key j') \<or>
       (length js = limit \<and> (\<forall>j \<in> set js. job_order j \<le> job_order j')))"
proof -
  define out where "out = sort_key job_order (all_jobs D (durations_map (dsk st)) rc st (fst (build_test_specs G H rc cache)))"
  have js: "js = take limit (retain_first {} out)"
    by (simp add: assms(1) desired_jobs_def out_def Let_def case_prod_unfold)
  have W: "W = set out" by (simp add: assms(2) out_def set_all_jobs)
  have s: "sorted (map job_order out)" by (simp add: out_def)
  note rs = retain_first_sorted [OF s, of "{}"]
  have sub: "set js \<subseteq> set (retain_first {} out)" unfolding js by (rule set_take_subset)
  have "distinct (map job_key js)" "sorted (map job_order js)"
    unfolding js take_map [symmetric]
    using retain_first_distinct rs by (auto intro: distinct_take sorted_wrt_take)
  moreover have "j \<in> W \<and> (\<forall>j' \<in> W. job_key j' = job_key j \<longrightarrow> job_order j \<le> job_order j')" if "j \<in> set js" for j
    using that sub retain_first_subset [of "{}" out] retain_first_best [OF s, of j "{}"] W by blast
  moreover have "(\<exists>j \<in> set js. job_key j = job_key j') \<or>
      (length js = limit \<and> (\<forall>j \<in> set js. job_order j \<le> job_order j'))" if "j' \<in> W" for j'
  proof -
    obtain i where i: "i \<in> set (retain_first {} out)" "job_key i = job_key j'"
      using retain_first_keys [of "{}" out] \<open>j' \<in> W\<close> W by (metis Diff_empty imageE image_eqI)
    have best: "job_order i \<le> job_order j'" using retain_first_best [OF s i(1)] i(2) \<open>j' \<in> W\<close> W by simp
    show ?thesis
    proof (cases "i \<in> set js")
      case False
      then have "length js = limit \<and> (\<forall>j \<in> set js. job_order j \<le> job_order i)"
        using sorted_take [OF rs i(1)] unfolding js by simp
      then show ?thesis using best order_trans by blast
    qed (use i(2) in blast)
  qed
  ultimately show ?thesis unfolding js by simp
qed

theorem desired_jobs_best_first_witness:
  "\<exists>j. j \<in> wanted_jobs sample_durations (durations_map (dsk sample_store)) sample_rc sample_store
        (fst (build_test_specs sample_git sample_host sample_rc Map.empty)) \<and> jk_commit (job_key j) = ''c1'' \<and>
     ((\<exists>i \<in> set (fst (desired_jobs sample_durations sample_git sample_host sample_rc sample_store Map.empty 2)).
         job_key i = job_key j) \<or>
      length (fst (desired_jobs sample_durations sample_git sample_host sample_rc sample_store Map.empty 2)) = 2)"
proof -
  let ?j = "job_of sample_durations (durations_map (dsk sample_store)) sample_rc sample_spec 1 ''b'' ''''"
  let ?W = "wanted_jobs sample_durations (durations_map (dsk sample_store)) sample_rc sample_store
        (fst (build_test_specs sample_git sample_host sample_rc Map.empty))"
  have "lookup sample_store c k = None" for c k by (simp add: lookup_def sample_store_def)
  then have j: "?j \<in> ?W"
    unfolding sample_specs wanted_jobs_def
    by (intro CollectI bexI [of _ sample_spec] exI [of _ 1] bexI [of _ "''b''"] bexI [of _ "''''"])
      (simp_all add: sample_spec_def job_wanted_def)
  moreover have "jk_commit (job_key ?j) = ''c1''" by (simp add: job_of_def sample_spec_def)
  moreover note desired_jobs_best_first [OF HOL.refl HOL.refl, of sample_durations sample_git sample_host sample_rc
      sample_store Map.empty 2]
  ultimately show ?thesis by blast
qed

text \<open>C21: \<open>build_test_specs\<close> has a spec exactly for each test of each group of each branch of each user whose
  configuration was read, when the group exists and its environment can be encoded, its repository is configured and opens,
  the branch resolves, and the test lists at least one subtest. The commits are the first \<open>max_commits\<close> of the branch, and a group
  without kernels has the empty kernel.\<close>

theorem build_test_specs_correct:
  assumes "cache_fresh H cache"
  shows "spec \<in> set (fst (build_test_specs G H rc cache)) \<longleftrightarrow>
    (\<exists>user u branch b n g en rp ids test subs tip.
       (user, Inr u) \<in> set (users rc) \<and> (branch, b) \<in> set (branches u) \<and> n \<in> set (branch_test_groups b) \<and>
       bt_get (test_groups u) n = Some g \<and> encode_env (env g) = Inr en \<and>
       repo_path (ktest rc) (repo b) = Some rp \<and> open_repo G rp \<and>
       git_get_commit G rp (user @ ''/'' @ branch) = Some tip \<and> walk G rp tip = Some ids \<and>
       test \<in> set (tests g) \<and>
       subs = list_subtests H (path_join (path_join (ktest_dir (ktest rc)) ''tests'') test) \<and> subs \<noteq> [] \<and>
       spec = \<lparr> ts_user = user, ts_repo = repo b, ts_test = test, ts_env = en, tg = g, subtests = subs,
                ts_kernels = (if kernels g = [] then [''''] else kernels g),
                commits = take (unat (max_commits g)) (List.map_filter id ids) \<rparr>)"
  by (rule build_test_specs_iff [OF assms])

theorem build_test_specs_correct_witness:
  "sample_spec \<in> set (fst (build_test_specs sample_git sample_host sample_rc Map.empty))"
proof -
  have fresh: "cache_fresh sample_host Map.empty" by (simp add: cache_fresh_def)
  show ?thesis
    unfolding build_test_specs_correct [OF fresh]
    by (rule exI [of _ "''kent''"], rule exI [of _ sample_userrc], rule exI [of _ "''master''"],
        rule exI [of _ sample_branch], rule exI [of _ "''fs''"], rule exI [of _ sample_group], rule exI [of _ "[]"],
        rule exI [of _ "''/linux''"], rule exI [of _ "[Some ''c0'', None, Some ''c1'']"], rule exI [of _ "''ec.ktest''"],
        rule exI [of _ "[''a'', ''b'']"], rule exI [of _ "''c0''"])
      (simp add: sample_rc_def sample_userrc_def sample_branch_def sample_group_def encode_env_def repo_path_def
        sample_ktestrc_def sample_git_def git_get_commit_def sample_subtests sample_spec_def map_filter_simps)
qed

text \<open>C33: The cache of subtests never serves a stale list. Let \<open>content p t\<close> be what the file \<open>p\<close> lists in the version
  with modification time \<open>t\<close>, and let listing it either give that or fail. Then \<open>get_subtests\<close> on a cache filled under
  the same contract returns the list of the current version or nothing; it returns the list whenever
  it is cached or the listing succeeds; failures are not cached; and the contract holds for the new cache.\<close>

theorem get_subtests_never_stale:
  assumes "\<forall>q t subs. cache q = Some (t, subs) \<longrightarrow> subs = content q t \<and> subs \<noteq> []"
    and "mtime_of H p = Some mt" and "list_subtests H p = content p mt \<or> list_subtests H p = []"
    and "get_subtests H cache p = (subs, cache')"
  shows "(subs = content p mt \<or> subs = []) \<and>
    ((\<exists>l. cache p = Some (mt, l)) \<or> list_subtests H p \<noteq> [] \<longrightarrow> subs = content p mt) \<and>
    (subs = [] \<longrightarrow> cache' = cache) \<and>
    (subs \<noteq> [] \<longrightarrow> cache' p = Some (mt, subs)) \<and>
    (\<forall>q t subs. cache' q = Some (t, subs) \<longrightarrow> subs = content q t \<and> subs \<noteq> [])"
proof (cases "\<exists>l. cache p = Some (mt, l)")
  case True
  then obtain l where l: "cache p = Some (mt, l)" by blast
  then have "subs = l" "cache' = cache" using assms(2,4) by (auto simp: get_subtests_def)
  then show ?thesis using l assms(1) by blast
next
  case False
  then have "subs = list_subtests H p" and "cache' = (if subs \<noteq> [] then cache(p \<mapsto> (mt, subs)) else cache)"
    using assms(2,4) by (auto simp: get_subtests_def Let_def split: option.splits)
  then show ?thesis using assms(1,3) False by auto
qed

theorem get_subtests_never_stale_witness:
  "fst (get_subtests sample_host Map.empty ''t'') = [''a'', ''b'']"
proof -
  have "mtime_of sample_host ''t'' = Some 5" by (simp add: sample_host_def)
  moreover obtain subs cache' where run: "get_subtests sample_host Map.empty ''t'' = (subs, cache')" by fastforce
  ultimately show ?thesis
    using get_subtests_never_stale [of Map.empty "\<lambda>_ _. [''a'', ''b'']" sample_host "''t''" 5 subs cache'] sample_subtests
    by simp
qed

text \<open>C37: When the sum of the age, the group's niceness and the adjustments stays below \<open>2 ^ 63\<close>, no step of
  \<open>job_nice\<close> and \<open>job_weight\<close> wraps around: the signed weight that orders the jobs is that sum.\<close>

theorem job_weight_exact:
  assumes "a + nice_sum g stats < 2 ^ 63"
  shows "sint (job_weight \<lparr> job_key = k, age = of_nat a, job_niceness = job_nice g stats, job_duration = d \<rparr>) =
    int a + int (nice_sum g stats)"
proof -
  have n: "unat (job_nice g stats) = nice_sum g stats" and a: "unat (of_nat a :: u64) = a"
    using assms by (auto intro!: job_nice_exact simp: unat_of_nat)
  have "unat (of_nat a + job_nice g stats :: u64) = a + nice_sum g stats"
    using unat_add_exact [of "of_nat a" "job_nice g stats"] assms n a by simp
  then show ?thesis using sint_exact [of "of_nat a + job_nice g stats"] assms by (simp add: job_weight_def)
qed

theorem job_weight_exact_witness:
  "sint (job_weight \<lparr> job_key = job_key (job_of sample_durations None sample_rc sample_spec 0 ''a'' ''''), age = of_nat 7,
      job_niceness = job_nice sample_group (Some \<lparr> st_nr = 30, st_passed = 30, st_failed = 0, st_duration = 400 \<rparr>),
      job_duration = 400 \<rparr>) = 22"
proof -
  have "nice_sum sample_group (Some \<lparr> st_nr = 30, st_passed = 30, st_failed = 0, st_duration = 400 \<rparr>) = 15"
    by (simp add: nice_sum_def sample_group_def)
  then show ?thesis using job_weight_exact [of 7 sample_group] by simp
qed

end
