(* ===== verification/Daemon_Job.thy ===== *)
theory Daemon_Job
  imports Job_Matrix
begin

text \<open>
  Running one claimed batch (\<open>src/bin/ci-daemon.rs\<close>): \<open>run_ktest_job\<close>, its inner function with the
  resume loop, and the steps it is made of.

  The executor handle (\<open>jobkit\<close>), the remote host behind \<open>ssh\<close> and everything else that runs while a
  command is awaited (other executors, the worker's results arriving on the disk) are the parameter \<open>h\<close>: running a
  command gives a result and changes the world \<open>w\<close> and the store with its disk in any way. The
  result is \<open>None\<close> when the command could not be run, else whether it exited with success. The code between two
  commands is one step. Lines written to the executor log are not modelled; the log is read through
  \<open>h\<close>. The compression (\<open>brotli\<close>) is a function of \<open>h\<close>. Texts of system errors are left out of the
  error values.
\<close>

section \<open>Data\<close>

record JobParams =
  p_repo :: string
  p_commit :: string
  p_kernel :: string
  p_env :: string
  p_test :: string
  p_subtest :: string
  p_repo_url :: string
  p_ktest_url :: string
  p_output_dir :: string

record ClaimedJob =
  job_id :: nat
  payload :: JobParams

datatype command = Ssh (ssh_host: string) (remote: string) (tty: bool) | Bash string

datatype task_error = Retry string | Fatal string

record 'w handle =
  run_command :: "'w \<Rightarrow> command \<Rightarrow> store \<Rightarrow> bool option \<times> 'w \<times> store"
  log_offset :: "'w \<Rightarrow> nat"
  log_from :: "'w \<Rightarrow> nat \<Rightarrow> bytes"
  brotli :: "bytes \<Rightarrow> bytes"

type_synonym ('a, 'w) outcome = "(task_error + 'a) \<times> 'w \<times> store"

abbreviation newline :: string where
  "newline \<equiv> [CHR 0x0A]"

abbreviation quote :: string where
  "quote \<equiv> [CHR 0x27]"

section \<open>Commands\<close>

definition ssh_cmd :: "string \<Rightarrow> string \<Rightarrow> bool \<Rightarrow> command" where
  "ssh_cmd hst rem t = Ssh hst rem t"

definition ssh_opts :: "string list" where
  "ssh_opts =
     [''-o'', ''ControlMaster=auto'', ''-o'', ''ControlPath=~/.ssh/ci-master-%r@%h:%p'', ''-o'', ''ControlPersist=10m'',
      ''-o'', ''ServerAliveInterval=10'', ''-o'', ''ConnectTimeout=20'', ''-o'', ''BatchMode=yes'',
      ''-o'', ''StrictHostKeyChecking=accept-new'']"

definition workspace :: "nat \<Rightarrow> string" where
  "workspace slot = ''ktest-ci/'' @ show_nat slot"

definition param_key :: "JobParams \<Rightarrow> string \<Rightarrow> string" where
  "param_key p subtest = subtest_result_key (p_test p) subtest (p_kernel p) (p_env p)"

definition checkout_cmd :: "string \<Rightarrow> JobParams \<Rightarrow> string" where
  \<open>checkout_cmd ws p =
     ''set -e; retry() { n=0; until "$@"; do n=$((n+1)); [ $n -ge 5 ] && return 1; echo "checkout: retry $n: $*" >&2; sleep $((n*n)); done; }; if [ ! -d '' @
     ws @ ''/'' @ p_repo p @ ''/.git ]; then rm -rf '' @ ws @ ''; mkdir -p '' @ ws @ ''; retry git -C '' @ ws @
     '' clone '' @ p_repo_url p @ '' '' @ p_repo p @ ''; fi; cd '' @ ws @ ''/'' @ p_repo p @
     ''; rm -f .git/index.lock; retry git fetch '' @ p_repo_url p @ '' '' @ p_commit p @
     ''; git checkout -f FETCH_HEAD; test "$(git rev-parse HEAD)" = "'' @ p_commit p @ ''"''\<close>

definition sync_cmd :: "JobParams \<Rightarrow> string" where
  \<open>sync_cmd p =
     ''retry() { n=0; until "$@"; do n=$((n+1)); [ $n -ge 5 ] && return 1; echo "sync ktest: retry $n: $*" >&2; sleep $((n*n)); done; }; retry git -C ~/ktest fetch '' @
     p_ktest_url p @ '' && git -C ~/ktest checkout -f FETCH_HEAD''\<close>

definition prepare_cmd :: "string \<Rightarrow> JobParams \<Rightarrow> string list \<Rightarrow> string" where
  "prepare_cmd ws p remaining =
     (let mark = join ''; '' (map (\<lambda>st.
            (let d = param_key p st
             in ''mkdir -p ktest-out/out/'' @ d @ ''; echo 'IN PROGRESS' > ktest-out/out/'' @ d @ ''/status'')) remaining)
      in ''set -e; cd '' @ ws @
         ''; if [ -d ktest-out ]; then find ktest-out -mindepth 1 -maxdepth 1 ! -name 'kernel*' -exec rm -rf {} +; fi; '' @
         mark)"

definition supervisor_cmd :: "string \<Rightarrow> JobParams \<Rightarrow> string list \<Rightarrow> string" where
  \<open>supervisor_cmd ws p remaining =
     (let basename = result_basename (p_test p) (p_kernel p) (p_env p);
          runner =
            (if p_kernel p = [] then ''~/ktest/build-test-kernel run -k '' @ ws @ ''/'' @ p_repo p @ '' -T ktest-tmp -P''
             else ''~/ktest/ktest run -k '' @ p_kernel p @ '' -T ktest-tmp'');
          full_log = param_key p (hd remaining) @ ''/full_log'';
          inner =
            ''cd '' @ ws @ ''; '' @ job_env_prefix (p_env p) ws @ ''~/ktest/lib/supervisor -T 1200 -f '' @ full_log @
            '' -S -F -b '' @ basename @ '' -o ktest-out/out -- '' @ runner @ '' ~/ktest/tests/'' @ p_test p @ '' '' @
            join '' '' remaining;
          run = (if p_kernel p = [] then ''nix-shell ~/ktest/ci/shell.nix --run "'' @ inner @ ''"'' else inner)
      in ''( '' @ run @ '' )'')\<close>

definition pull_cmd :: "string \<Rightarrow> string \<Rightarrow> string \<Rightarrow> JobParams \<Rightarrow> string list \<Rightarrow> string" where
  "pull_cmd commit_dir hst ws p remaining =
     (let dirs = join '' '' (map (param_key p) remaining)
      in ''mkdir -p '' @ commit_dir @ '' && ssh '' @ join '' '' ssh_opts @ '' '' @ hst @ '' '' @ quote @ ''cd '' @ ws @
         ''/ktest-out/out && tar -c '' @ dirs @ quote @ '' | tar -x -C '' @ commit_dir)"

definition clean_cmd :: "string \<Rightarrow> JobParams \<Rightarrow> string" where
  "clean_cmd ws p = ''git -C ~/'' @ ws @ ''/'' @ p_repo p @ '' clean -fdqx''"

section \<open>Steps\<close>

definition run_step :: "'w handle \<Rightarrow> string \<Rightarrow> string \<Rightarrow> string \<Rightarrow> 'w \<Rightarrow> store \<Rightarrow> (unit, 'w) outcome" where
  "run_step h hst rem desc w st =
     (case run_command h w (ssh_cmd hst rem False) st of
        (None, w, st) \<Rightarrow> (Inl (Retry desc), w, st)
      | (Some ok, w, st) \<Rightarrow> if \<not> ok then (Inl (Retry desc), w, st) else (Inr (), w, st))"

definition format_full_log ::
  "'w handle \<Rightarrow> 'w \<Rightarrow> string \<Rightarrow> nat \<Rightarrow> JobParams \<Rightarrow> string list \<Rightarrow> nat \<Rightarrow> bytes \<Rightarrow> bytes" where
  "format_full_log h w hst slot p subs exec_offset_start supervisor_body =
     (let header = ''# host='' @ hst @ '' slot='' @ show_nat slot @ '' commit='' @ p_commit p @ '' kernel='' @ p_kernel p @
            '' test='' @ p_test p @ '' env='' @ p_env p @ '' subtests='' @ join '','' subs @ newline;
          exec_slice = log_from h w exec_offset_start
      in header @ ''# --- ci-daemon executor log for this batch ---'' @ newline @ exec_slice @
         newline @ ''# --- supervisor full_log ---'' @ newline @ supervisor_body)"

text \<open>\<open>path.with_extension("br")\<close> of a name without extension; opening it follows a link that stands there.\<close>

definition with_br :: "path \<Rightarrow> path" where
  "with_br p = butlast p @ [last p @ ''.br'']"

definition deref :: "disk \<Rightarrow> path \<Rightarrow> path" where
  "deref d p = (case node_at (tree d) p of Some (Link l) \<Rightarrow> resolve_link (butlast p) l | _ \<Rightarrow> p)"

definition brotli_compress :: "'w handle \<Rightarrow> disk \<Rightarrow> int \<Rightarrow> path \<Rightarrow> bool \<times> disk" where
  "brotli_compress h d now p =
     (case read_file d p of
        None \<Rightarrow> (False, d)
      | Some (data, _) \<Rightarrow>
          (let q = deref d (with_br p)
           in case create_file d now q of
                None \<Rightarrow> (False, d)
              | Some d \<Rightarrow>
                  (case fill_file d now q (brotli h data) of
                     (False, d) \<Rightarrow> (False, d)
                   | (True, d) \<Rightarrow> remove_file d p)))"

section \<open>The inner function\<close>

definition inprogress_at :: "int \<Rightarrow> TestResult" where
  "inprogress_at now = \<lparr> status = Inprogress, starttime = now, duration = 0 \<rparr>"

text \<open>The loop that marks the subtests in progress, on disk and in a map for the store.\<close>

definition mark_one :: "JobParams \<Rightarrow> int \<Rightarrow> string \<Rightarrow> disk \<times> TestResultsMap \<Rightarrow> disk \<times> TestResultsMap" where
  "mark_one p now st acc =
     (let (d, m) = acc;
          key = param_key p st;
          (_, d) = mkdir_write d now [p_commit p, key] ''status'' (''IN PROGRESS'' @ newline)
      in (d, bt_insert m key (inprogress_at now)))"

definition mark_inprogress :: "capnp \<Rightarrow> JobParams \<Rightarrow> string list \<Rightarrow> store \<Rightarrow> store" where
  "mark_inprogress C p remaining st =
     (let (d, m) = fold (mark_one p (clock st)) remaining (dsk st, bt_empty)
      in update C (st\<lparr>dsk := d\<rparr>) (p_commit p) m)"

text \<open>The handling of the log files after a pull, in the order of the code.\<close>

definition remove_old_logs :: "JobParams \<Rightarrow> string list \<Rightarrow> disk \<Rightarrow> disk" where
  "remove_old_logs p remaining d =
     fold (\<lambda>st d. snd (remove_file d [p_commit p, param_key p st, ''full_log.br''])) remaining d"

definition write_primary_log ::
  "'w handle \<Rightarrow> 'w \<Rightarrow> string \<Rightarrow> nat \<Rightarrow> JobParams \<Rightarrow> string list \<Rightarrow> nat \<Rightarrow> int \<Rightarrow> disk \<Rightarrow> disk" where
  "write_primary_log h w hst slot p remaining iter_offset now d =
     (let primary_path = [p_commit p, param_key p (hd remaining), ''full_log''];
          supervisor_body = unwrap_or (map_option fst (read_file d primary_path)) [];
          content = format_full_log h w hst slot p remaining iter_offset supervisor_body
      in case write_file d now primary_path content of
           (False, d) \<Rightarrow> d
         | (True, d) \<Rightarrow> snd (brotli_compress h d now primary_path))"

definition compress_logs :: "'w handle \<Rightarrow> JobParams \<Rightarrow> string list \<Rightarrow> int \<Rightarrow> disk \<Rightarrow> disk" where
  "compress_logs h p remaining now d =
     fold (\<lambda>st d.
             (let log_path = [p_commit p, param_key p st, ''log'']
              in if path_exists d log_path then snd (brotli_compress h d now log_path) else d)) remaining d"

definition link_logs :: "JobParams \<Rightarrow> string list \<Rightarrow> disk \<Rightarrow> disk" where
  "link_logs p remaining d =
     fold (\<lambda>st d. snd (symlink d [''..'', param_key p (hd remaining), ''full_log.br'']
                        [p_commit p, param_key p st, ''full_log.br''])) (tl remaining) d"

text \<open>The verdicts of an iteration, and the subtests that still have none.\<close>

fun read_verdicts :: "JobParams \<Rightarrow> int \<Rightarrow> disk \<Rightarrow> string list \<Rightarrow> string list \<Rightarrow> TestResultsMap \<Rightarrow> string list \<times> TestResultsMap" where
  "read_verdicts p now d [] nxt verdicts = (nxt, verdicts)"
| "read_verdicts p now d (st # sts) nxt verdicts =
     (let key = param_key p st;
          r = unwrap_or (read_test_result d [p_commit p, key]) (inprogress_at now)
      in read_verdicts p now d sts (if status r = Inprogress then nxt @ [st] else nxt) (bt_insert verdicts key r))"

text \<open>One iteration of the resume loop, up to the update of the store; it returns the subtests without a verdict.\<close>

definition resume_iter ::
  "capnp \<Rightarrow> 'w handle \<Rightarrow> string \<Rightarrow> nat \<Rightarrow> JobParams \<Rightarrow> int \<Rightarrow> string list \<Rightarrow> 'w \<Rightarrow> store
    \<Rightarrow> (string list, 'w) outcome" where
  "resume_iter C h hst slot p now remaining w st =
     (let ws = workspace slot;
          iter_offset = log_offset h w
      in case run_command h w (ssh_cmd hst (supervisor_cmd ws p remaining) True) st of
           (None, w, st) \<Rightarrow> (Inl (Retry ''running supervisor''), w, st)
         | (Some _, w, st) \<Rightarrow>
             (case run_command h w (Bash (pull_cmd (path_join (p_output_dir p) (p_commit p)) hst ws p remaining)) st of
                (None, w, st) \<Rightarrow> (Inl (Retry ''pulling results''), w, st)
              | (Some ok, w, st) \<Rightarrow>
                  if \<not> ok then (Inl (Retry ''pulling results''), w, st)
                  else
                    (let d = remove_old_logs p remaining (dsk st);
                         d = write_primary_log h w hst slot p remaining iter_offset (clock st) d;
                         d = compress_logs h p remaining (clock st) d;
                         d = link_logs p remaining d;
                         (nxt, verdicts) = read_verdicts p now d remaining [] bt_empty
                     in (Inr nxt, w, update C (st\<lparr>dsk := d\<rparr>) (p_commit p) verdicts))))"

lemma read_verdicts_fst:
  "fst (read_verdicts p now d sts nxt verdicts) =
     nxt @ filter (\<lambda>st. status (unwrap_or (read_test_result d [p_commit p, param_key p st]) (inprogress_at now)) = Inprogress) sts"
  by (induction p now d sts nxt verdicts rule: read_verdicts.induct) (auto simp: Let_def)

lemma filter_same_length: "length (filter P xs) = length xs \<Longrightarrow> filter P xs = xs"
  by (metis filter_id_conv length_filter_less less_irrefl)

lemma resume_iter_next:
  "resume_iter C h hst slot p now remaining w st = (Inr nxt, w', st') \<Longrightarrow>
     length nxt \<le> length remaining \<and> (length nxt = length remaining \<longrightarrow> nxt = remaining)"
proof -
  assume run: "resume_iter C h hst slot p now remaining w st = (Inr nxt, w', st')"
  have "length nxt \<le> length remaining \<and> (length nxt = length remaining \<longrightarrow> nxt = remaining)"
    if "read_verdicts p now d remaining [] bt_empty = (nxt, v)" for d v
    using read_verdicts_fst [of p now d remaining "[]" bt_empty] that filter_same_length
    by (metis append_Nil fst_conv length_filter_le)
  with run show ?thesis
    by (auto simp: resume_iter_def Let_def split: prod.splits option.splits if_splits)
qed

text \<open>The resume loop ends: an iteration without a verdict happens at most once before an error.\<close>

function resume_loop ::
  "capnp \<Rightarrow> 'w handle \<Rightarrow> string \<Rightarrow> nat \<Rightarrow> JobParams \<Rightarrow> int \<Rightarrow> string list \<Rightarrow> bool \<Rightarrow> 'w \<Rightarrow> store
    \<Rightarrow> (unit, 'w) outcome" where
  "resume_loop C h hst slot p now remaining did_clean w st =
     (if remaining = [] then (Inr (), w, st)
      else
        (case resume_iter C h hst slot p now remaining w st of
           (Inl e, w, st) \<Rightarrow> (Inl e, w, st)
         | (Inr nxt, w, st) \<Rightarrow>
             if length nxt = length remaining then
               if \<not> did_clean then
                 (case run_command h w (ssh_cmd hst (clean_cmd (workspace slot) p) False) st of
                    (None, w, st) \<Rightarrow> (Inl (Retry ''git clean''), w, st)
                  | (Some _, w, st) \<Rightarrow> resume_loop C h hst slot p now remaining True w st)
               else (Inl (Retry (''run completed no subtests: '' @ join '' '' remaining)), w, st)
             else resume_loop C h hst slot p now nxt did_clean w st))"
  by pat_completeness auto
termination
proof (relation "measure (\<lambda>(C, h, hst, slot, p, now, remaining, did_clean, w, st).
    2 * length remaining + (if did_clean then 0 else 1))", goal_cases)
  case (3 C h hst slot p now remaining did_clean w st x y nxt xa ya)
  then have "length nxt \<le> length remaining"
    by (intro conjunct1 [OF resume_iter_next [of C h hst slot p now remaining w st nxt xa ya]]) simp
  with 3 show ?case by simp
qed simp_all

declare resume_loop.simps [simp del]

definition run_ktest_job_inner ::
  "capnp \<Rightarrow> 'w handle \<Rightarrow> string \<Rightarrow> nat \<Rightarrow> ClaimedJob list \<Rightarrow> 'w \<Rightarrow> store \<Rightarrow> (unit, 'w) outcome" where
  "run_ktest_job_inner C h hst slot batch w st =
     (let p = payload (hd batch)
      in if p_repo_url p = [] then (Inl (Fatal (''repo '' @ p_repo p @ '' not configured'')), w, st)
         else
           (let ws = workspace slot;
                remaining = map (\<lambda>j. p_subtest (payload j)) batch;
                now = clock st;
                st = mark_inprogress C p remaining st
            in case run_step h hst (checkout_cmd ws p) ''checkout'' w st of
                 (Inl e, w, st) \<Rightarrow> (Inl e, w, st)
               | (Inr _, w, st) \<Rightarrow>
                   (case (if p_ktest_url p \<noteq> [] then run_step h hst (sync_cmd p) ''sync ktest'' w st
                          else (Inr (), w, st)) of
                      (Inl e, w, st) \<Rightarrow> (Inl e, w, st)
                    | (Inr _, w, st) \<Rightarrow>
                        (case run_step h hst ''make -C ~/ktest/lib supervisor'' ''build supervisor'' w st of
                           (Inl e, w, st) \<Rightarrow> (Inl e, w, st)
                         | (Inr _, w, st) \<Rightarrow>
                             (case run_step h hst (prepare_cmd ws p remaining) ''prepare'' w st of
                                (Inl e, w, st) \<Rightarrow> (Inl e, w, st)
                              | (Inr _, w, st) \<Rightarrow>
                                  resume_loop C h hst slot p now remaining False w st)))))"

section \<open>The outer function\<close>

definition job_result_key :: "ClaimedJob \<Rightarrow> string" where
  "job_result_key j = param_key (payload j) (p_subtest (payload j))"

definition write_fallback_log :: "'w handle \<Rightarrow> string \<Rightarrow> int \<Rightarrow> bytes \<Rightarrow> ClaimedJob \<Rightarrow> disk \<Rightarrow> disk" where
  "write_fallback_log h commit now content j d =
     (let dir = [commit, job_result_key j]
      in case mkdir_write d now dir ''full_log'' content of
           (False, d) \<Rightarrow> d
         | (True, d) \<Rightarrow> snd (brotli_compress h d now (dir @ [''full_log''])))"

definition fallback_logs :: "'w handle \<Rightarrow> string \<Rightarrow> nat \<Rightarrow> nat \<Rightarrow> ClaimedJob list \<Rightarrow> 'w \<Rightarrow> store \<Rightarrow> store" where
  "fallback_logs h hst slot offset_start batch w st =
     (let p = payload (hd batch);
          missing = filter (\<lambda>j. \<not> path_exists (dsk st) [p_commit p, job_result_key j, ''full_log.br'']) batch
      in if missing \<noteq> [] then
           (let content = format_full_log h w hst slot p (map (\<lambda>j. p_subtest (payload j)) batch) offset_start []
            in st\<lparr>dsk := fold (write_fallback_log h (p_commit p) (clock st) content) missing (dsk st)\<rparr>)
         else st)"

text \<open>The loop that turns the subtests left in progress into \<open>FailedToRun\<close>.\<close>

definition fail_one :: "string \<Rightarrow> store \<Rightarrow> ClaimedJob \<Rightarrow> disk \<times> TestResultsMap \<Rightarrow> disk \<times> TestResultsMap" where
  "fail_one commit st j acc =
     (let (d, updates) = acc;
          key = job_result_key j
      in if lookup st commit key = Some Inprogress then
           (let (_, d) = mkdir_write d (clock st) [commit, key] ''status'' (''FAILED TO RUN'' @ newline)
            in (d, bt_insert updates key \<lparr> status = FailedToRun, starttime = clock st, duration = 0 \<rparr>))
         else (d, updates))"

definition fail_inprogress :: "capnp \<Rightarrow> ClaimedJob list \<Rightarrow> store \<Rightarrow> store" where
  "fail_inprogress C batch st =
     (let commit = p_commit (payload (hd batch));
          (d, updates) = fold (fail_one commit st) batch (dsk st, bt_empty)
      in update C (st\<lparr>dsk := d\<rparr>) commit updates)"

definition run_ktest_job ::
  "capnp \<Rightarrow> 'w handle \<Rightarrow> string \<Rightarrow> nat \<Rightarrow> ClaimedJob list \<Rightarrow> 'w \<Rightarrow> store \<Rightarrow> (unit, 'w) outcome" where
  "run_ktest_job C h hst slot batch w st =
     (let offset_start = log_offset h w;
          (result, w, st) = run_ktest_job_inner C h hst slot batch w st;
          (_, w, st) = run_command h w (ssh_cmd hst (''rm -rf '' @ workspace slot @ ''/ktest-tmp'') False) st;
          st = fallback_logs h hst slot offset_start batch w st;
          st = (case result of Inl _ \<Rightarrow> fail_inprogress C batch st | Inr _ \<Rightarrow> st)
      in (result, w, st))"

section \<open>What the rest of the system keeps to\<close>

text \<open>While a command of this batch runs, nobody else writes the results of the batch; everything else may change.
  The scheduler gives a job to one executor only, so this holds for batches of one user. Two users whose
  branches share a commit and a test submit jobs with the same result key, and it fails when those two
  run at the same time.\<close>

definition undisturbed :: "'w handle \<Rightarrow> string \<Rightarrow> string set \<Rightarrow> bool" where
  "undisturbed h commit ks \<longleftrightarrow>
     (\<forall>w c st r w' st'. run_command h w c st = (r, w', st') \<longrightarrow> store_ok st \<longrightarrow>
        store_ok st' \<and> (\<forall>k \<in> ks. store_get st' commit k = store_get st commit k))"

lemma undisturbedD:
  "undisturbed h commit ks \<Longrightarrow> run_command h w c st = (r, w', st') \<Longrightarrow> store_ok st \<Longrightarrow>
     store_ok st' \<and> (\<forall>k \<in> ks. store_get st' commit k = store_get st commit k)"
  unfolding undisturbed_def by blast

text \<open>The store of a state is unchanged by what happens on its disk.\<close>

lemma disk_irrelevant [simp]:
  "store_ok (st\<lparr>dsk := d\<rparr>) = store_ok st" "store_get (st\<lparr>dsk := d\<rparr>) c k = store_get st c k"
  "lookup (st\<lparr>dsk := d\<rparr>) c k = lookup st c k"
  by (simp_all add: store_ok_def store_get_def lookup_def)

lemma lookup_store_get: "lookup st c k = map_option status (store_get st c k)"
  by (simp add: lookup_def store_get_def)

lemma store_update_map:
  assumes "store_ok st" and "bt_ok u"
  shows "store_ok (update C st c u)"
    and "store_get (update C st c u) c' k = (if c' = c \<and> bt_get u k \<noteq> None then bt_get u k else store_get st c' k)"
  using rs.ok_upd [OF assms(1)] rs.get_upd [OF assms(1)] distinct_map_of_rev [OF bt.entries_distinct [OF assms(2)]]
  by auto

section \<open>The steps on the store\<close>

lemma fold_mark:
  "bt_ok m \<Longrightarrow> fold (mark_one p now) sts (d, m) = (d', m') \<Longrightarrow>
     bt_ok m' \<and> (\<forall>k. bt_get m' k = (if k \<in> param_key p ` set sts then Some (inprogress_at now) else bt_get m k))"
proof (induction sts arbitrary: d m)
  case (Cons st sts)
  obtain d1 where one: "mark_one p now st (d, m) = (d1, bt_insert m (param_key p st) (inprogress_at now))"
    by (simp add: mark_one_def Let_def case_prod_unfold)
  from Cons.IH [OF bt_ok_insert [OF Cons.prems(1)]] Cons.prems(2) one Cons.prems(1)
  show ?case by (auto simp: bt_get_insert)
qed simp

lemma mark_inprogress_store:
  assumes "store_ok st"
  shows "store_ok (mark_inprogress C p sts st)"
    and "store_get (mark_inprogress C p sts st) (p_commit p) k =
      (if k \<in> param_key p ` set sts then Some (inprogress_at (clock st)) else store_get st (p_commit p) k)"
proof -
  obtain d m where run: "fold (mark_one p (clock st)) sts (dsk st, bt_empty) = (d, m)" by fastforce
  note sp = fold_mark [OF bt_ok_Nil run]
  show "store_ok (mark_inprogress C p sts st)"
    and "store_get (mark_inprogress C p sts st) (p_commit p) k =
      (if k \<in> param_key p ` set sts then Some (inprogress_at (clock st)) else store_get st (p_commit p) k)"
    using store_update_map [of "st\<lparr>dsk := d\<rparr>" m C "p_commit p"] assms sp run by (auto simp: mark_inprogress_def)
qed

text \<open>The verdict for a key, as the pulled files have it.\<close>

definition verdict :: "JobParams \<Rightarrow> int \<Rightarrow> disk \<Rightarrow> string \<Rightarrow> TestResult" where
  "verdict p now d k = unwrap_or (read_test_result d [p_commit p, k]) (inprogress_at now)"

lemma read_verdicts_snd:
  "bt_ok v \<Longrightarrow> read_verdicts p now d sts nxt v = (nxt', v') \<Longrightarrow>
     bt_ok v' \<and> (\<forall>k. bt_get v' k = (if k \<in> param_key p ` set sts then Some (verdict p now d k) else bt_get v k))"
proof (induction p now d sts nxt v rule: read_verdicts.induct)
  case (2 p now d st sts nxt v)
  then show ?case
    by (simp add: Let_def bt_ok_insert bt_get_insert flip: verdict_def)
qed simp

lemma resume_iter_store:
  assumes ok: "store_ok st" and pr: "undisturbed h (p_commit p) ks"
    and run: "resume_iter C h hst slot p now remaining w st = (r, w', st')"
  shows "store_ok st' \<and>
    (case r of
       Inl _ \<Rightarrow> \<forall>k \<in> ks. store_get st' (p_commit p) k = store_get st (p_commit p) k
     | Inr nxt \<Rightarrow> \<exists>d. nxt = filter (\<lambda>s. status (verdict p now d (param_key p s)) = Inprogress) remaining \<and>
         (\<forall>k \<in> ks. store_get st' (p_commit p) k =
            (if k \<in> param_key p ` set remaining then Some (verdict p now d k) else store_get st (p_commit p) k)))"
proof -
  obtain r1 w1 st1 where c1: "run_command h w (ssh_cmd hst (supervisor_cmd (workspace slot) p remaining) True) st = (r1, w1, st1)"
    using prod_cases3 by blast
  obtain r2 w2 st2 where c2: "run_command h w1 (Bash (pull_cmd (path_join (p_output_dir p) (p_commit p)) hst (workspace slot) p remaining)) st1 = (r2, w2, st2)"
    using prod_cases3 by blast
  note p1 = undisturbedD [OF pr c1 ok]
  note p2 = undisturbedD [OF pr c2 conjunct1 [OF p1]]
  show ?thesis
  proof (cases "r1 \<noteq> None \<and> r2 = Some True")
    case False
    then show ?thesis
      using run c1 c2 p1 p2 by (auto simp: resume_iter_def Let_def split: option.splits if_splits)
  next
    case True
    define d where "d = link_logs p remaining (compress_logs h p remaining (clock st2)
      (write_primary_log h w2 hst slot p remaining (log_offset h w) (clock st2) (remove_old_logs p remaining (dsk st2))))"
    obtain nxt v where v: "read_verdicts p now d remaining [] bt_empty = (nxt, v)" by fastforce
    have r: "r = Inr nxt" and st': "st' = update C (st2\<lparr>dsk := d\<rparr>) (p_commit p) v"
      using run c1 c2 True v by (auto simp: resume_iter_def Let_def d_def)
    have nxt: "nxt = filter (\<lambda>s. status (verdict p now d (param_key p s)) = Inprogress) remaining"
      using read_verdicts_fst [of p now d remaining "[]" bt_empty] v by (simp add: verdict_def)
    note vs = read_verdicts_snd [OF bt_ok_Nil v]
    have "store_get st' (p_commit p) k =
        (if k \<in> param_key p ` set remaining then Some (verdict p now d k) else store_get st (p_commit p) k)" if "k \<in> ks" for k
      using store_update_map(2) [of "st2\<lparr>dsk := d\<rparr>" v C "p_commit p"] vs p1 p2 that by (auto simp: st')
    moreover have "store_ok st'" using store_update_map(1) [of "st2\<lparr>dsk := d\<rparr>" v] vs p2 by (simp add: st')
    ultimately show ?thesis using nxt r by auto
  qed
qed

section \<open>The resume loop\<close>

text \<open>What the loop maintains: every subtest of the batch has a status, and those still to run are the ones
  whose status is in progress, in the order of the batch.\<close>

definition owed :: "store \<Rightarrow> JobParams \<Rightarrow> string list \<Rightarrow> string list" where
  "owed st p subs = filter (\<lambda>s. lookup st (p_commit p) (param_key p s) = Some Inprogress) subs"

definition resume_inv :: "JobParams \<Rightarrow> string list \<Rightarrow> string list \<Rightarrow> store \<Rightarrow> bool" where
  "resume_inv p subs remaining st \<longleftrightarrow>
     store_ok st \<and> remaining = owed st p subs \<and>
     (\<forall>s \<in> set subs. lookup st (p_commit p) (param_key p s) \<noteq> None)"

lemma resume_inv_undisturbed:
  assumes "resume_inv p subs remaining st" and "store_ok st'"
    and "\<forall>k \<in> param_key p ` set subs. store_get st' (p_commit p) k = store_get st (p_commit p) k"
  shows "resume_inv p subs remaining st'"
proof -
  have same: "lookup st' (p_commit p) (param_key p s) = lookup st (p_commit p) (param_key p s)" if "s \<in> set subs" for s
    using assms(3) that by (simp add: lookup_store_get)
  then have "owed st' p subs = owed st p subs" unfolding owed_def by (intro filter_cong) auto
  then show ?thesis using assms(1,2) same by (simp add: resume_inv_def)
qed

lemma resume_inv_iter:
  assumes inv: "resume_inv p subs remaining st" and pr: "undisturbed h (p_commit p) (param_key p ` set subs)"
    and run: "resume_iter C h hst slot p now remaining w st = (r, w', st')"
  shows "case r of Inl _ \<Rightarrow> resume_inv p subs remaining st' | Inr nxt \<Rightarrow> resume_inv p subs nxt st'"
proof -
  have ok: "store_ok st" and rem: "remaining = owed st p subs" using inv by (simp_all add: resume_inv_def)
  note sp = resume_iter_store [OF ok pr run]
  show ?thesis
  proof (cases r)
    case (Inl e)
    then show ?thesis using resume_inv_undisturbed [OF inv, of st'] sp by simp
  next
    case (Inr nxt)
    with sp obtain d where nxt: "nxt = filter (\<lambda>s. status (verdict p now d (param_key p s)) = Inprogress) remaining"
      and get: "\<And>s. s \<in> set subs \<Longrightarrow> store_get st' (p_commit p) (param_key p s) =
        (if param_key p s \<in> param_key p ` set remaining then Some (verdict p now d (param_key p s))
         else store_get st (p_commit p) (param_key p s))"
      by auto
    have mem: "param_key p s \<in> param_key p ` set remaining \<longleftrightarrow> lookup st (p_commit p) (param_key p s) = Some Inprogress"
      if "s \<in> set subs" for s
      using that by (auto simp: rem owed_def)
    have "owed st' p subs = nxt"
      unfolding nxt rem owed_def filter_filter using get mem
      by (intro filter_cong) (auto simp: lookup_store_get split: if_splits)
    moreover have "lookup st' (p_commit p) (param_key p s) \<noteq> None" if "s \<in> set subs" for s
      using get [OF that] inv that by (auto simp: lookup_store_get resume_inv_def)
    ultimately show ?thesis using sp Inr by (simp add: resume_inv_def)
  qed
qed

text \<open>The runs of the loop, one rule per way an iteration can go.\<close>

inductive resume_run ::
  "capnp \<Rightarrow> 'w handle \<Rightarrow> string \<Rightarrow> nat \<Rightarrow> JobParams \<Rightarrow> int \<Rightarrow> string list \<Rightarrow> bool \<Rightarrow> 'w \<Rightarrow> store
    \<Rightarrow> (unit, 'w) outcome \<Rightarrow> bool"
  for C h hst slot p now where
  finished: "resume_run C h hst slot p now [] c w st (Inr (), w, st)"
| failed: "remaining \<noteq> [] \<Longrightarrow> resume_iter C h hst slot p now remaining w st = (Inl e, w1, st1) \<Longrightarrow>
    resume_run C h hst slot p now remaining c w st (Inl e, w1, st1)"
| progress: "remaining \<noteq> [] \<Longrightarrow> resume_iter C h hst slot p now remaining w st = (Inr nxt, w1, st1) \<Longrightarrow>
    length nxt < length remaining \<Longrightarrow> resume_run C h hst slot p now nxt c w1 st1 res \<Longrightarrow>
    resume_run C h hst slot p now remaining c w st res"
| clean_failed: "remaining \<noteq> [] \<Longrightarrow> resume_iter C h hst slot p now remaining w st = (Inr remaining, w1, st1) \<Longrightarrow>
    run_command h w1 (ssh_cmd hst (clean_cmd (workspace slot) p) False) st1 = (None, w2, st2) \<Longrightarrow>
    resume_run C h hst slot p now remaining False w st (Inl (Retry ''git clean''), w2, st2)"
| cleaned: "remaining \<noteq> [] \<Longrightarrow> resume_iter C h hst slot p now remaining w st = (Inr remaining, w1, st1) \<Longrightarrow>
    run_command h w1 (ssh_cmd hst (clean_cmd (workspace slot) p) False) st1 = (Some x, w2, st2) \<Longrightarrow>
    resume_run C h hst slot p now remaining True w2 st2 res \<Longrightarrow>
    resume_run C h hst slot p now remaining False w st res"
| no_progress: "remaining \<noteq> [] \<Longrightarrow> resume_iter C h hst slot p now remaining w st = (Inr remaining, w1, st1) \<Longrightarrow>
    resume_run C h hst slot p now remaining True w st
      (Inl (Retry (''run completed no subtests: '' @ join '' '' remaining)), w1, st1)"

lemma resume_loop_same:
  assumes "remaining \<noteq> []" and it: "resume_iter C h hst slot p now remaining w st = (Inr remaining, w1, st1)"
    and IH: "\<And>x w2 st2. \<not> c \<Longrightarrow> run_command h w1 (ssh_cmd hst (clean_cmd (workspace slot) p) False) st1 = (Some x, w2, st2) \<Longrightarrow>
      resume_run C h hst slot p now remaining True w2 st2 (resume_loop C h hst slot p now remaining True w2 st2)"
  shows "resume_run C h hst slot p now remaining c w st (resume_loop C h hst slot p now remaining c w st)"
proof -
  note loop = resume_loop.simps [of C h hst slot p now remaining c w st]
  obtain r2 w2 st2 where cl: "run_command h w1 (ssh_cmd hst (clean_cmd (workspace slot) p) False) st1 = (r2, w2, st2)"
    using prod_cases3 by blast
  show ?thesis
  proof (cases "c \<or> r2 = None")
    case True
    then show ?thesis
      using loop assms(1) it cl resume_run.no_progress [OF assms(1) it] resume_run.clean_failed [OF assms(1) it] by auto
  next
    case False
    then obtain x where x: "r2 = Some x" by blast
    have step: "resume_loop C h hst slot p now remaining c w st = resume_loop C h hst slot p now remaining True w2 st2"
      using loop assms(1) it cl False x by simp
    from resume_run.cleaned [OF assms(1) it cl [unfolded x] IH [OF _ cl [unfolded x]]] False
    show ?thesis unfolding step by simp
  qed
qed

lemma resume_loop_run:
  "resume_run C h hst slot p now remaining c w st (resume_loop C h hst slot p now remaining c w st)"
proof (induction C h hst slot p now remaining c w st rule: resume_loop.induct)
  case (1 C h hst slot p now remaining c w st)
  show ?case
  proof (cases "remaining = []")
    case True
    then show ?thesis by (simp add: resume_loop.simps resume_run.finished)
  next
    case False
    note loop = resume_loop.simps [of C h hst slot p now remaining c w st]
    obtain r1 w1 st1 where it: "resume_iter C h hst slot p now remaining w st = (r1, w1, st1)"
      using prod_cases3 by blast
    show ?thesis
    proof (cases r1)
      case (Inl e)
      then show ?thesis using False it loop resume_run.failed by simp
    next
      case (Inr nxt)
      note it' = it [unfolded Inr] and le = resume_iter_next [OF it [unfolded Inr]]
      show ?thesis
      proof (cases "length nxt = length remaining")
        case shorter: False
        have step: "resume_loop C h hst slot p now remaining c w st = resume_loop C h hst slot p now nxt c w1 st1"
          using loop False it' shorter by simp
        show ?thesis
          unfolding step using resume_run.progress [OF False it' _ "1.IH"(2) [OF False it' [symmetric] HOL.refl HOL.refl shorter]]
            le shorter by simp
      next
        case same: True
        then have nxt: "nxt = remaining" using le by blast
        show ?thesis
          by (rule resume_loop_same [OF False it' [unfolded nxt]])
            (rule "1.IH"(1) [OF False it' [symmetric] HOL.refl HOL.refl same _ _ HOL.refl HOL.refl], assumption, erule sym)
      qed
    qed
  qed
qed

lemma resume_loop_store:
  "resume_run C h hst slot p now remaining c w st res \<Longrightarrow>
   undisturbed h (p_commit p) (param_key p ` set subs) \<Longrightarrow> resume_inv p subs remaining st \<Longrightarrow>
     \<exists>rem. resume_inv p subs rem (snd (snd res)) \<and> (fst res = Inr () \<longrightarrow> rem = [])"
proof (induction rule: resume_run.induct)
  case (clean_failed remaining w st w1 st1 w2 st2)
  have i: "resume_inv p subs remaining st1"
    using resume_inv_iter [OF clean_failed.prems(2,1) clean_failed.hyps(2)] by simp
  then have "store_ok st1" by (simp add: resume_inv_def)
  from resume_inv_undisturbed [OF i] undisturbedD [OF clean_failed.prems(1) clean_failed.hyps(3) this]
  show ?case by auto
next
  case (cleaned remaining w st w1 st1 x w2 st2 res)
  have i: "resume_inv p subs remaining st1"
    using resume_inv_iter [OF cleaned.prems(2,1) cleaned.hyps(2)] by simp
  then have "store_ok st1" by (simp add: resume_inv_def)
  from resume_inv_undisturbed [OF i] undisturbedD [OF cleaned.prems(1) cleaned.hyps(3) this]
  show ?case using cleaned.IH cleaned.prems(1) by blast
qed (force dest: resume_inv_iter)+

section \<open>The whole job\<close>

lemma run_step_inv:
  assumes "run_step h hst rem desc w st = (r, w', st')" and "undisturbed h (p_commit p) (param_key p ` set subs)"
    and "resume_inv p subs remaining st"
  shows "resume_inv p subs remaining st'"
proof -
  obtain r1 w1 st1 where c: "run_command h w (ssh_cmd hst rem False) st = (r1, w1, st1)" using prod_cases3 by blast
  have ok: "store_ok st" using assms(3) by (simp add: resume_inv_def)
  have "st' = st1" using assms(1) c by (auto simp: run_step_def split: option.splits if_splits)
  then show ?thesis using resume_inv_undisturbed [OF assms(3)] undisturbedD [OF assms(2) c ok] by blast
qed

lemma mark_inv: "store_ok st \<Longrightarrow> resume_inv p subs subs (mark_inprogress C p subs st)"
  by (auto simp: resume_inv_def owed_def lookup_store_get mark_inprogress_store inprogress_at_def filter_id_conv)

text \<open>The steps before the loop; \<open>None\<close> when they went through.\<close>

definition setup_steps ::
  "'w handle \<Rightarrow> string \<Rightarrow> nat \<Rightarrow> JobParams \<Rightarrow> string list \<Rightarrow> 'w \<Rightarrow> store \<Rightarrow> (unit, 'w) outcome" where
  "setup_steps h hst slot p remaining w st =
     (case run_step h hst (checkout_cmd (workspace slot) p) ''checkout'' w st of
        (Inl e, w, st) \<Rightarrow> (Inl e, w, st)
      | (Inr _, w, st) \<Rightarrow>
          (case (if p_ktest_url p \<noteq> [] then run_step h hst (sync_cmd p) ''sync ktest'' w st else (Inr (), w, st)) of
             (Inl e, w, st) \<Rightarrow> (Inl e, w, st)
           | (Inr _, w, st) \<Rightarrow>
               (case run_step h hst ''make -C ~/ktest/lib supervisor'' ''build supervisor'' w st of
                  (Inl e, w, st) \<Rightarrow> (Inl e, w, st)
                | (Inr _, w, st) \<Rightarrow> run_step h hst (prepare_cmd (workspace slot) p remaining) ''prepare'' w st)))"

lemma inner_steps:
  assumes "p = payload (hd batch)" and "p_repo_url p \<noteq> []" and "subs = map (\<lambda>j. p_subtest (payload j)) batch"
  shows "run_ktest_job_inner C h hst slot batch w st =
    (case setup_steps h hst slot p subs w (mark_inprogress C p subs st) of
       (Inl e, w, st) \<Rightarrow> (Inl e, w, st)
     | (Inr _, w, st1) \<Rightarrow> resume_loop C h hst slot p (clock st) subs False w st1)"
  using assms(2) unfolding run_ktest_job_inner_def setup_steps_def Let_def assms(1,3) [symmetric]
  by (simp split: prod.splits sum.splits)

lemma setup_steps_inv:
  assumes "setup_steps h hst slot p remaining w st = (r, w', st')"
    and "undisturbed h (p_commit p) (param_key p ` set subs)" and "resume_inv p subs remaining st"
  shows "resume_inv p subs remaining st'"
  using assms(1,3) unfolding setup_steps_def
  by (auto split: prod.splits sum.splits if_splits dest!: run_step_inv [OF _ assms(2)])

lemma inner_store:
  assumes "p = payload (hd batch)" and "p_repo_url p \<noteq> []" and "subs = map (\<lambda>j. p_subtest (payload j)) batch"
    and "undisturbed h (p_commit p) (param_key p ` set subs)" and "store_ok st"
    and "run_ktest_job_inner C h hst slot batch w st = (r, w', st')"
  shows "\<exists>rem. resume_inv p subs rem st' \<and> (r = Inr () \<longrightarrow> rem = [])"
proof -
  obtain r1 w1 st1 where s: "setup_steps h hst slot p subs w (mark_inprogress C p subs st) = (r1, w1, st1)"
    using prod_cases3 by blast
  note i1 = setup_steps_inv [OF s assms(4) mark_inv [OF assms(5)]]
  note eq = inner_steps [OF assms(1-3), of C h hst slot w st]
  show ?thesis
  proof (cases r1)
    case (Inl e)
    then show ?thesis using i1 eq s assms(6) by auto
  next
    case (Inr u)
    then have "resume_loop C h hst slot p (clock st) subs False w1 st1 = (r, w', st')"
      using eq s assms(6) by simp
    with resume_loop_store [OF resume_loop_run assms(4) i1, of C hst slot "clock st" False w1]
    show ?thesis by simp
  qed
qed

text \<open>After an error nothing of the batch is left in progress.\<close>

lemma fold_fail:
  "bt_ok m \<Longrightarrow> fold (fail_one commit st) js (d, m) = (d', m') \<Longrightarrow>
     bt_ok m' \<and> (\<forall>k. bt_get m' k =
       (if k \<in> job_result_key ` set js \<and> lookup st commit k = Some Inprogress
        then Some \<lparr> status = FailedToRun, starttime = clock st, duration = 0 \<rparr> else bt_get m k))"
proof (induction js arbitrary: d m)
  case (Cons j js)
  obtain d1 m1 where one: "fail_one commit st j (d, m) = (d1, m1)" by fastforce
  then have m1: "m1 = (if lookup st commit (job_result_key j) = Some Inprogress
      then bt_insert m (job_result_key j) \<lparr> status = FailedToRun, starttime = clock st, duration = 0 \<rparr> else m)"
    by (auto simp: fail_one_def Let_def split: prod.splits if_splits)
  then have ok: "bt_ok m1" using Cons.prems(1) by (simp add: bt_ok_insert)
  from Cons.IH [OF ok] Cons.prems(2) one Cons.prems(1) show ?case by (auto simp: m1 bt_get_insert)
qed simp

lemma fail_inprogress_store:
  assumes "store_ok st" and "commit = p_commit (payload (hd batch))"
  shows "lookup (fail_inprogress C batch st) commit k =
    (if k \<in> job_result_key ` set batch \<and> lookup st commit k = Some Inprogress then Some FailedToRun
     else lookup st commit k)"
proof -
  obtain d m where run: "fold (fail_one commit st) batch (dsk st, bt_empty) = (d, m)" by fastforce
  note sp = fold_fail [OF bt_ok_Nil run]
  have "store_get (fail_inprogress C batch st) commit k =
      (if k \<in> job_result_key ` set batch \<and> lookup st commit k = Some Inprogress
       then Some \<lparr> status = FailedToRun, starttime = clock st, duration = 0 \<rparr> else store_get st commit k)"
    using store_update_map(2) [of "st\<lparr>dsk := d\<rparr>" m C commit commit k] assms sp run by (auto simp: fail_inprogress_def)
  then show ?thesis by (auto simp: lookup_store_get)
qed

lemma fallback_logs_disk: "\<exists>d. fallback_logs h hst slot off batch w st = st\<lparr>dsk := d\<rparr>"
proof (cases "fallback_logs h hst slot off batch w st = st")
  case True
  then have "fallback_logs h hst slot off batch w st = st\<lparr>dsk := dsk st\<rparr>" by simp
  then show ?thesis by blast
qed (auto simp: fallback_logs_def Let_def)

text \<open>A batch as the scheduler hands it out: not empty, its jobs alike but for the subtest.\<close>

definition batch_ok :: "ClaimedJob list \<Rightarrow> bool" where
  "batch_ok batch \<longleftrightarrow>
     batch \<noteq> [] \<and> (\<forall>j \<in> set batch. payload j = (payload (hd batch))\<lparr>p_subtest := p_subtest (payload j)\<rparr>)"

lemma batch_keys:
  assumes "batch_ok batch" and "p = payload (hd batch)"
  shows "j \<in> set batch \<Longrightarrow> job_result_key j = param_key p (p_subtest (payload j))"
    and "param_key p ` set (map (\<lambda>j. p_subtest (payload j)) batch) = job_result_key ` set batch"
proof -
  show key: "job_result_key j = param_key p (p_subtest (payload j))" if "j \<in> set batch" for j
  proof -
    have "payload j = p\<lparr>p_subtest := p_subtest (payload j)\<rparr>" using assms that by (auto simp: batch_ok_def)
    then have "param_key (payload j) s = param_key (p\<lparr>p_subtest := p_subtest (payload j)\<rparr>) s" for s by metis
    then show ?thesis by (simp add: job_result_key_def param_key_def)
  qed
  show "param_key p ` set (map (\<lambda>j. p_subtest (payload j)) batch) = job_result_key ` set batch"
    using key by (force simp: image_iff)
qed

lemma run_ktest_job_store:
  assumes "batch_ok batch" and "p = payload (hd batch)" and "store_ok st"
    and un: "undisturbed h (p_commit p) (job_result_key ` set batch)"
    and "run_ktest_job_inner C h hst slot batch w st = (r, w1, st1)" and "store_ok st1"
    and "run_ktest_job C h hst slot batch w st = (r', w', st')"
  shows "r' = r \<and> (\<forall>k \<in> job_result_key ` set batch. lookup st' (p_commit p) k =
    (if r \<noteq> Inr () \<and> lookup st1 (p_commit p) k = Some Inprogress then Some FailedToRun else lookup st1 (p_commit p) k))"
proof -
  obtain r2 w2 st2 where c: "run_command h w1 (ssh_cmd hst (''rm -rf '' @ workspace slot @ ''/ktest-tmp'') False) st1 = (r2, w2, st2)"
    using prod_cases3 by blast
  note sp = undisturbedD [OF un c assms(6)]
  obtain d where d: "fallback_logs h hst slot (log_offset h w) batch w2 st2 = st2\<lparr>dsk := d\<rparr>"
    using fallback_logs_disk [of h hst slot "log_offset h w" batch w2 st2] by (elim exE)
  have st': "r' = r" "st' = (case r of Inl _ \<Rightarrow> fail_inprogress C batch (st2\<lparr>dsk := d\<rparr>) | Inr _ \<Rightarrow> st2\<lparr>dsk := d\<rparr>)"
    using assms(5,7) c d by (auto simp: run_ktest_job_def Let_def split: sum.splits)
  have same: "lookup st2 (p_commit p) k = lookup st1 (p_commit p) k" if "k \<in> job_result_key ` set batch" for k
    using sp that by (auto simp: lookup_store_get)
  show ?thesis
    using st' same sp fail_inprogress_store [of "st2\<lparr>dsk := d\<rparr>" "p_commit p" batch C] assms(2)
    by (auto split: sum.splits)
qed

text \<open>The statuses of a batch after the inner function, and after the whole job.\<close>

lemma inner_status:
  assumes "batch_ok batch" and "p = payload (hd batch)" and "store_ok st"
    and "undisturbed h (p_commit p) (job_result_key ` set batch)"
    and inner: "run_ktest_job_inner C h hst slot batch w st = (r1, w1, st1)" and j: "j \<in> set batch"
  shows "store_ok st1 \<and> (r1 = Inr () \<longrightarrow> lookup st1 (p_commit p) (job_result_key j) \<noteq> Some Inprogress) \<and>
    (p_repo_url p \<noteq> [] \<longrightarrow> lookup st1 (p_commit p) (job_result_key j) \<noteq> None)"
proof (cases "p_repo_url p = []")
  case True
  then show ?thesis using inner assms(2,3) by (auto simp: run_ktest_job_inner_def)
next
  case False
  let ?subs = "map (\<lambda>j. p_subtest (payload j)) batch"
  have un: "undisturbed h (p_commit p) (param_key p ` set ?subs)"
    using assms(4) batch_keys(2) [OF assms(1,2)] by simp
  obtain rem where "resume_inv p ?subs rem st1" "r1 = Inr () \<longrightarrow> rem = []"
    using inner_store [OF assms(2) False HOL.refl un assms(3) inner] by blast
  then show ?thesis
    using j batch_keys(1) [OF assms(1,2) j] by (auto simp: resume_inv_def owed_def filter_empty_conv)
qed

lemma run_ktest_job_status:
  assumes "batch_ok batch" and "p = payload (hd batch)" and "store_ok st"
    and "undisturbed h (p_commit p) (job_result_key ` set batch)"
    and inner: "run_ktest_job_inner C h hst slot batch w st = (r1, w1, st1)"
    and run: "run_ktest_job C h hst slot batch w st = (r, w', st')" and j: "j \<in> set batch"
  shows "lookup st' (p_commit p) (job_result_key j) \<noteq> Some Inprogress \<and>
    (p_repo_url p \<noteq> [] \<longrightarrow> lookup st' (p_commit p) (job_result_key j) \<noteq> None) \<and>
    lookup st' (p_commit p) (job_result_key j) =
      (if r1 \<noteq> Inr () \<and> lookup st1 (p_commit p) (job_result_key j) = Some Inprogress then Some FailedToRun
       else lookup st1 (p_commit p) (job_result_key j))"
proof -
  note i = inner_status [OF assms(1-4) inner j]
  have "lookup st' (p_commit p) (job_result_key j) =
      (if r1 \<noteq> Inr () \<and> lookup st1 (p_commit p) (job_result_key j) = Some Inprogress then Some FailedToRun
       else lookup st1 (p_commit p) (job_result_key j))"
    using run_ktest_job_store [OF assms(1-4) inner _ run] i j by blast
  then show ?thesis using i by auto
qed

section \<open>Traces\<close>

text \<open>The same handle, keeping the commands it was asked to run and the store at that moment.\<close>

definition traced :: "'w handle \<Rightarrow> ('w \<times> (command \<times> store) list) handle" where
  "traced h =
     \<lparr> run_command = (\<lambda>(w, tr) c st. let (r, w', st') = run_command h w c st in (r, (w', tr @ [(c, st)]), st')),
       log_offset = (\<lambda>(w, tr). log_offset h w),
       log_from = (\<lambda>(w, tr). log_from h w),
       brotli = brotli h \<rparr>"

fun is_vm_run :: "command \<Rightarrow> bool" where
  "is_vm_run (Ssh hst rem t) = t"
| "is_vm_run (Bash s) = False"

text \<open>A trace in which each machine was started for exactly the subtests without a verdict, and for at least one.\<close>

definition vm_runs_ok :: "string \<Rightarrow> nat \<Rightarrow> JobParams \<Rightarrow> string list \<Rightarrow> (command \<times> store) list \<Rightarrow> bool" where
  "vm_runs_ok hst slot p subs tr \<longleftrightarrow>
     (\<forall>(c, st) \<in> set tr. is_vm_run c \<longrightarrow>
        owed st p subs \<noteq> [] \<and> c = Ssh hst (supervisor_cmd (workspace slot) p (owed st p subs)) True)"

definition vm_count :: "(command \<times> store) list \<Rightarrow> nat" where
  "vm_count tr = length (filter (is_vm_run \<circ> fst) tr)"

lemma vm_simps [simp]:
  "vm_runs_ok hst slot p subs []" "vm_count [] = 0"
  "vm_runs_ok hst slot p subs (tr @ tr') \<longleftrightarrow> vm_runs_ok hst slot p subs tr \<and> vm_runs_ok hst slot p subs tr'"
  "vm_count (tr @ tr') = vm_count tr + vm_count tr'"
  "vm_runs_ok hst slot p subs [(c, st)] \<longleftrightarrow>
     (is_vm_run c \<longrightarrow> owed st p subs \<noteq> [] \<and> c = Ssh hst (supervisor_cmd (workspace slot) p (owed st p subs)) True)"
  "vm_count [(c, st)] = (if is_vm_run c then 1 else 0)"
  by (simp_all add: vm_runs_ok_def vm_count_def ball_Un)

lemma traced_command:
  "run_command (traced h) (w, tr) c st = (r, (w', tr'), st') \<longleftrightarrow>
     run_command h w c st = (r, w', st') \<and> tr' = tr @ [(c, st)]"
  by (auto simp: traced_def Let_def split: prod.splits)

lemma traced_undisturbed: "undisturbed h commit ks \<Longrightarrow> undisturbed (traced h) commit ks"
  unfolding undisturbed_def
proof (intro allI impI)
  fix w c st r w' st'
  assume un: "\<forall>w c st r w' st'. run_command h w c st = (r, w', st') \<longrightarrow> store_ok st \<longrightarrow>
      store_ok st' \<and> (\<forall>k \<in> ks. store_get st' commit k = store_get st commit k)"
    and run: "run_command (traced h) w c st = (r, w', st')" and ok: "store_ok st"
  obtain v tr where w: "w = (v, tr)" by fastforce
  obtain v' tr' where w': "w' = (v', tr')" by fastforce
  from run have "run_command h v c st = (r, v', st')" unfolding w w' traced_command by blast
  then show "store_ok st' \<and> (\<forall>k \<in> ks. store_get st' commit k = store_get st commit k)" using un ok by blast
qed

lemma traced_step:
  assumes "run_step (traced h) hst rem desc wt st = (r, wt', st')"
  shows "\<exists>ext. snd wt' = snd wt @ ext \<and> vm_count ext = 0 \<and> vm_runs_ok hst slot p subs ext"
proof -
  have "snd wt' = snd wt @ [(Ssh hst rem False, st)]"
    using assms by (auto simp: run_step_def ssh_cmd_def traced_def Let_def split: prod.splits option.splits if_splits)
  then show ?thesis by (auto simp: vm_count_def vm_runs_ok_def)
qed

lemma traced_iter:
  assumes "resume_iter C (traced h) hst slot p now remaining wt st = (r, wt', st')"
    and inv: "resume_inv p subs remaining st" and ne: "remaining \<noteq> []"
  shows "\<exists>ext. snd wt' = snd wt @ ext \<and> vm_count ext = 1 \<and> vm_runs_ok hst slot p subs ext"
proof -
  obtain w tr where wt: "wt = (w, tr)" by fastforce
  obtain w' tr' where wt': "wt' = (w', tr')" by fastforce
  obtain r1 w1 tr1 st1 where c1: "run_command (traced h) (w, tr) (ssh_cmd hst (supervisor_cmd (workspace slot) p remaining) True) st
      = (r1, (w1, tr1), st1)" by (metis prod.collapse)
  obtain r2 w2 tr2 st2 where c2: "run_command (traced h) (w1, tr1)
      (Bash (pull_cmd (path_join (p_output_dir p) (p_commit p)) hst (workspace slot) p remaining)) st1 = (r2, (w2, tr2), st2)"
    by (metis prod.collapse)
  have t1: "tr1 = tr @ [(Ssh hst (supervisor_cmd (workspace slot) p remaining) True, st)]"
    using c1 unfolding traced_command ssh_cmd_def by blast
  have t2: "tr2 = tr1 @ [(Bash (pull_cmd (path_join (p_output_dir p) (p_commit p)) hst (workspace slot) p remaining), st1)]"
    using c2 unfolding traced_command by blast
  have "tr' = tr1 \<or> tr' = tr2"
    using assms(1) c1 c2 unfolding wt wt'
    by (auto simp: resume_iter_def Let_def split: option.splits if_splits prod.splits)
  moreover have "remaining = owed st p subs" using inv by (simp add: resume_inv_def)
  ultimately show ?thesis
    using t1 t2 ne unfolding wt wt' by (auto simp: vm_count_def vm_runs_ok_def)
qed

lemma traced_clean:
  assumes "run_command (traced h) wt (ssh_cmd hst rem False) st = (r, wt', st')"
  shows "\<exists>ext. snd wt' = snd wt @ ext \<and> vm_count ext = 0 \<and> vm_runs_ok hst slot p subs ext"
proof -
  have "snd wt' = snd wt @ [(Ssh hst rem False, st)]"
    using assms by (auto simp: traced_def ssh_cmd_def Let_def split: prod.splits)
  then show ?thesis by (auto simp: vm_count_def vm_runs_ok_def)
qed

text \<open>The machines started by the loop.\<close>

lemma traced_loop:
  "resume_run C (traced h) hst slot p now remaining c wt st res \<Longrightarrow>
   undisturbed h (p_commit p) (param_key p ` set subs) \<Longrightarrow> resume_inv p subs remaining st \<Longrightarrow>
     \<exists>ext. snd (fst (snd res)) = snd wt @ ext \<and> vm_runs_ok hst slot p subs ext \<and>
       vm_count ext \<le> length remaining + (if c then 0 else 1)"
proof (induction rule: resume_run.induct)
  case (failed remaining w st e w1 st1 c)
  from traced_iter [OF failed.hyps(2) failed.prems(2) failed.hyps(1)] failed.hyps(1) show ?case
    by (cases remaining) auto
next
  case (progress remaining w st nxt w1 st1 c res)
  have "resume_inv p subs nxt st1"
    using resume_inv_iter [OF progress.prems(2) traced_undisturbed [OF progress.prems(1)] progress.hyps(2)] by simp
  from progress.IH [OF progress.prems(1) this] progress.hyps(3)
    traced_iter [OF progress.hyps(2) progress.prems(2) progress.hyps(1)]
  show ?case by fastforce
next
  case (clean_failed remaining w st w1 st1 w2 st2)
  from traced_clean [OF clean_failed.hyps(3)] traced_iter [OF clean_failed.hyps(2) clean_failed.prems(2) clean_failed.hyps(1)]
  show ?case by fastforce
next
  case (cleaned remaining w st w1 st1 x w2 st2 res)
  have i: "resume_inv p subs remaining st1"
    using resume_inv_iter [OF cleaned.prems(2) traced_undisturbed [OF cleaned.prems(1)] cleaned.hyps(2)] by simp
  then have "store_ok st1" by (simp add: resume_inv_def)
  with resume_inv_undisturbed [OF i] undisturbedD [OF traced_undisturbed [OF cleaned.prems(1)] cleaned.hyps(3)]
  have "resume_inv p subs remaining st2" by blast
  from cleaned.IH [OF cleaned.prems(1) this] traced_clean [OF cleaned.hyps(3)]
    traced_iter [OF cleaned.hyps(2) cleaned.prems(2) cleaned.hyps(1)]
  show ?case by fastforce
next
  case (no_progress remaining w st w1 st1)
  from traced_iter [OF no_progress.hyps(2) no_progress.prems(2) no_progress.hyps(1)] no_progress.hyps(1)
  show ?case by (cases remaining) auto
qed auto

lemma traced_setup:
  assumes "setup_steps (traced h) hst slot p remaining wt st = (r, wt', st')"
  shows "\<exists>ext. snd wt' = snd wt @ ext \<and> vm_count ext = 0 \<and> vm_runs_ok hst slot p subs ext"
proof -
  note ts = traced_step [of h hst, where slot = slot and p = p and subs = subs]
  show ?thesis
    using assms unfolding setup_steps_def
    by (auto split: prod.splits sum.splits if_splits dest!: ts)
qed

lemma traced_inner:
  assumes "p = payload (hd batch)" and "subs = map (\<lambda>j. p_subtest (payload j)) batch"
    and un: "undisturbed h (p_commit p) (param_key p ` set subs)" and ok: "store_ok st"
    and run: "run_ktest_job_inner C (traced h) hst slot batch wt st = (r, wt', st')"
  shows "\<exists>ext. snd wt' = snd wt @ ext \<and> vm_runs_ok hst slot p subs ext \<and> vm_count ext \<le> length batch + 1"
proof (cases "p_repo_url p = []")
  case True
  then show ?thesis using run assms(1) by (auto simp: run_ktest_job_inner_def)
next
  case False
  obtain r1 w1 st1 where s: "setup_steps (traced h) hst slot p subs wt (mark_inprogress C p subs st) = (r1, w1, st1)"
    using prod_cases3 by blast
  note i1 = setup_steps_inv [OF s traced_undisturbed [OF un] mark_inv [OF ok]]
  note eq = inner_steps [OF assms(1) False assms(2), of C "traced h" hst slot wt st]
  obtain ext where ext: "snd w1 = snd wt @ ext" "vm_count ext = 0" "vm_runs_ok hst slot p subs ext"
    using traced_setup [OF s] by blast
  show ?thesis
  proof (cases r1)
    case (Inl e)
    then show ?thesis using eq s run ext by auto
  next
    case (Inr u)
    then have "resume_loop C (traced h) hst slot p (clock st) subs False w1 st1 = (r, wt', st')"
      using eq s run by simp
    with traced_loop [OF resume_loop_run un i1, of C hst slot "clock st" False w1] ext assms(2)
    show ?thesis by fastforce
  qed
qed

section \<open>Properties\<close>

text \<open>C1: A batch never leaves a subtest stuck. Whatever the commands do (fail to start, exit with an error, lose the
  connection, deliver any files), \<open>run_ktest_job\<close> returns, and afterwards no subtest of the batch is in
  progress in the store. If the repository is configured, every subtest of the batch has a recorded
  status; when the job succeeded none of them was turned into \<open>FailedToRun\<close> by the daemon, and when it
  failed those still in progress were.\<close>

theorem run_ktest_job_settles:
  assumes "batch_ok batch" and "p = payload (hd batch)" and "store_ok st"
    and "undisturbed h (p_commit p) (job_result_key ` set batch)"
    and "run_ktest_job C h hst slot batch w st = (r, w', st')"
  shows "\<forall>j \<in> set batch.
    lookup st' (p_commit p) (job_result_key j) \<noteq> Some Inprogress \<and>
    (p_repo_url p \<noteq> [] \<longrightarrow> lookup st' (p_commit p) (job_result_key j) \<noteq> None) \<and>
    (\<forall>w1 st1. run_ktest_job_inner C h hst slot batch w st = (Inr (), w1, st1) \<longrightarrow>
       lookup st' (p_commit p) (job_result_key j) = lookup st1 (p_commit p) (job_result_key j)) \<and>
    (\<forall>e w1 st1. run_ktest_job_inner C h hst slot batch w st = (Inl e, w1, st1) \<longrightarrow>
       lookup st' (p_commit p) (job_result_key j) =
         (if lookup st1 (p_commit p) (job_result_key j) = Some Inprogress then Some FailedToRun
          else lookup st1 (p_commit p) (job_result_key j)))"
proof
  fix j assume j: "j \<in> set batch"
  obtain r1 w1 st1 where inner: "run_ktest_job_inner C h hst slot batch w st = (r1, w1, st1)"
    using prod_cases3 by blast
  note sp = run_ktest_job_status [OF assms(1-4) inner assms(5) j]
  let ?k = "job_result_key j"
  show "lookup st' (p_commit p) ?k \<noteq> Some Inprogress \<and>
    (p_repo_url p \<noteq> [] \<longrightarrow> lookup st' (p_commit p) ?k \<noteq> None) \<and>
    (\<forall>w1 st1. run_ktest_job_inner C h hst slot batch w st = (Inr (), w1, st1) \<longrightarrow>
       lookup st' (p_commit p) ?k = lookup st1 (p_commit p) ?k) \<and>
    (\<forall>e w1 st1. run_ktest_job_inner C h hst slot batch w st = (Inl e, w1, st1) \<longrightarrow>
       lookup st' (p_commit p) ?k =
         (if lookup st1 (p_commit p) ?k = Some Inprogress then Some FailedToRun else lookup st1 (p_commit p) ?k))"
    using sp inner by (intro conjI) (blast, blast, (simp del: not_None_eq)+)
qed

text \<open>A handle whose commands all succeed and change nothing, and a batch of two subtests.\<close>

definition sample_handle :: "unit handle" where
  "sample_handle = \<lparr> run_command = (\<lambda>w c st. (Some True, w, st)), log_offset = (\<lambda>_. 0), log_from = (\<lambda>_ _. []),
     brotli = (\<lambda>b. b) \<rparr>"

definition sample_params :: "string \<Rightarrow> string \<Rightarrow> JobParams" where
  "sample_params u s = \<lparr> p_repo = ''linux'', p_commit = ''c0'', p_kernel = [], p_env = [], p_test = ''ec.ktest'',
     p_subtest = s, p_repo_url = u, p_ktest_url = [], p_output_dir = ''/out'' \<rparr>"

definition sample_batch :: "string \<Rightarrow> ClaimedJob list" where
  "sample_batch u = [\<lparr> job_id = 1, payload = sample_params u ''a'' \<rparr>, \<lparr> job_id = 2, payload = sample_params u ''b'' \<rparr>]"

lemma sample_batch_ok: "batch_ok (sample_batch u)"
  by (simp add: batch_ok_def sample_batch_def sample_params_def)

lemma sample_undisturbed: "undisturbed sample_handle c ks"
  by (simp add: undisturbed_def sample_handle_def)

lemma sample_store_ok: "store_ok sample_store"
  by (simp add: store_ok_def sample_store_def)

theorem run_ktest_job_settles_witness:
  "lookup (snd (snd (run_ktest_job sample_capnp sample_handle ''w1'' 0 (sample_batch ''git://x'') () sample_store)))
     ''c0'' ''ec.b'' \<notin> {None, Some Inprogress}"
proof -
  let ?b = "sample_batch ''git://x''"
  obtain r w st' where run: "run_ktest_job sample_capnp sample_handle ''w1'' 0 ?b () sample_store = (r, w, st')"
    using prod_cases3 by blast
  have j: "\<lparr> job_id = 2, payload = sample_params ''git://x'' ''b'' \<rparr> \<in> set ?b" by (simp add: sample_batch_def)
  have k: "job_result_key \<lparr> job_id = 2, payload = sample_params ''git://x'' ''b'' \<rparr> = ''ec.b''"
    by (simp add: job_result_key_def param_key_def sample_params_def key_alt)
  have p: "p_commit (payload (hd ?b)) = ''c0''" "p_repo_url (payload (hd ?b)) \<noteq> []"
    by (simp_all add: sample_batch_def sample_params_def)
  from run_ktest_job_settles [OF sample_batch_ok HOL.refl sample_store_ok sample_undisturbed run] j
  show ?thesis using k p run by fastforce
qed

text \<open>C4: The first verdict stands, and a batch costs a bounded number of machines. Each time \<open>run_ktest_job\<close> starts
  a machine, it is for exactly the subtests of the batch, in order, whose recorded status at that moment is in progress, and there is
  at least one: a subtest with a verdict is not run again. At most one machine per subtest is
  started, and one more after a clean.\<close>

theorem run_ktest_job_first_verdict_stands:
  assumes "batch_ok batch" and "p = payload (hd batch)" and "store_ok st"
    and "undisturbed h (p_commit p) (job_result_key ` set batch)"
    and "subs = map (\<lambda>j. p_subtest (payload j)) batch"
    and "run_ktest_job C (traced h) hst slot batch (w, []) st = (r, (w', tr), st')"
  shows "length (filter (is_vm_run \<circ> fst) tr) \<le> length batch + 1 \<and>
    (\<forall>(c, s) \<in> set tr. is_vm_run c \<longrightarrow>
       owed s p subs \<noteq> [] \<and> c = Ssh hst (supervisor_cmd (workspace slot) p (owed s p subs)) True)"
proof -
  have un: "undisturbed h (p_commit p) (param_key p ` set subs)"
    using assms(4,5) batch_keys(2) [OF assms(1,2)] by simp
  obtain r1 wt1 st1 where inner: "run_ktest_job_inner C (traced h) hst slot batch (w, []) st = (r1, wt1, st1)"
    using prod_cases3 by blast
  obtain ext where ext: "snd wt1 = ext" "vm_runs_ok hst slot p subs ext" "vm_count ext \<le> length batch + 1"
    using traced_inner [OF assms(2,5) un assms(3) inner] by auto
  obtain r2 wt2 st2 where c: "run_command (traced h) wt1 (ssh_cmd hst (''rm -rf '' @ workspace slot @ ''/ktest-tmp'') False) st1 = (r2, wt2, st2)"
    using prod_cases3 by blast
  have "wt2 = (w', tr)" using assms(6) inner c by (auto simp: run_ktest_job_def Let_def)
  with traced_clean [OF c, of slot p subs] ext have "vm_runs_ok hst slot p subs tr \<and> vm_count tr \<le> length batch + 1"
    by auto
  then show ?thesis by (simp add: vm_runs_ok_def vm_count_def)
qed

theorem run_ktest_job_first_verdict_stands_witness:
  "length (filter (is_vm_run \<circ> fst) (snd (fst (snd (run_ktest_job sample_capnp (traced sample_handle) ''w1'' 0
     (sample_batch ''git://x'') ((), []) sample_store))))) \<le> 3"
proof -
  let ?b = "sample_batch ''git://x''"
  obtain r w tr st' where run: "run_ktest_job sample_capnp (traced sample_handle) ''w1'' 0 ?b ((), []) sample_store = (r, (w, tr), st')"
    by (metis prod.collapse)
  from run_ktest_job_first_verdict_stands [OF sample_batch_ok HOL.refl sample_store_ok sample_undisturbed HOL.refl run]
  show ?thesis using run by (simp add: sample_batch_def)
qed

text \<open>A job whose repository has no URL fails without a trace in the store: the result is \<open>Fatal\<close>, and a
  subtest that had no result still has none. It stays wanted, so the next refill submits it again.\<close>

theorem run_ktest_job_unconfigured:
  assumes "batch_ok batch" and "p = payload (hd batch)" and "store_ok st"
    and "undisturbed h (p_commit p) (job_result_key ` set batch)" and "p_repo_url p = []"
    and "run_ktest_job C h hst slot batch w st = (r, w', st')"
  shows "r = Inl (Fatal (''repo '' @ p_repo p @ '' not configured'')) \<and>
    (\<forall>j \<in> set batch. lookup st (p_commit p) (job_result_key j) = None \<longrightarrow>
       lookup st' (p_commit p) (job_result_key j) = None \<and> job_wanted (lookup st' (p_commit p) (job_result_key j)))"
proof -
  have inner: "run_ktest_job_inner C h hst slot batch w st =
      (Inl (Fatal (''repo '' @ p_repo p @ '' not configured'')), w, st)"
    using assms(2,5) by (simp add: run_ktest_job_inner_def)
  from run_ktest_job_store [OF assms(1-4) inner assms(3,6)]
  show ?thesis by (simp add: job_wanted_def)
qed

theorem run_ktest_job_unconfigured_witness:
  "job_wanted (lookup (snd (snd (run_ktest_job sample_capnp sample_handle ''w1'' 0 (sample_batch []) () sample_store)))
     ''c0'' ''ec.b'')"
proof -
  let ?b = "sample_batch []"
  obtain r w st' where run: "run_ktest_job sample_capnp sample_handle ''w1'' 0 ?b () sample_store = (r, w, st')"
    using prod_cases3 by blast
  have j: "\<lparr> job_id = 2, payload = sample_params [] ''b'' \<rparr> \<in> set ?b" by (simp add: sample_batch_def)
  have k: "job_result_key \<lparr> job_id = 2, payload = sample_params [] ''b'' \<rparr> = ''ec.b''"
    by (simp add: job_result_key_def param_key_def sample_params_def key_alt)
  have p: "p_commit (payload (hd ?b)) = ''c0''" "p_repo_url (payload (hd ?b)) = []"
    by (simp_all add: sample_batch_def sample_params_def)
  have none: "lookup sample_store ''c0'' ''ec.b'' = None" by (simp add: lookup_def sample_store_def)
  from run_ktest_job_unconfigured [OF sample_batch_ok HOL.refl sample_store_ok sample_undisturbed p(2) run] j
  show ?thesis using k p none run by fastforce
qed

end
