(* ===== verification/Daemon_Main.thy ===== *)
theory Daemon_Main
  imports Complex_Main Daemon_Job
begin

text \<open>
  The daemon around the jobs (\<open>src/bin/ci-daemon.rs\<close>): the specification of a job for the scheduler, the
  refill of the job window, the executors, the status file, the branches the repository fetcher keeps
  current, and a round of the main loop.

  The scheduler (\<open>jobkit\<close>'s \<open>Choir\<close>) is the parameter \<open>K\<close>; what the code relies on is \<open>choir_ok\<close>. Its
  floating-point costs and weights are rationals (exact below \<open>2 ^ 53\<close>).
\<close>

section \<open>Jobs for the scheduler\<close>

definition short_commit :: "string \<Rightarrow> string" where
  "short_commit c = take (min (length c) 12) c"

record JobSpec =
  js_name :: string
  js_params :: JobParams
  js_batch_key :: string
  js_cost :: rat
  js_group :: string
  js_weight :: rat

abbreviation nul :: char where
  "nul \<equiv> CHR 0x00"

definition make_job_spec :: "CiConfig \<Rightarrow> Job \<Rightarrow> JobSpec" where
  "make_job_spec rc job =
     (let k = job_key job;
          name = short_commit (jk_commit k) @ '' '' @ jk_test k @ '' '' @ jk_subtest k;
          repo_url = unwrap_or (repo_path_url (ktest rc) (jk_repo k)) [];
          params = \<lparr> p_repo = jk_repo k, p_commit = jk_commit k, p_kernel = jk_kernel k, p_env = jk_env k,
                     p_test = jk_test k, p_subtest = jk_subtest k, p_repo_url = repo_url,
                     p_ktest_url = unwrap_or (ktest_url (ktest rc)) [], p_output_dir = output_dir (ktest rc) \<rparr>;
          niceness = job_niceness job + unwrap_or (bt_get (user_nice (ktest rc)) (jk_user k)) 0;
          weight = max (1 + of_int (sint niceness)) (1 / 10);
          batch_key = jk_user k @ [nul] @ jk_repo k @ [nul] @ jk_commit k @ [nul] @ jk_kernel k @ [nul] @
                      jk_env k @ [nul] @ jk_test k
      in \<lparr> js_name = name, js_params = params, js_batch_key = batch_key, js_cost = of_nat (unat (job_duration job)),
           js_group = jk_user k, js_weight = weight \<rparr>)"

section \<open>The window\<close>

text \<open>The scheduler: \<open>remove_finished\<close> is \<open>remove(|_| true)\<close>, which drops the finished jobs; \<open>job_spec\<close> is what was submitted under an id.\<close>

record 'c choir =
  remove_finished :: "'c \<Rightarrow> 'c"
  job_ids :: "'c \<Rightarrow> nat set"
  job_spec :: "'c \<Rightarrow> nat \<Rightarrow> JobSpec"
  submit :: "'c \<Rightarrow> JobSpec \<Rightarrow> nat \<times> 'c"
  status_json :: "'c \<Rightarrow> string option"
  pending_total :: "'c \<Rightarrow> nat"

definition choir_ok :: "'c choir \<Rightarrow> bool" where
  "choir_ok K \<longleftrightarrow>
     (\<forall>c. job_ids K (remove_finished K c) \<subseteq> job_ids K c \<and>
        (\<forall>i \<in> job_ids K (remove_finished K c). job_spec K (remove_finished K c) i = job_spec K c i)) \<and>
     (\<forall>c s i c'. submit K c s = (i, c') \<longrightarrow>
        i \<notin> job_ids K c \<and> job_ids K c' = insert i (job_ids K c) \<and> job_spec K c' i = s \<and>
        (\<forall>j \<in> job_ids K c. job_spec K c' j = job_spec K c j))"

type_synonym job_map = "JobKey \<rightharpoonup> nat"

text \<open>\<open>job_map.retain(|_, id| existing.contains(id))\<close>.\<close>

definition retain_existing :: "nat set \<Rightarrow> job_map \<Rightarrow> job_map" where
  "retain_existing existing jm = (\<lambda>k. case jm k of Some i \<Rightarrow> if i \<in> existing then Some i else None | None \<Rightarrow> None)"

definition submit_one ::
  "'c choir \<Rightarrow> CiConfig \<Rightarrow> Job \<Rightarrow> 'c \<times> job_map \<times> nat \<Rightarrow> 'c \<times> job_map \<times> nat" where
  "submit_one K rc job acc =
     (let (c, jm, submitted) = acc
      in if jm (job_key job) \<noteq> None then (c, jm, submitted)
         else (let (i, c) = submit K c (make_job_spec rc job) in (c, jm(job_key job \<mapsto> i), submitted + 1)))"

definition refill ::
  "durations_capnp \<Rightarrow> git2 \<Rightarrow> host \<Rightarrow> 'c choir \<Rightarrow> CiConfig \<Rightarrow> store \<Rightarrow> nat \<Rightarrow> 'c \<Rightarrow> job_map \<Rightarrow> subtest_cache
    \<Rightarrow> 'c \<times> job_map \<times> nat \<times> subtest_cache" where
  "refill D G H K rc st window c jm cache =
     (let c = remove_finished K c;
          existing = job_ids K c;
          jm = retain_existing existing jm;
          (desired, cache) = desired_jobs D G H rc st cache window;
          (c, jm, submitted) = fold (submit_one K rc) desired (c, jm, 0)
      in (c, jm, submitted, cache))"

definition write_status :: "'c choir \<Rightarrow> 'c \<Rightarrow> store \<Rightarrow> store" where
  "write_status K c st =
     (case status_json K c of
        None \<Rightarrow> st
      | Some json \<Rightarrow>
          (let p = [''ci-daemon-status.json'']; tmp = [''ci-daemon-status.json.new'']
           in case write_file (dsk st) (clock st) tmp json of
                (False, d) \<Rightarrow> st\<lparr>dsk := d\<rparr>
              | (True, d) \<Rightarrow> st\<lparr>dsk := snd (rename_file d tmp p)\<rparr>))"

section \<open>Executors\<close>

datatype JobOutcome = Completed | JobFailed task_error

text \<open>The body of an executor, over the batches it claims one after the other until the scheduler is dropped.\<close>

fun run_executor ::
  "capnp \<Rightarrow> 'w handle \<Rightarrow> string \<Rightarrow> nat \<Rightarrow> ClaimedJob list list \<Rightarrow> 'w \<Rightarrow> store
    \<Rightarrow> (nat \<times> JobOutcome) list \<times> 'w \<times> store" where
  "run_executor C h hst slot [] w st = ([], w, st)"
| "run_executor C h hst slot (batch # claims) w st =
     (let (r, w, st) = run_ktest_job C h hst slot batch w st;
          outcome = (case r of Inr _ \<Rightarrow> Completed | Inl e \<Rightarrow> JobFailed e);
          (reports, w, st) = run_executor C h hst slot claims w st
      in (map (\<lambda>j. (job_id j, outcome)) batch @ reports, w, st))"

text \<open>The executors \<open>main\<close> adds: one per slot of each host, with its name.\<close>

definition executors_of :: "Ktestrc \<Rightarrow> (string \<times> string \<times> nat) list" where
  "executors_of rc =
     concat (map (\<lambda>(hst, ex). map (\<lambda>slot. (hst @ '':'' @ show_nat slot, hst, slot)) [0..<unat (slots ex)]) (executors rc))"

section \<open>The repository fetcher\<close>

text \<open>The branches the fetcher thread keeps current: user, branch, repository path and fetch arguments.\<close>

definition user_branches :: "CiConfig \<Rightarrow> string \<times> (user_error + Userrc) \<Rightarrow> (string \<times> string \<times> string \<times> string) list" where
  "user_branches rc ue =
     (case snd ue of
        Inl _ \<Rightarrow> []
      | Inr u \<Rightarrow>
          List.map_filter (\<lambda>(branch, bc).
             map_option (\<lambda>rp. (fst ue, branch, rp, fetch bc)) (repo_path (ktest rc) (repo bc))) (branches u))"

definition fetcher_branches :: "CiConfig \<Rightarrow> (string \<times> string \<times> string \<times> string) list" where
  "fetcher_branches rc = concat (map (user_branches rc) (users rc))"

text \<open>\<open>fetch_branch\<close>: the state \<open>g\<close> of the repositories is read through \<open>view\<close>; \<open>run_fetch\<close> is the \<open>git fetch\<close>
  command, \<open>set_branch\<close> moves a local branch.\<close>

record 'g git_world =
  view :: "'g \<Rightarrow> git2"
  run_fetch :: "'g \<Rightarrow> string \<Rightarrow> string list \<Rightarrow> bool option \<times> 'g"
  set_branch :: "'g \<Rightarrow> string \<Rightarrow> string \<Rightarrow> string \<Rightarrow> 'g option"

datatype fetch_error = Spawn | FetchFailed | OpenRepo | NoFetchHead | NoBranch

definition fetch_branch ::
  "'g git_world \<Rightarrow> 'g \<Rightarrow> string \<Rightarrow> string \<Rightarrow> string \<Rightarrow> string \<Rightarrow> (fetch_error + unit) \<times> 'g" where
  "fetch_branch W g p user branch fetch_args =
     (case run_fetch W g p (split_whitespace fetch_args) of
        (None, g) \<Rightarrow> (Inl Spawn, g)
      | (Some ok, g) \<Rightarrow>
          if \<not> ok then (Inl FetchFailed, g)
          else if \<not> open_repo (view W g) p then (Inl OpenRepo, g)
          else
            (case git_get_commit (view W g) p ''FETCH_HEAD'' of
               None \<Rightarrow> (Inl NoFetchHead, g)
             | Some fetch_head \<Rightarrow>
                 (case set_branch W g p (user @ ''/'' @ branch) fetch_head of
                    None \<Rightarrow> (Inl NoBranch, g)
                  | Some g \<Rightarrow> (Inr (), g))))"

definition fetch_round :: "'g git_world \<Rightarrow> (string \<times> string \<times> string \<times> string) list \<Rightarrow> 'g \<Rightarrow> 'g" where
  "fetch_round W bs g = fold (\<lambda>(user, branch, p, fetch_args) g. snd (fetch_branch W g p user branch fetch_args)) bs g"

section \<open>The main loop\<close>

text \<open>When the daemon refills again: the wait ends once the pending jobs are at most a quarter of the window.\<close>

definition drained :: "'c choir \<Rightarrow> nat \<Rightarrow> 'c \<Rightarrow> bool" where
  "drained K window c \<longleftrightarrow> pending_total K c \<le> window div 4"

definition main_round ::
  "durations_capnp \<Rightarrow> git2 \<Rightarrow> host \<Rightarrow> 'c choir \<Rightarrow> CiConfig \<Rightarrow> nat option \<Rightarrow> 'c \<Rightarrow> job_map \<Rightarrow> subtest_cache \<Rightarrow> store
    \<Rightarrow> 'c \<times> job_map \<times> subtest_cache \<times> store" where
  "main_round D G H K rc limit c jm cache st =
     (let window = unwrap_or limit 2000;
          (c, jm, _, cache) = refill D G H K rc st window c jm cache
      in (c, jm, cache, write_status K c st))"

section \<open>The window: lemmas\<close>

definition tracks_distinct :: "job_map \<Rightarrow> bool" where
  "tracks_distinct jm \<longleftrightarrow> (\<forall>k k' i. jm k = Some i \<longrightarrow> jm k' = Some i \<longrightarrow> k = k')"

definition tracks_existing :: "'c choir \<Rightarrow> 'c \<Rightarrow> job_map \<Rightarrow> bool" where
  "tracks_existing K c jm \<longleftrightarrow> ran jm \<subseteq> job_ids K c"

lemma retain_existing_get:
  "retain_existing ids jm k = Some i \<longleftrightarrow> jm k = Some i \<and> i \<in> ids"
  by (auto simp: retain_existing_def split: option.splits)

lemma submit_fold:
  assumes "choir_ok K" and "tracks_distinct jm" and "tracks_existing K c jm"
    and "fold (submit_one K rc) js (c, jm, n) = (c', jm', n')"
  shows "tracks_distinct jm' \<and> tracks_existing K c' jm' \<and> dom jm' = dom jm \<union> job_key ` set js \<and>
    (\<forall>k \<in> dom jm. jm' k = jm k) \<and> n' = n + card (job_key ` set js - dom jm)"
  using assms(2-)
proof (induction js arbitrary: c jm n)
  case (Cons j js)
  show ?case
  proof (cases "jm (job_key j) = None")
    case False
    then have "submit_one K rc j (c, jm, n) = (c, jm, n)" by (simp add: submit_one_def)
    with Cons.IH [OF Cons.prems(1,2)] Cons.prems(3) False show ?thesis
      by (auto simp: insert_Diff_if)
  next
    case True
    obtain i c1 where s: "submit K c (make_job_spec rc j) = (i, c1)" by fastforce
    with assms(1) have i: "i \<notin> job_ids K c" "job_ids K c1 = insert i (job_ids K c)" by (auto simp: choir_ok_def)
    let ?jm = "jm(job_key j \<mapsto> i)"
    have one: "submit_one K rc j (c, jm, n) = (c1, ?jm, n + 1)" using True s by (simp add: submit_one_def)
    have fresh: "jm k \<noteq> Some i" for k
      using Cons.prems(2) i(1) by (auto simp: tracks_existing_def ran_def)
    have "tracks_distinct ?jm" using Cons.prems(1) fresh by (auto simp: tracks_distinct_def)
    moreover have "tracks_existing K c1 ?jm" using Cons.prems(2) i(2) True by (auto simp: tracks_existing_def)
    moreover have "fold (submit_one K rc) js (c1, ?jm, n + 1) = (c', jm', n')" using Cons.prems(3) one by simp
    ultimately have IH: "tracks_distinct jm' \<and> tracks_existing K c' jm' \<and> dom jm' = dom ?jm \<union> job_key ` set js \<and>
        (\<forall>k \<in> dom ?jm. jm' k = ?jm k) \<and> n' = n + 1 + card (job_key ` set js - dom ?jm)"
      by (rule Cons.IH)
    have "job_key ` set (j # js) - dom jm = insert (job_key j) (job_key ` set js - dom ?jm)"
      using True by auto
    then have "card (job_key ` set (j # js) - dom jm) = 1 + card (job_key ` set js - dom ?jm)" by simp
    moreover have "jm' k = jm k" if "k \<in> dom jm" for k
      using IH that True by (auto split: if_splits)
    ultimately show ?thesis using IH by auto
  qed
qed simp

definition key_status :: "store \<Rightarrow> JobKey \<Rightarrow> TestStatus option" where
  "key_status st k = lookup st (jk_commit k) (subtest_result_key (jk_test k) (jk_subtest k) (jk_kernel k) (jk_env k))"

lemma desired_wanted:
  assumes "j \<in> set (fst (desired_jobs D G H rc st cache n))"
  shows "job_wanted (key_status st (job_key j))"
proof -
  let ?jobs = "all_jobs D (durations_map (dsk st)) rc st (fst (build_test_specs G H rc cache))"
  have "set (fst (desired_jobs D G H rc st cache n)) \<subseteq> set (retain_first {} (sort_key job_order ?jobs))"
    by (auto simp: desired_jobs_def Let_def case_prod_unfold dest: in_set_takeD)
  then have "j \<in> set ?jobs" using assms retain_first_subset [of "{}" "sort_key job_order ?jobs"] by auto
  then show ?thesis by (auto simp: set_all_jobs wanted_jobs_def job_of_def key_status_def)
qed

lemma desired_length: "length (fst (desired_jobs D G H rc st cache n)) \<le> n"
  by (simp add: desired_jobs_def Let_def case_prod_unfold)

section \<open>Batches and executors: lemmas\<close>

lemma nul_inject:
  assumes "nul \<notin> set a" and "nul \<notin> set a'" and "a @ [nul] @ b = a' @ [nul] @ b'"
  shows "a = a' \<and> b = b'"
  using append_sep_inject [OF assms(1,2)] assms(3) by simp

definition nul_free :: "JobKey \<Rightarrow> bool" where
  "nul_free k \<longleftrightarrow> (\<forall>s \<in> {jk_user k, jk_repo k, jk_commit k, jk_kernel k, jk_env k, jk_test k}. nul \<notin> set s)"

lemma batch_key_inject:
  assumes "nul_free (job_key j)" and "nul_free (job_key j')"
    and "js_batch_key (make_job_spec rc j) = js_batch_key (make_job_spec rc j')"
  shows "job_key j' = (job_key j)\<lparr>jk_subtest := jk_subtest (job_key j')\<rparr>"
proof -
  let ?k = "job_key j" and ?k' = "job_key j'"
  have "jk_user ?k @ [nul] @ jk_repo ?k @ [nul] @ jk_commit ?k @ [nul] @ jk_kernel ?k @ [nul] @ jk_env ?k @ [nul] @ jk_test ?k =
      jk_user ?k' @ [nul] @ jk_repo ?k' @ [nul] @ jk_commit ?k' @ [nul] @ jk_kernel ?k' @ [nul] @ jk_env ?k' @ [nul] @ jk_test ?k'"
    using assms(3) by (simp add: make_job_spec_def Let_def)
  moreover note free = assms(1,2) [unfolded nul_free_def, simplified]
  ultimately have u: "jk_user ?k = jk_user ?k'" and 1: "jk_repo ?k @ [nul] @ jk_commit ?k @ [nul] @ jk_kernel ?k @ [nul] @ jk_env ?k @ [nul] @ jk_test ?k =
      jk_repo ?k' @ [nul] @ jk_commit ?k' @ [nul] @ jk_kernel ?k' @ [nul] @ jk_env ?k' @ [nul] @ jk_test ?k'"
    using nul_inject by blast+
  have r: "jk_repo ?k = jk_repo ?k'" and 2: "jk_commit ?k @ [nul] @ jk_kernel ?k @ [nul] @ jk_env ?k @ [nul] @ jk_test ?k =
      jk_commit ?k' @ [nul] @ jk_kernel ?k' @ [nul] @ jk_env ?k' @ [nul] @ jk_test ?k'"
    using nul_inject [OF _ _ 1] free by blast+
  have c: "jk_commit ?k = jk_commit ?k'" and 3: "jk_kernel ?k @ [nul] @ jk_env ?k @ [nul] @ jk_test ?k =
      jk_kernel ?k' @ [nul] @ jk_env ?k' @ [nul] @ jk_test ?k'"
    using nul_inject [OF _ _ 2] free by blast+
  have kn: "jk_kernel ?k = jk_kernel ?k'" and 4: "jk_env ?k @ [nul] @ jk_test ?k = jk_env ?k' @ [nul] @ jk_test ?k'"
    using nul_inject [OF _ _ 3] free by blast+
  from nul_inject [OF _ _ 4] free u r c kn show ?thesis by simp
qed

lemma colon_not_digit: "CHR '':'' \<notin> set (show_nat n)"
  by (rule show_nat_digits) (simp add: digit_value_def)


lemma slot_bound: "slot < unat (x :: u32) \<Longrightarrow> slot < 2 ^ 64"
proof -
  assume "slot < unat x"
  moreover have "unat x < 2 ^ 64" by (rule order_less_le_trans [OF unsigned_less]) simp
  ultimately show ?thesis by simp
qed

lemma executor_name_inject:
  assumes "m < 2 ^ 64" and "n < 2 ^ 64"
  shows "a @ '':'' @ show_nat m = b @ '':'' @ show_nat n \<longleftrightarrow> a = b \<and> m = n"
proof -
  have "a @ '':'' @ show_nat m = b @ '':'' @ show_nat n \<longleftrightarrow>
      rev (show_nat m) @ CHR '':'' # rev a = rev (show_nat n) @ CHR '':'' # rev b"
    by (metis append.assoc append_Cons append_Nil rev_append rev_rev_ident rev_singleton_conv)
  also have "\<dots> \<longleftrightarrow> show_nat m = show_nat n \<and> a = b"
    using append_sep_inject [of "CHR '':''" "rev (show_nat m)" "rev (show_nat n)" "rev a" "rev b"]
      colon_not_digit by simp
  finally show ?thesis using show_nat_inject [OF assms] by blast
qed

lemma executors_of_mem:
  "(n, hst, slot) \<in> set (executors_of rc) \<longleftrightarrow>
     (\<exists>ex. (hst, ex) \<in> set (executors rc) \<and> slot < unat (slots ex) \<and> n = hst @ '':'' @ show_nat slot)"
proof
  assume "\<exists>ex. (hst, ex) \<in> set (executors rc) \<and> slot < unat (slots ex) \<and> n = hst @ '':'' @ show_nat slot"
  then obtain ex where ex: "(hst, ex) \<in> set (executors rc)" "slot < unat (slots ex)" "n = hst @ '':'' @ show_nat slot"
    by blast
  then show "(n, hst, slot) \<in> set (executors_of rc)"
    by (simp add: executors_of_def) (rule bexI [OF _ ex(1)], simp add: image_iff)
qed (auto simp: executors_of_def)

lemma names_distinct:
  "distinct (map fst es) \<Longrightarrow>
     distinct (map fst (concat (map (\<lambda>(hst, ex). map (\<lambda>slot. (hst @ '':'' @ show_nat slot, hst, slot)) [0..<unat (slots ex)]) es)))"
proof (induction es)
  case (Cons e es)
  obtain hst ex where e: "e = (hst, ex)" by fastforce
  let ?l = "\<lambda>(hst, ex). map (\<lambda>slot. (hst @ '':'' @ show_nat slot, hst, slot)) [0..<unat (slots ex)]"
  have one: "distinct (map fst (?l e))"
    using show_nat_inject slot_bound [of _ "slots ex"]
    by (auto simp: e distinct_map inj_on_def comp_def)
  have shape: "\<exists>a x slot. (a, x) \<in> set fs \<and> slot < unat (slots x) \<and> n = a @ '':'' @ show_nat slot"
    if "n \<in> fst ` set (concat (map ?l fs))" for n fs
    using that by auto blast
  have "n \<notin> fst ` set (concat (map ?l es))" if "n \<in> fst ` set (?l e)" for n
  proof
    assume "n \<in> fst ` set (concat (map ?l es))"
    with shape obtain a x slot where a: "(a, x) \<in> set es" "slot < unat (slots x)" "n = a @ '':'' @ show_nat slot" by blast
    from that obtain slot' where "slot' < unat (slots ex)" "n = hst @ '':'' @ show_nat slot'" by (auto simp: e)
    with a executor_name_inject [of slot slot' a hst] slot_bound have "a = hst" by metis
    then show False using Cons.prems a(1) by (auto simp: e image_iff)
  qed
  then have "set (map fst (?l e)) \<inter> set (map fst (concat (map ?l es))) = {}" unfolding set_map by blast
  with one Cons show ?case by (simp only: list.map concat.simps map_append distinct_append) simp
qed simp

section \<open>Properties\<close>

text \<open>C10: A refill submits every desired job once and no job twice. Starting from a map that tracks no job under two keys:
  afterwards the map tracks existing jobs only, again none under two keys; a key whose job still exists
  keeps that job and is not submitted again; the keys tracked are those and the keys of the desired jobs; the number submitted is the
  number of desired keys that were not tracked, at most the window; and every key that was
  submitted has neither a verdict nor a run in progress in the store.\<close>

theorem refill_submits_once:
  assumes "choir_ok K" and "tracks_distinct jm"
    and "refill D G H K rc st window c jm cache = (c', jm', submitted, cache')"
    and "live = {k. \<exists>i. jm k = Some i \<and> i \<in> job_ids K (remove_finished K c)}"
    and "desired = job_key ` set (fst (desired_jobs D G H rc st cache window))"
  shows "tracks_distinct jm' \<and> tracks_existing K c' jm' \<and> (\<forall>k \<in> live. jm' k = jm k) \<and>
    dom jm' = live \<union> desired \<and> submitted = card (desired - live) \<and> submitted \<le> window \<and>
    (\<forall>k \<in> dom jm' - live. job_wanted (key_status st k))"
proof -
  let ?jm = "retain_existing (job_ids K (remove_finished K c)) jm"
  have run: "fold (submit_one K rc) (fst (desired_jobs D G H rc st cache window)) (remove_finished K c, ?jm, 0) = (c', jm', submitted)"
    using assms(3) by (simp add: refill_def Let_def split: prod.splits)
  have d: "tracks_distinct ?jm" using assms(2) unfolding tracks_distinct_def retain_existing_get by blast
  have e: "tracks_existing K (remove_finished K c) ?jm"
    by (auto simp: tracks_existing_def ran_def retain_existing_get)
  have live: "dom ?jm = live" by (auto simp: dom_def retain_existing_get assms(4))
  have "card (desired - live) \<le> window"
  proof -
    have "card (desired - live) \<le> card desired" by (intro card_mono) (auto simp: assms(5))
    also have "\<dots> \<le> length (fst (desired_jobs D G H rc st cache window))"
      unfolding assms(5) using card_image_le [of "set (fst (desired_jobs D G H rc st cache window))" job_key]
        card_length [of "fst (desired_jobs D G H rc st cache window)"] by simp
    finally show ?thesis using desired_length [of D G H rc st cache window] by simp
  qed
  moreover have "?jm k = jm k" if "k \<in> live" for k
    using that by (auto simp: assms(4) retain_existing_def)
  moreover have "job_wanted (key_status st k)" if "k \<in> desired" for k
    using that desired_wanted by (auto simp: assms(5))
  ultimately show ?thesis
    using submit_fold [OF assms(1) d e run] live assms(5) by auto
qed

text \<open>A scheduler that numbers its jobs and never finishes one.\<close>

definition sample_choir :: "JobSpec list choir" where
  "sample_choir = \<lparr> remove_finished = (\<lambda>js. js), job_ids = (\<lambda>js. {..<length js}), job_spec = (\<lambda>js i. js ! i),
     submit = (\<lambda>js s. (length js, js @ [s])), status_json = (\<lambda>js. None), pending_total = length \<rparr>"

lemma sample_choir_ok: "choir_ok sample_choir"
  by (auto simp: choir_ok_def sample_choir_def nth_append)

theorem refill_submits_once_witness:
  "\<exists>c' jm' submitted cache'.
     refill sample_durations sample_git sample_host sample_choir sample_rc sample_store 3 [] Map.empty Map.empty =
       (c', jm', submitted, cache') \<and> submitted \<le> 3 \<and>
     dom jm' = job_key ` set (fst (desired_jobs sample_durations sample_git sample_host sample_rc sample_store Map.empty 3))"
proof -
  obtain c' jm' submitted cache' where run:
    "refill sample_durations sample_git sample_host sample_choir sample_rc sample_store 3 [] Map.empty Map.empty =
       (c', jm', submitted, cache')"
    using prod_cases4 by blast
  have "tracks_distinct Map.empty" by (simp add: tracks_distinct_def)
  from refill_submits_once [OF sample_choir_ok this run HOL.refl HOL.refl] run show ?thesis by simp
qed

text \<open>Jobs that share a batch key belong in one machine. When no field of their keys has a NUL byte, two jobs with the
  same batch key have equal keys but for the subtest; so a list of jobs with one batch key, as an executor
  claims it, is a batch in the sense \<open>run_ktest_job\<close> relies on: one repository, commit, kernel, environment and test.\<close>

theorem make_job_spec_batches:
  assumes "js \<noteq> []" and "\<forall>j \<in> set js. nul_free (job_key j)"
    and "\<forall>j \<in> set js. js_batch_key (make_job_spec rc j) = js_batch_key (make_job_spec rc (hd js))"
  shows "(\<forall>j \<in> set js. job_key j = (job_key (hd js))\<lparr>jk_subtest := jk_subtest (job_key j)\<rparr>) \<and>
    batch_ok (map (\<lambda>j. \<lparr> job_id = f j, payload = js_params (make_job_spec rc j) \<rparr>) js)"
proof -
  have hd: "hd js \<in> set js" using assms(1) by simp
  have key: "job_key j = (job_key (hd js))\<lparr>jk_subtest := jk_subtest (job_key j)\<rparr>" if "j \<in> set js" for j
  proof (rule batch_key_inject)
    show "nul_free (job_key (hd js))" and "nul_free (job_key j)" using assms(2) hd that by blast+
    show "js_batch_key (make_job_spec rc (hd js)) = js_batch_key (make_job_spec rc j)"
      using bspec [OF assms(3) that] by (rule sym)
  qed
  have params: "js_params (make_job_spec rc j) =
      (js_params (make_job_spec rc (hd js)))\<lparr>p_subtest := p_subtest (js_params (make_job_spec rc j))\<rparr>" if j: "j \<in> set js" for j
  proof -
    obtain s where "job_key j = (job_key (hd js))\<lparr>jk_subtest := s\<rparr>" using key [OF j] by blast
    then show ?thesis by (simp add: make_job_spec_def Let_def)
  qed
  then have "batch_ok (map (\<lambda>j. \<lparr> job_id = f j, payload = js_params (make_job_spec rc j) \<rparr>) js)"
    using assms(1) by (simp add: batch_ok_def list.map_sel(1))
  then show ?thesis using key by blast
qed

definition sample_job :: "string \<Rightarrow> Job" where
  "sample_job s = job_of sample_durations None sample_rc sample_spec 0 s ''''"

theorem make_job_spec_batches_witness:
  "batch_ok (map (\<lambda>j. \<lparr> job_id = 0, payload = js_params (make_job_spec sample_rc j) \<rparr>) [sample_job ''a'', sample_job ''b''])"
proof -
  let ?js = "[sample_job ''a'', sample_job ''b'']"
  have "\<forall>j \<in> set ?js. nul_free (job_key j)"
    by (simp add: nul_free_def sample_job_def job_of_def sample_spec_def)
  moreover have "\<forall>j \<in> set ?js. js_batch_key (make_job_spec sample_rc j) = js_batch_key (make_job_spec sample_rc (hd ?js))"
    by (simp add: make_job_spec_def Let_def sample_job_def job_of_def)
  ultimately show ?thesis using make_job_spec_batches [of ?js sample_rc "\<lambda>_. 0"] by simp
qed

text \<open>No two executors get in each other's way: their names are all different, and two executors of one host work in different
  directories there.\<close>

theorem executors_isolated:
  assumes "bt_ok (executors rc)"
  shows "distinct (map fst (executors_of rc)) \<and>
    (\<forall>(n, hst, slot) \<in> set (executors_of rc). \<forall>(n', hst', slot') \<in> set (executors_of rc).
       n \<noteq> n' \<longrightarrow> hst = hst' \<longrightarrow> workspace slot \<noteq> workspace slot')"
proof
  show "distinct (map fst (executors_of rc))"
    using names_distinct bt.entries_distinct [OF assms] by (simp add: executors_of_def)
  show "\<forall>(n, hst, slot) \<in> set (executors_of rc). \<forall>(n', hst', slot') \<in> set (executors_of rc).
       n \<noteq> n' \<longrightarrow> hst = hst' \<longrightarrow> workspace slot \<noteq> workspace slot'"
    using show_nat_inject slot_bound by (auto simp: executors_of_mem workspace_def)
qed

theorem executors_isolated_witness:
  "distinct (map fst (executors_of (sample_ktestrc\<lparr>executors := [(''w1'', \<lparr>slots = 12\<rparr>), (''w2'', \<lparr>slots = 3\<rparr>)]\<rparr>)))"
proof -
  have "bt_ok (executors (sample_ktestrc\<lparr>executors := [(''w1'', \<lparr>slots = 12\<rparr>), (''w2'', \<lparr>slots = 3\<rparr>)]\<rparr>))"
    by (simp add: bt_ok_def)
  from executors_isolated [OF this] show ?thesis by blast
qed

text \<open>C35: The fetcher keeps current every branch the job matrix reads: each spec of the matrix takes its commits from the
  local branch of a user in a repository, and that user, branch and repository path are among those fetched.\<close>

theorem fetcher_covers_matrix:
  assumes "cache_fresh H cache" and "spec \<in> set (fst (build_test_specs G H rc cache))"
  shows "\<exists>branch rp fetch_args. (ts_user spec, branch, rp, fetch_args) \<in> set (fetcher_branches rc) \<and>
    branch_commits G rp (ts_user spec @ ''/'' @ branch) (unat (max_commits (tg spec))) = Some (commits spec)"
proof -
  obtain ue where ue: "ue \<in> set (users rc)" "spec \<in> set (user_specs G H rc ue)"
    using build_test_specs_eq [OF assms(1), of G rc] assms(2) by auto
  then obtain u branch b n where u: "snd ue = Inr u" "(branch, b) \<in> set (branches u)"
    and n: "spec \<in> set (group_specs G H rc (fst ue) u branch b n)"
    by (cases "snd ue") (auto simp: user_specs_def)
  then obtain g en cs where g: "group_ready G rc (fst ue) u branch b n = Some (g, en, cs)"
    and spec: "ts_user spec = fst ue" "tg spec = g" "commits spec = cs"
    by (cases "group_ready G rc (fst ue) u branch b n") (auto simp: group_specs_def spec_of_def Let_def split: if_splits)
  from g obtain rp where rp: "repo_path (ktest rc) (repo b) = Some rp"
    and cs: "branch_commits G rp (fst ue @ ''/'' @ branch) (unat (max_commits g)) = Some cs"
    by (auto simp: group_ready_def split: option.splits sum.splits if_splits)
  have "(fst ue, branch, rp, fetch b) \<in> set (user_branches rc ue)"
    using u rp by (auto simp: user_branches_def map_filter_set intro!: bexI [of _ "(branch, b)"])
  then show ?thesis using ue(1) spec cs unfolding fetcher_branches_def by auto
qed

theorem fetcher_covers_matrix_witness:
  "\<exists>branch rp fetch_args. (''kent'', branch, rp, fetch_args) \<in> set (fetcher_branches sample_rc)"
proof -
  have "cache_fresh sample_host Map.empty" by (simp add: cache_fresh_def)
  moreover have "sample_spec \<in> set (fst (build_test_specs sample_git sample_host sample_rc Map.empty))"
    by (simp add: sample_specs)
  ultimately have "\<exists>branch rp fetch_args. (ts_user sample_spec, branch, rp, fetch_args) \<in> set (fetcher_branches sample_rc)"
    using fetcher_covers_matrix by blast
  then show ?thesis by (simp add: sample_spec_def)
qed

end
