(* ===== verification/Gc_Results.thy ===== *)
theory Gc_Results
  imports Job_Matrix
begin

text \<open>
  Garbage collection of results (\<open>src/bin/gc-results.rs\<close>): the commits that are live, which entries of the
  results directory belong to them, and the loop that deletes the rest.

  The clock is read as \<open>now\<close>. The tree of \<open>Disk\<close> has modification times of files; those of directories
  (and of what a link points at) are the second part of the state. A panic (an \<open>unwrap\<close> that fails, a slice that
  cuts a character) ends the program and leaves what was done so far. Names are bytes; one that is not UTF-8
  is not live. \<open>revwalk r\<close> says whether \<open>Repository::revwalk\<close> succeeds on a repository.
\<close>

section \<open>Live commits\<close>

definition branch_get_commits :: "(string \<Rightarrow> bool) \<Rightarrow> git2 \<Rightarrow> string \<Rightarrow> string \<Rightarrow> u64 \<Rightarrow> string list option" where
  "branch_get_commits revwalk G rp branch mx =
     (if \<not> revwalk rp then None
      else case git_get_commit G rp branch of
        None \<Rightarrow> Some []
      | Some reference \<Rightarrow>
          (case walk G rp reference of
             None \<Rightarrow> Some []
           | Some ids \<Rightarrow> Some (filter (\<lambda>i. find_commit G rp i \<noteq> None) (take (unat mx) (List.map_filter id ids)))))"

text \<open>The loop over the branches of a user and the loop over the users; \<open>None\<close> is a panic.\<close>

fun branches_live_commits ::
  "(string \<Rightarrow> bool) \<Rightarrow> git2 \<Rightarrow> Ktestrc \<Rightarrow> u64 \<Rightarrow> string \<Rightarrow> (string \<times> RcBranch) list \<Rightarrow> string set \<Rightarrow> string set option" where
  "branches_live_commits revwalk G rc depth user [] ret = Some ret"
| "branches_live_commits revwalk G rc depth user ((branch, branch_config) # bs) ret =
     (case repo_path rc (repo branch_config) of
        None \<Rightarrow> branches_live_commits revwalk G rc depth user bs ret
      | Some p \<Rightarrow>
          if \<not> open_repo G p then branches_live_commits revwalk G rc depth user bs ret
          else (case branch_get_commits revwalk G p (user @ ''/'' @ branch) depth of
                  None \<Rightarrow> None
                | Some cs \<Rightarrow> branches_live_commits revwalk G rc depth user bs (fold insert cs ret)))"

fun users_live_commits ::
  "(string \<Rightarrow> bool) \<Rightarrow> git2 \<Rightarrow> Ktestrc \<Rightarrow> u64 \<Rightarrow> (string \<times> (user_error + Userrc)) list \<Rightarrow> string set \<Rightarrow> string set option" where
  "users_live_commits revwalk G rc depth [] ret = Some ret"
| "users_live_commits revwalk G rc depth ((user, u) # us) ret =
     (case u of
        Inl _ \<Rightarrow> users_live_commits revwalk G rc depth us ret
      | Inr userconfig \<Rightarrow>
          (case branches_live_commits revwalk G rc depth user (branches userconfig) ret of
             None \<Rightarrow> None
           | Some ret \<Rightarrow> users_live_commits revwalk G rc depth us ret))"

definition get_live_commits :: "(string \<Rightarrow> bool) \<Rightarrow> git2 \<Rightarrow> CiConfig \<Rightarrow> string set option" where
  "get_live_commits revwalk G rc =
     (let depth = unwrap_or (keep_results_commits (ktest rc)) 500
      in users_live_commits revwalk G (ktest rc) depth (users rc) {})"

section \<open>The loop over the results directory\<close>

record gc_state =
  gc_dsk :: disk
  dir_mtime :: "string \<Rightarrow> int option"

text \<open>\<open>metadata().modified()\<close> of an entry; opening it and \<open>set_modified\<close>, whose failures the code ignores.\<close>

definition modified :: "gc_state \<Rightarrow> string \<Rightarrow> int option" where
  "modified s n =
     (case node_at (tree (gc_dsk s)) [n] of
        None \<Rightarrow> None
      | Some (File _ t) \<Rightarrow> Some t
      | Some _ \<Rightarrow> dir_mtime s n)"

definition set_modified :: "gc_state \<Rightarrow> string \<Rightarrow> int \<Rightarrow> gc_state" where
  "set_modified s n now =
     (if fault (gc_dsk s) Touch [n] then s
      else case node_at (tree (gc_dsk s)) [n] of
        None \<Rightarrow> s
      | Some (File b _) \<Rightarrow>
          (case put_node (tree (gc_dsk s)) [n] (Some (File b now)) of
             None \<Rightarrow> s
           | Some t \<Rightarrow> s\<lparr>gc_dsk := (gc_dsk s)\<lparr>tree := t\<rparr>\<rparr>)
      | Some _ \<Rightarrow> s\<lparr>dir_mtime := (dir_mtime s)(n \<mapsto> now)\<rparr>)"

definition result_is_live :: "string set \<Rightarrow> int \<Rightarrow> gc_state \<Rightarrow> string \<Rightarrow> bool option \<times> gc_state" where
  "result_is_live live now s fname =
     (if \<not> is_utf8 fname then (Some False, s)
      else if length fname < 40 then (Some True, s)
      else (case slice_to fname 40 of
              None \<Rightarrow> (None, s)
            | Some c \<Rightarrow> if c \<in> live then (Some True, set_modified s fname now) else (Some False, s)))"

definition remove_entry :: "disk \<Rightarrow> string \<Rightarrow> disk" where
  "remove_entry d n = (if is_dir d [n] then snd (remove_dir_all d [n]) else snd (remove_file d [n]))"

fun gc_entries :: "bool \<Rightarrow> string set \<Rightarrow> int \<Rightarrow> string list \<Rightarrow> gc_state \<Rightarrow> bool \<times> gc_state" where
  "gc_entries dry_run live now [] s = (True, s)"
| "gc_entries dry_run live now (n # ns) s =
     (case result_is_live live now s n of
        (None, s) \<Rightarrow> (False, s)
      | (Some True, s) \<Rightarrow> gc_entries dry_run live now ns s
      | (Some False, s) \<Rightarrow>
          (case modified s n of
             None \<Rightarrow> (False, s)
           | Some t \<Rightarrow>
               if t < now - 3600 then
                 gc_entries dry_run live now ns
                   (if dry_run then s else s\<lparr>gc_dsk := remove_entry (gc_dsk s) n\<rparr>)
               else gc_entries dry_run live now ns s))"

datatype gc_outcome = Exit1 config_error | Panicked | Finished

definition gc_results ::
  "(string \<Rightarrow> bool) \<Rightarrow> git2 \<Rightarrow> config_error + CiConfig \<Rightarrow> bool \<Rightarrow> int \<Rightarrow> gc_state \<Rightarrow> gc_outcome \<times> gc_state" where
  "gc_results revwalk G cfg dry_run now s =
     (case cfg of
        Inl e \<Rightarrow> (Exit1 e, s)
      | Inr rc \<Rightarrow>
          (case get_live_commits revwalk G rc of
             None \<Rightarrow> (Panicked, s)
           | Some live \<Rightarrow>
               (case read_dir (gc_dsk s) [] of
                  None \<Rightarrow> (Panicked, s)
                | Some names \<Rightarrow>
                    (case gc_entries dry_run live now names s of
                       (ok, s) \<Rightarrow> (if ok then Finished else Panicked, s)))))"

section \<open>Lemmas on live commits\<close>

lemma fold_insert: "fold insert xs A = set xs \<union> A"
  by (induction xs arbitrary: A) auto

text \<open>The live commits of one branch, when nothing panics.\<close>

definition branch_live :: "git2 \<Rightarrow> Ktestrc \<Rightarrow> u64 \<Rightarrow> string \<Rightarrow> string \<times> RcBranch \<Rightarrow> string set" where
  "branch_live G rc depth user b =
     (case repo_path rc (repo (snd b)) of
        None \<Rightarrow> {}
      | Some p \<Rightarrow> if open_repo G p then set (the (branch_get_commits (\<lambda>_. True) G p (user @ ''/'' @ fst b) depth)) else {})"

lemma branch_get_commits_True:
  "branch_get_commits revwalk G p b mx = Some cs \<Longrightarrow> branch_get_commits (\<lambda>_. True) G p b mx = Some cs"
  by (auto simp: branch_get_commits_def split: if_splits)

lemma branches_live_commits_eq:
  "branches_live_commits revwalk G rc depth user bs ret = Some live \<Longrightarrow>
     live = (\<Union>b \<in> set bs. branch_live G rc depth user b) \<union> ret"
proof (induction bs arbitrary: ret)
  case (Cons x bs)
  obtain branch cfg where x: "x = (branch, cfg)" by fastforce
  consider "branch_live G rc depth user x = {}" "branches_live_commits revwalk G rc depth user bs ret = Some live"
    | cs where "branch_live G rc depth user x = set cs" "branches_live_commits revwalk G rc depth user bs (set cs \<union> ret) = Some live"
    using Cons.prems by (auto simp: x branch_live_def fold_insert branch_get_commits_True split: option.splits if_splits)
  then show ?case by cases (use Cons.IH in auto)
qed simp

lemma users_live_commits_eq:
  "users_live_commits revwalk G rc depth us ret = Some live \<Longrightarrow>
     live = {c. \<exists>user u b. (user, Inr u) \<in> set us \<and> b \<in> set (branches u) \<and> c \<in> branch_live G rc depth user b} \<union> ret"
proof (induction us arbitrary: ret)
  case (Cons x us)
  obtain user u where x: "x = (user, u)" by fastforce
  show ?case
  proof (cases u)
    case (Inl e)
    then show ?thesis using Cons x by simp
  next
    case (Inr c)
    then obtain ret1 where ret1: "branches_live_commits revwalk G rc depth user (branches c) ret = Some ret1"
      and live: "users_live_commits revwalk G rc depth us ret1 = Some live"
      using Cons.prems x by (auto split: option.splits)
    show ?thesis unfolding Cons.IH [OF live] branches_live_commits_eq [OF ret1] x Inr by auto
  qed
qed simp

lemma get_live_commits_iff:
  assumes "get_live_commits revwalk G rc = Some live"
  shows "c \<in> live \<longleftrightarrow>
     (\<exists>user u b. (user, Inr u) \<in> set (users rc) \<and> b \<in> set (branches u) \<and>
        c \<in> branch_live G (ktest rc) (unwrap_or (keep_results_commits (ktest rc)) 500) user b)"
  using users_live_commits_eq assms by (fastforce simp: get_live_commits_def)

lemma branches_live_total:
  "(\<And>p. revwalk p) \<Longrightarrow> \<exists>live. branches_live_commits revwalk G rc depth user bs ret = Some live"
  by (induction revwalk G rc depth user bs ret rule: branches_live_commits.induct)
    (auto simp: branch_get_commits_def split: option.splits)

lemma users_live_total:
  "(\<And>p. revwalk p) \<Longrightarrow> \<exists>live. users_live_commits revwalk G rc depth us ret = Some live"
proof (induction us arbitrary: ret)
  case (Cons x us)
  then show ?case
    using branches_live_total [of revwalk G rc depth "fst x" _ ret]
    by (cases x; cases "snd x") (fastforce split: option.splits)+
qed simp

lemma get_live_commits_total: "(\<And>p. revwalk p) \<Longrightarrow> \<exists>live. get_live_commits revwalk G rc = Some live"
  by (simp add: get_live_commits_def users_live_total)

section \<open>Lemmas on the loop\<close>

text \<open>What may be deleted, and the names on which the loop does not panic.\<close>

definition dead :: "string set \<Rightarrow> int \<Rightarrow> gc_state \<Rightarrow> string \<Rightarrow> bool" where
  "dead live now s n \<longleftrightarrow>
     (is_utf8 n \<longrightarrow> 40 \<le> length n \<and> take 40 n \<notin> live) \<and> (\<exists>t. modified s n = Some t \<and> t < now - 3600)"

definition name_ok :: "string \<Rightarrow> bool" where
  "name_ok n \<longleftrightarrow> (is_utf8 n \<and> 40 \<le> length n \<longrightarrow> is_char_boundary n 40)"

text \<open>A node up to the modification time of a file.\<close>

definition same_data :: "node option \<Rightarrow> node option \<Rightarrow> bool" where
  "same_data x y \<longleftrightarrow> (case x of Some (File b _) \<Rightarrow> (\<exists>t. y = Some (File b t)) | _ \<Rightarrow> y = x)"

lemma same_data_refl [simp]: "same_data x x"
  by (auto simp: same_data_def split: option.split node.split)

lemma same_data_None [simp]: "same_data None y \<longleftrightarrow> y = None"
  by (auto simp: same_data_def)

lemma same_data_trans: "same_data x y \<Longrightarrow> same_data y z \<Longrightarrow> same_data x z"
  by (auto simp: same_data_def split: option.splits node.splits)

lemma same_data_below:
  assumes "same_data (node_at n p) (node_at n' p)" and "q \<noteq> []"
  shows "node_at n' (p @ q) = node_at n (p @ q)"
  using assms by (cases q) (auto simp: same_data_def node_at_append split: option.splits node.splits)

lemma set_modified_other:
  assumes "m \<noteq> n"
  shows "node_at (tree (gc_dsk (set_modified s n now))) [m] = node_at (tree (gc_dsk s)) [m]"
    and "modified (set_modified s n now) m = modified s m"
proof -
  have "node_at t [m] = node_at (tree (gc_dsk s)) [m]"
    if "put_node (tree (gc_dsk s)) [n] x = Some t" for t x
    using put_node_other [OF that, of "[m]"] assms by simp
  then show "node_at (tree (gc_dsk (set_modified s n now))) [m] = node_at (tree (gc_dsk s)) [m]"
    by (auto simp: set_modified_def split: option.splits node.splits)
  then show "modified (set_modified s n now) m = modified s m"
    using assms by (auto simp: modified_def set_modified_def split: option.splits node.splits)
qed

lemma set_modified_same:
  "same_data (node_at (tree (gc_dsk s)) [n]) (node_at (tree (gc_dsk (set_modified s n now))) [n])"
  by (auto simp: same_data_def set_modified_def split: option.split node.split dest: put_node_same)

lemma set_modified_disk:
  "fault (gc_dsk (set_modified s n now)) = fault (gc_dsk s)"
  "is_dir (gc_dsk (set_modified s n now)) [] = is_dir (gc_dsk s) []"
  using puts_root [OF puts_one, of "gc_dsk s" "[n]" _ _ UNIV]
  by (auto simp: set_modified_def split: option.splits node.splits)

lemma remove_entry_puts: "puts {[n]} d (remove_entry d n)"
  by (simp add: remove_entry_def puts_remove_dir puts_remove_file)

lemma remove_entry_other: "m \<noteq> n \<Longrightarrow> node_at (tree (remove_entry d n)) [m] = node_at (tree d) [m]"
  by (rule puts_frame [OF remove_entry_puts]) simp

lemma remove_entry_modified: "m \<noteq> n \<Longrightarrow> modified (s\<lparr>gc_dsk := remove_entry (gc_dsk s) n\<rparr>) m = modified s m"
  by (simp add: modified_def remove_entry_other split: option.split node.split)

lemma remove_entry_gone:
  assumes "no_faults d" and "is_dir d []"
  shows "node_at (tree (remove_entry d n)) [n] = None"
proof -
  obtain t where t: "put_node (tree d) [n] None = Some t" using put_top [OF assms(2)] by blast
  have "node_at t [n] = None" using put_node_same [OF t] .
  then show ?thesis
    using assms(1) t by (auto simp: remove_entry_def remove_dir_all_def remove_file_def no_faults_def)
qed

text \<open>Whatever the disk refuses, and even if the loop panics: only what is dead is ever removed.\<close>

lemma touched_keeps:
  assumes "is_utf8 n" and "take 40 n \<in> live" and "dry_run \<or> \<not> dead live now s m"
  shows "dry_run \<or> \<not> dead live now (set_modified s n now) m"
    and "same_data (node_at (tree (gc_dsk s)) [m]) (node_at (tree (gc_dsk (set_modified s n now))) [m])"
proof -
  show "dry_run \<or> \<not> dead live now (set_modified s n now) m"
    using assms set_modified_other(2) [of m n s now] by (cases "m = n") (auto simp: dead_def)
  show "same_data (node_at (tree (gc_dsk s)) [m]) (node_at (tree (gc_dsk (set_modified s n now))) [m])"
    using set_modified_same set_modified_other(1) [of m n s now] by (cases "m = n") auto
qed

lemma removed_keeps:
  assumes "dead live now s n" and "\<not> dead live now s m"
  shows "\<not> dead live now (s\<lparr>gc_dsk := remove_entry (gc_dsk s) n\<rparr>) m"
    and "node_at (tree (remove_entry (gc_dsk s) n)) [m] = node_at (tree (gc_dsk s)) [m]"
proof -
  have "m \<noteq> n" using assms by blast
  then show "node_at (tree (remove_entry (gc_dsk s) n)) [m] = node_at (tree (gc_dsk s)) [m]"
    by (simp add: remove_entry_other)
  show "\<not> dead live now (s\<lparr>gc_dsk := remove_entry (gc_dsk s) n\<rparr>) m"
    using assms(2) remove_entry_modified [OF \<open>m \<noteq> n\<close>, of s] by (simp add: dead_def)
qed

lemma gc_entries_keeps:
  "gc_entries dry_run live now ns s = (ok, s') \<Longrightarrow> dry_run \<or> \<not> dead live now s m \<Longrightarrow>
     same_data (node_at (tree (gc_dsk s)) [m]) (node_at (tree (gc_dsk s')) [m])"
proof (induction ns arbitrary: s)
  case (Cons n ns)
  let ?touched = "set_modified s n now" and ?removed = "s\<lparr>gc_dsk := remove_entry (gc_dsk s) n\<rparr>"
  consider (short) "is_utf8 n" "length n < 40" | (cut) "is_utf8 n" "\<not> length n < 40" "slice_to n 40 = None"
    | (live) "is_utf8 n" "\<not> length n < 40" "slice_to n 40 = Some (take 40 n)" "take 40 n \<in> live"
    | (other) "is_utf8 n \<longrightarrow> 40 \<le> length n \<and> take 40 n \<notin> live" "result_is_live live now s n = (Some False, s)"
    by (cases "is_utf8 n"; cases "length n < 40"; cases "is_char_boundary n 40"; cases "take 40 n \<in> live")
      (auto simp: result_is_live_def slice_to_def)
  then show ?case
  proof cases
    case live
    then have run: "gc_entries dry_run live now ns ?touched = (ok, s')"
      using Cons.prems(1) by (simp add: result_is_live_def)
    show ?thesis
      using Cons.IH [OF run] touched_keeps [OF live(1,4) Cons.prems(2)] same_data_trans by blast
  next
    case other
    consider "modified s n = None" | t where "modified s n = Some t" "\<not> t < now - 3600 \<or> dry_run"
      | (dead) t where "modified s n = Some t" "t < now - 3600" "\<not> dry_run"
      by fastforce
    then show ?thesis
    proof cases
      case dead
      then have run: "gc_entries dry_run live now ns ?removed = (ok, s')"
        using Cons.prems(1) other(2) by simp
      have "dead live now s n" using dead other(1) by (simp add: dead_def)
      from removed_keeps [OF this, of m] show ?thesis using Cons.IH [OF run] Cons.prems(2) dead by simp
    qed (use Cons other(2) in \<open>auto split: if_splits\<close>)
  qed (use Cons in \<open>simp_all add: result_is_live_def\<close>)
qed simp

text \<open>On a disk that refuses nothing the loop goes through and removes everything that is dead.\<close>

lemma gc_entries_removes:
  "no_faults (gc_dsk s) \<Longrightarrow> is_dir (gc_dsk s) [] \<Longrightarrow> distinct ns \<Longrightarrow> \<forall>n \<in> set ns. modified s n \<noteq> None \<and> name_ok n \<Longrightarrow>
     \<exists>s'. gc_entries dry_run live now ns s = (True, s') \<and>
       (\<forall>n \<in> set ns. dead live now s n \<and> \<not> dry_run \<longrightarrow> node_at (tree (gc_dsk s')) [n] = None)"
proof (induction ns arbitrary: s)
  case (Cons n ns)
  from Cons.prems(4) obtain t where t: "modified s n = Some t" by auto
  define s1 where "s1 = (if is_utf8 n \<and> length n < 40 then s else if is_utf8 n \<and> take 40 n \<in> live then set_modified s n now
    else if t < now - 3600 \<and> \<not> dry_run then s\<lparr>gc_dsk := remove_entry (gc_dsk s) n\<rparr> else s)"
  have run: "gc_entries dry_run live now (n # ns) s = gc_entries dry_run live now ns s1"
    using t Cons.prems(4) by (auto simp: result_is_live_def s1_def slice_to_def name_ok_def)
  note p = remove_entry_puts [of n "gc_dsk s"]
  have nf: "no_faults (gc_dsk s1)" and root: "is_dir (gc_dsk s1) []"
    using Cons.prems(1,2) set_modified_disk [of s n now] puts_fault [OF p] puts_root [OF p]
    by (auto simp: s1_def no_faults_def)
  have other: "modified s1 m = modified s m" if "m \<noteq> n" for m
    using set_modified_other(2) [OF that, of s now] remove_entry_modified [OF that, of s] by (auto simp: s1_def)
  have "\<forall>m \<in> set ns. modified s1 m \<noteq> None \<and> name_ok m" using Cons.prems(3,4) other by (metis distinct.simps(2) list.set_intros(2))
  from Cons.IH [OF nf root _ this] Cons.prems(3) obtain s'
    where s': "gc_entries dry_run live now ns s1 = (True, s')"
      and gone: "\<forall>m \<in> set ns. dead live now s1 m \<and> \<not> dry_run \<longrightarrow> node_at (tree (gc_dsk s')) [m] = None"
    by auto
  have "node_at (tree (gc_dsk s')) [m] = None" if m: "m \<in> set (n # ns)" "dead live now s m" "\<not> dry_run" for m
  proof (cases "m = n")
    case True
    then have "s1 = s\<lparr>gc_dsk := remove_entry (gc_dsk s) n\<rparr>" using m(2,3) t by (auto simp: s1_def dead_def)
    then have none: "node_at (tree (gc_dsk s1)) [n] = None"
      using remove_entry_gone Cons.prems(1,2) by simp
    then have "\<not> dead live now s1 n" by (simp add: dead_def modified_def)
    then show ?thesis using gc_entries_keeps [OF s', of n] none True by simp
  next
    case False
    then have "dead live now s1 m" using m(2) other by (simp add: dead_def)
    then show ?thesis using gone m False by simp
  qed
  then show ?case using run s' by auto
qed simp

lemma gc_results_keeps:
  assumes "gc_results revwalk G cfg dry_run now s = (out, s')"
    and "dry_run \<or> (\<forall>rc live. cfg = Inr rc \<longrightarrow> get_live_commits revwalk G rc = Some live \<longrightarrow> \<not> dead live now s n)"
  shows "same_data (node_at (tree (gc_dsk s)) [n]) (node_at (tree (gc_dsk s')) [n])"
  using assms gc_entries_keeps [of dry_run _ now _ s _ s' n]
  by (auto simp: gc_results_def split: sum.splits option.splits prod.splits)

section \<open>Properties\<close>

text \<open>C12: The garbage collector never removes anything it should keep, whatever the disk refuses and even
  if it panics half way: in a dry run nothing is removed; and an entry whose name is UTF-8 and shorter than a commit hash, or
  is UTF-8 and begins with a live commit, or was modified within the last hour keeps its data (only the modification time of a
  live file may change) and everything below it.\<close>

theorem gc_keeps_live:
  assumes "gc_results revwalk G cfg dry_run now s = (out, s')"
    and "dry_run \<or> is_utf8 n \<and> length n < 40 \<or>
      is_utf8 n \<and> (\<forall>rc live. cfg = Inr rc \<longrightarrow> get_live_commits revwalk G rc = Some live \<longrightarrow> take 40 n \<in> live) \<or>
      (\<exists>t. modified s n = Some t \<and> now - 3600 \<le> t)"
  shows "same_data (node_at (tree (gc_dsk s)) [n]) (node_at (tree (gc_dsk s')) [n]) \<and>
    (\<forall>q. q \<noteq> [] \<longrightarrow> node_at (tree (gc_dsk s')) (n # q) = node_at (tree (gc_dsk s)) (n # q))"
proof -
  have same: "same_data (node_at (tree (gc_dsk s)) [n]) (node_at (tree (gc_dsk s')) [n])"
    using assms(2) by (intro gc_results_keeps [OF assms(1)]) (auto simp: dead_def)
  then show ?thesis using same_data_below [OF same] by simp
qed

definition sample_old :: string where
  "sample_old = replicate 40 CHR ''b''"

definition sample_gc :: gc_state where
  "sample_gc = \<lparr> gc_dsk = \<lparr> tree = Dir [(sample_old, Dir [(''t'', Dir [])]), (''jobs'', File [] 3)], fault = (\<lambda>_ _. False) \<rparr>,
     dir_mtime = (\<lambda>_. Some 50) \<rparr>"

lemma sample_old_jobs [simp]: "sample_old \<noteq> ''jobs''" "''jobs'' \<noteq> sample_old" "length sample_old = 40"
proof -
  show len: "length sample_old = 40" by (simp add: sample_old_def)
  have "length ''jobs'' \<noteq> (40 :: nat)" by simp
  with len show "sample_old \<noteq> ''jobs''" "''jobs'' \<noteq> sample_old" by metis+
qed

theorem gc_keeps_live_witness:
  "\<exists>out s'. gc_results (\<lambda>_. True) sample_git (Inr sample_rc) False 9999 sample_gc = (out, s') \<and>
     same_data (Some (File [] 3)) (node_at (tree (gc_dsk s')) [''jobs''])"
proof -
  obtain out s' where run: "gc_results (\<lambda>_. True) sample_git (Inr sample_rc) False 9999 sample_gc = (out, s')" by fastforce
  have "node_at (tree (gc_dsk sample_gc)) [''jobs''] = Some (File [] 3)"
    by (simp add: sample_gc_def)
  moreover have "is_utf8 ''jobs''" by (rule is_utf8_ascii) auto
  ultimately show ?thesis using gc_keeps_live [OF run, of "''jobs''"] run by auto
qed

text \<open>C25: On a disk that refuses nothing, with repositories that can be walked, where every entry has a modification time and no name
  has a character across its 40th byte, the garbage collector finishes, and the entries that are gone
  afterwards are exactly the dead ones: not modified for an hour, and a name of at least 40 bytes whose
  first 40 are not a live commit, or one that is not UTF-8.\<close>

theorem gc_removes_dead:
  assumes "no_faults (gc_dsk s)" and "read_dir (gc_dsk s) [] = Some names" and "distinct names"
    and "\<forall>n \<in> set names. modified s n \<noteq> None \<and> name_ok n" and "\<And>p. revwalk p"
  shows "\<exists>live s'. get_live_commits revwalk G rc = Some live \<and> gc_results revwalk G (Inr rc) False now s = (Finished, s') \<and>
    (\<forall>n. node_at (tree (gc_dsk s')) [n] = None \<longleftrightarrow>
       node_at (tree (gc_dsk s)) [n] = None \<or> dead live now s n)"
proof -
  obtain live where live: "get_live_commits revwalk G rc = Some live"
    using get_live_commits_total [of revwalk] assms(5) by blast
  have "is_dir (gc_dsk s) []" using assms(2) by (auto simp: is_dir_read_dir)
  from gc_entries_removes [OF assms(1) this assms(3,4), of False live now] obtain s'
    where run: "gc_entries False live now names s = (True, s')"
      and gone: "\<forall>n \<in> set names. dead live now s n \<longrightarrow> node_at (tree (gc_dsk s')) [n] = None"
    by auto
  have "node_at (tree (gc_dsk s')) [n] = None \<longleftrightarrow>
       node_at (tree (gc_dsk s)) [n] = None \<or> dead live now s n" for n
  proof (cases "dead live now s n")
    case True
    then have "n \<in> set names"
      using read_dir_iff [OF assms(2), of n] by (auto simp: dead_def modified_def split: option.splits)
    then show ?thesis using gone True by blast
  next
    case False
    then show ?thesis
      using gc_entries_keeps [OF run, of n] by (auto simp: same_data_def split: option.splits node.splits)
  qed
  then show ?thesis using run assms(2) live by (simp add: gc_results_def)
qed

theorem gc_removes_dead_witness:
  "\<exists>s'. gc_results (\<lambda>_. True) sample_git (Inr sample_rc) False 9999 sample_gc = (Finished, s') \<and>
     node_at (tree (gc_dsk s')) [sample_old] = None \<and> node_at (tree (gc_dsk s')) [''jobs''] \<noteq> None"
proof -
  have at: "node_at (tree (gc_dsk sample_gc)) [sample_old] = Some (Dir [(''t'', Dir [])])"
    "node_at (tree (gc_dsk sample_gc)) [''jobs''] = Some (File [] 3)"
    by (simp_all add: sample_gc_def)
  have "set (the (branch_get_commits (\<lambda>_. True) sample_git p b mx)) \<subseteq> {''c0'', ''c1''}" for p b mx
    using set_take_subset [of "unat mx" "[''c0'', ''c1'']"]
    by (auto simp: branch_get_commits_def git_get_commit_def sample_git_def map_filter_simps)
  then have "branch_live sample_git k mx u b \<subseteq> {''c0'', ''c1''}" for k mx u b
    by (simp add: branch_live_def split: option.split)
  then have "c \<in> {''c0'', ''c1''}" if "get_live_commits (\<lambda>_. True) sample_git sample_rc = Some live" "c \<in> live" for c live
    using that(2) unfolding get_live_commits_iff [OF that(1)] by blast
  moreover have "length c \<noteq> length sample_old" if "c \<in> {''c0'', ''c1''}" for c using that by auto
  ultimately have "take 40 sample_old \<notin> live" if "get_live_commits (\<lambda>_. True) sample_git sample_rc = Some live" for live
    using that by (metis order_refl sample_old_jobs(3) take_all)
  moreover have "modified sample_gc sample_old = Some 50" using at by (simp add: modified_def) (simp add: sample_gc_def)
  ultimately have dead: "dead live 9999 sample_gc sample_old"
    if "get_live_commits (\<lambda>_. True) sample_git sample_rc = Some live" for live
    using that by (simp add: dead_def)
  have nf: "no_faults (gc_dsk sample_gc)" and names: "read_dir (gc_dsk sample_gc) [] = Some [sample_old, ''jobs'']"
    by (simp_all add: sample_gc_def no_faults_def read_dir_def)
  have dist: "distinct [sample_old, ''jobs'']" and ok: "\<forall>n \<in> set [sample_old, ''jobs'']. modified sample_gc n \<noteq> None \<and> name_ok n"
    using at by (auto simp: modified_def name_ok_def is_char_boundary_def) (simp_all add: sample_gc_def)
  have "is_utf8 ''jobs''" by (rule is_utf8_ascii) auto
  then have jobs: "\<not> dead live 9999 sample_gc ''jobs''" for live by (simp add: dead_def)
  from gc_removes_dead [OF nf names dist ok, of "\<lambda>_. True" sample_git sample_rc 9999] obtain live s'
    where "get_live_commits (\<lambda>_. True) sample_git sample_rc = Some live"
      and "gc_results (\<lambda>_. True) sample_git (Inr sample_rc) False 9999 sample_gc = (Finished, s')"
      and "\<forall>n. node_at (tree (gc_dsk s')) [n] = None \<longleftrightarrow>
        node_at (tree (gc_dsk sample_gc)) [n] = None \<or> dead live 9999 sample_gc n"
    by auto
  then show ?thesis using dead jobs [of live] at by (metis option.distinct(1))
qed

end
