(* ===== verification/Daemon_Loop.thy ===== *)
theory Daemon_Loop
  imports Daemon_Main Gc_Results
begin

text \<open>
  The daemon as a whole (\<open>main\<close> of \<open>src/bin/ci-daemon.rs\<close>): its start, and the main loop as a state machine beside the
  executors that run jobs and report them to the scheduler. The repositories, the clock and the
  configuration a maintenance program reads may differ at every step. The maintenance programs run on the same results directory; their
  models are \<open>gc_results\<close> and \<open>gen_avg_duration\<close>.
\<close>

section \<open>Start\<close>

record daemon_args =
  once :: bool
  limit :: "nat option"
  clear_failed_to_run :: bool

definition window_of :: "daemon_args \<Rightarrow> nat" where
  "window_of args = unwrap_or (limit args) 2000"

text \<open>The connections opened first, one command per host.\<close>

definition prewarm_ssh_masters :: "Ktestrc \<Rightarrow> string list list" where
  "prewarm_ssh_masters rc =
     map (\<lambda>(hst, _). [''timeout'', ''30'', ''ssh''] @ ssh_opts @ [hst, ''true'']) (executors rc)"

text \<open>The state of the main loop, with the modification times of the directories (for the collector).\<close>

record 'c daemon =
  sched :: 'c
  tracked :: job_map
  subtest_lists :: subtest_cache
  results :: store
  last_maintenance :: "int option"
  dir_times :: "string \<Rightarrow> int option"

definition daemon_start ::
  "capnp \<Rightarrow> config_error + CiConfig \<Rightarrow> daemon_args \<Rightarrow> 'c \<Rightarrow> sys \<Rightarrow> (string \<Rightarrow> int option) \<Rightarrow> config_error + CiConfig \<times> 'c daemon" where
  "daemon_start C cfg args c s dirs =
     (case cfg of
        Inl e \<Rightarrow> Inl e
      | Inr rc \<Rightarrow>
          Inr (rc, \<lparr> sched = c, tracked = Map.empty, subtest_lists = Map.empty, results = load C (clear_failed_to_run args) s,
                     last_maintenance = None, dir_times = dirs \<rparr>))"

section \<open>The main loop\<close>

definition refill_round ::
  "durations_capnp \<Rightarrow> git2 \<Rightarrow> host \<Rightarrow> 'c choir \<Rightarrow> CiConfig \<Rightarrow> daemon_args \<Rightarrow> 'c daemon \<Rightarrow> 'c daemon" where
  "refill_round D G H K rc args s =
     (let (c, jm, cache, st) = main_round D G H K rc (limit args) (sched s) (tracked s) (subtest_lists s) (results s)
      in s\<lparr>sched := c, tracked := jm, subtest_lists := cache, results := st\<rparr>)"

definition status_tick :: "'c choir \<Rightarrow> 'c daemon \<Rightarrow> 'c daemon" where
  "status_tick K s = s\<lparr>results := write_status K (sched s) (results s)\<rparr>"

text \<open>Maintenance: \<open>gc-results\<close>, then \<open>gen-avg-duration\<close>, as processes of their own, when they can be started (\<open>spawns\<close>).\<close>

definition run_maintenance :: "(string \<Rightarrow> bool) \<Rightarrow> string \<Rightarrow> ('c daemon \<Rightarrow> 'c daemon) \<Rightarrow> 'c daemon \<Rightarrow> 'c daemon" where
  "run_maintenance spawns name program s = (if spawns name then program s else s)"

definition run_gc :: "(string \<Rightarrow> bool) \<Rightarrow> git2 \<Rightarrow> config_error + CiConfig \<Rightarrow> 'c daemon \<Rightarrow> 'c daemon" where
  "run_gc revwalk G cfg s =
     (let (_, g) = gc_results revwalk G cfg False (clock (results s)) \<lparr> gc_dsk = dsk (results s), dir_mtime = dir_times s \<rparr>
      in s\<lparr>results := (results s)\<lparr>dsk := gc_dsk g\<rparr>, dir_times := dir_mtime g\<rparr>)"

definition run_gen_avg_duration :: "capnp \<Rightarrow> durations_capnp \<Rightarrow> nat \<Rightarrow> 'c daemon \<Rightarrow> 'c daemon" where
  "run_gen_avg_duration C D proc s =
     (let (_, y) = gen_avg_duration C D \<lparr> dsk = dsk (results s), clock = clock (results s), pid = proc, tmp_seq = 0 \<rparr>
      in s\<lparr>results := (results s)\<lparr>dsk := dsk y\<rparr>\<rparr>)"

definition maintenance_due :: "'c daemon \<Rightarrow> bool" where
  "maintenance_due s =
     (case last_maintenance s of None \<Rightarrow> True | Some t \<Rightarrow> clock (results s) - t > 30 * 60)"

definition maintain :: "(string \<Rightarrow> bool) \<Rightarrow> capnp \<Rightarrow> durations_capnp \<Rightarrow> (string \<Rightarrow> bool) \<Rightarrow> git2 \<Rightarrow> config_error + CiConfig \<Rightarrow> nat \<Rightarrow> 'c daemon \<Rightarrow> 'c daemon" where
  "maintain spawns C D revwalk G cfg proc s =
     (if maintenance_due s then
        (let s = run_maintenance spawns ''gc-results'' (run_gc revwalk G cfg) s;
             s = run_maintenance spawns ''gen-avg-duration'' (run_gen_avg_duration C D proc) s
         in s\<lparr>last_maintenance := Some (clock (results s))\<rparr>)
      else s)"

text \<open>A batch is one step of the machine: how its commands interleave with everything else is already in \<open>h\<close>.
  Where the loop is: before a refill, before the maintenance, in the inner loop, waiting for all jobs (\<open>--once\<close>), or done.\<close>

datatype phase = Refilling | Maintaining | Waiting | Joining | Ended

text \<open>What the scheduler does on its own, when executors claim and report jobs: it submits nothing and keeps the specifications.\<close>

definition advances :: "'c choir \<Rightarrow> 'c \<Rightarrow> 'c \<Rightarrow> bool" where
  "advances K c c' \<longleftrightarrow>
     job_ids K c' \<subseteq> job_ids K c \<and> (\<forall>i \<in> job_ids K c'. job_spec K c' i = job_spec K c i)"

inductive daemon_step ::
  "capnp \<Rightarrow> durations_capnp \<Rightarrow> 'c choir \<Rightarrow> 'w handle \<Rightarrow> CiConfig \<Rightarrow> daemon_args \<Rightarrow> phase \<times> 'c daemon \<Rightarrow> phase \<times> 'c daemon \<Rightarrow> bool"
  for C D K h rc args where
  refills: "daemon_step C D K h rc args (Refilling, s)
     (if once args then Joining else Maintaining, refill_round D G H K rc args s)"
| maintains: "daemon_step C D K h rc args (Maintaining, s) (Waiting, maintain spawns C D revwalk G cfg proc s)"
| waits: "daemon_step C D K h rc args (Waiting, s)
     (if drained K (window_of args) (sched s) then Refilling else Waiting, status_tick K s)"
| joins: "daemon_step C D K h rc args (Joining, s) (Ended, status_tick K s)"
| works: "run_ktest_job C h hst slot batch w (results s) = (r, w', st') \<Longrightarrow> advances K (sched s) c' \<Longrightarrow> ph \<noteq> Ended \<Longrightarrow>
     daemon_step C D K h rc args (ph, s) (ph, s\<lparr>results := st', sched := c'\<rparr>)"
| passes: "clock (results s) \<le> t \<Longrightarrow> daemon_step C D K h rc args (ph, s) (ph, s\<lparr>results := (results s)\<lparr>clock := t\<rparr>\<rparr>)"

inductive_cases daemon_stepE: "daemon_step C D K h rc args x y"

section \<open>Lemmas\<close>

text \<open>The identity of the job behind a specification.\<close>

definition spec_key :: "JobSpec \<Rightarrow> JobKey" where
  "spec_key s =
     \<lparr> jk_user = js_group s, jk_repo = p_repo (js_params s), jk_commit = p_commit (js_params s),
       jk_kernel = p_kernel (js_params s), jk_env = p_env (js_params s), jk_test = p_test (js_params s),
       jk_subtest = p_subtest (js_params s) \<rparr>"

lemma spec_key_make [simp]: "spec_key (make_job_spec rc job) = job_key job"
  by (simp add: spec_key_def make_job_spec_def Let_def)

text \<open>The invariant: every job in the scheduler is the one tracked under its key.\<close>

definition covers :: "'c choir \<Rightarrow> 'c \<Rightarrow> job_map \<Rightarrow> bool" where
  "covers K c jm \<longleftrightarrow> (\<forall>i \<in> job_ids K c. jm (spec_key (job_spec K c i)) = Some i)"

lemma covers_advances: "covers K c jm \<Longrightarrow> advances K c c' \<Longrightarrow> covers K c' jm"
  by (auto simp: covers_def advances_def)

lemma remove_finished_advances: "choir_ok K \<Longrightarrow> advances K c (remove_finished K c)"
  by (simp add: choir_ok_def advances_def)

lemma covers_retain: "covers K c jm \<Longrightarrow> covers K c (retain_existing (job_ids K c) jm)"
  by (auto simp: covers_def retain_existing_def)

lemma covers_submit:
  assumes "choir_ok K" and "covers K c jm" and "submit_one K rc job (c, jm, n) = (c', jm', n')"
  shows "covers K c' jm'"
proof (cases "jm (job_key job)")
  case None
  obtain i c1 where s: "submit K c (make_job_spec rc job) = (i, c1)" by fastforce
  with assms(1) have "job_ids K c1 = insert i (job_ids K c)" "job_spec K c1 i = make_job_spec rc job"
    "\<forall>j \<in> job_ids K c. job_spec K c1 j = job_spec K c j"
    by (auto simp: choir_ok_def)
  moreover have "c' = c1" "jm' = jm(job_key job \<mapsto> i)" using assms(3) s None by (simp_all add: submit_one_def)
  ultimately show ?thesis using assms(2) None by (auto simp: covers_def)
qed (use assms in \<open>simp add: submit_one_def\<close>)

lemma covers_fold: "choir_ok K \<Longrightarrow> covers K c jm \<Longrightarrow> fold (submit_one K rc) js (c, jm, n) = (c', jm', n') \<Longrightarrow> covers K c' jm'"
proof (induction js arbitrary: c jm n)
  case (Cons j js)
  obtain c1 jm1 n1 where one: "submit_one K rc j (c, jm, n) = (c1, jm1, n1)" by (rule prod_cases3)
  then show ?case using Cons covers_submit [OF Cons.prems(1,2) one] by simp
qed simp

lemma covers_round:
  assumes "choir_ok K" and "covers K (sched s) (tracked s)"
  shows "covers K (sched (refill_round D G H K rc args s)) (tracked (refill_round D G H K rc args s))"
proof -
  let ?c = "remove_finished K (sched s)"
  let ?js = "fst (desired_jobs D G H rc (results s) (subtest_lists s) (unwrap_or (limit args) 2000))"
  obtain c' jm' n' where run: "fold (submit_one K rc) ?js (?c, retain_existing (job_ids K ?c) (tracked s), 0) = (c', jm', n')"
    by (rule prod_cases3)
  have "covers K c' jm'"
    using covers_fold [OF assms(1) covers_retain [OF covers_advances [OF assms(2) remove_finished_advances [OF assms(1)]]] run] .
  moreover have "sched (refill_round D G H K rc args s) = c'" "tracked (refill_round D G H K rc args s) = jm'"
    using run by (simp_all add: refill_round_def main_round_def refill_def Let_def split_beta)
  ultimately show ?thesis by simp
qed

lemma maintain_sched [simp]:
  "sched (maintain spawns C D revwalk G cfg proc s) = sched s" "tracked (maintain spawns C D revwalk G cfg proc s) = tracked s"
  by (simp_all add: maintain_def run_maintenance_def run_gen_avg_duration_def run_gc_def Let_def split_beta)

lemma covers_step:
  assumes "choir_ok K" and "daemon_step C D K h rc args (ph, s) (ph', s')" and "covers K (sched s) (tracked s)"
  shows "covers K (sched s') (tracked s')"
  using assms(2)
proof (cases rule: daemon_step.cases)
  case (refills G H)
  then show ?thesis using covers_round [OF assms(1,3)] by simp
next
  case (works hst slot batch w r w' st' c')
  then show ?thesis using covers_advances [OF assms(3)] by simp
qed (use assms(3) in \<open>simp_all add: status_tick_def\<close>)

lemma covers_reachable:
  assumes "choir_ok K" and "(daemon_step C D K h rc args)\<^sup>*\<^sup>* x y" and "covers K (sched (snd x)) (tracked (snd x))"
  shows "covers K (sched (snd y)) (tracked (snd y))"
  using assms(2,3)
proof (induction rule: rtranclp_induct)
  case (step y z)
  then show ?case using covers_step [OF assms(1), of C D h rc args "fst y" "snd y" "fst z" "snd z"] by simp
qed simp

section \<open>Properties\<close>

text \<open>C7: The daemon never runs a job beside itself. In every state the daemon can reach from its start with an empty scheduler, through
  any interleaving of refills, maintenance, finished batches and passing time, and whatever the repositories and
  the disk do, the scheduler holds at most one job for each job key, and it is the one the daemon tracks under that key.
  So two jobs in the scheduler with the same parameters belong to different users.\<close>

theorem daemon_no_duplicates:
  assumes "choir_ok K" and "job_ids K c0 = {}" and "daemon_start C cfg args c0 sy dirs = Inr (rc, s0)"
    and "(daemon_step C D K h rc args)\<^sup>*\<^sup>* (Refilling, s0) (ph, s)"
    and "i \<in> job_ids K (sched s)" and "j \<in> job_ids K (sched s)"
    and "js_params (job_spec K (sched s) i) = js_params (job_spec K (sched s) j)"
  shows "tracked s (spec_key (job_spec K (sched s) i)) = Some i \<and>
    (i = j \<or> js_group (job_spec K (sched s) i) \<noteq> js_group (job_spec K (sched s) j))"
proof -
  have "covers K (sched s0) (tracked s0)"
    using assms(2,3) by (auto simp: daemon_start_def covers_def split: sum.splits)
  with covers_reachable [OF assms(1,4)] have inv: "covers K (sched s) (tracked s)" by simp
  then have "tracked s (spec_key (job_spec K (sched s) i)) = Some i" "tracked s (spec_key (job_spec K (sched s) j)) = Some j"
    using assms(5,6) by (auto simp: covers_def)
  then show ?thesis using assms(7) by (auto simp: spec_key_def)
qed


text \<open>The first refill of a daemon on the sample configuration submits a job.\<close>

lemma sample_desired: "fst (desired_jobs sample_durations sample_git sample_host sample_rc sample_store Map.empty 2000) \<noteq> []"
proof -
  let ?W = "wanted_jobs sample_durations (durations_map (dsk sample_store)) sample_rc sample_store
        (fst (build_test_specs sample_git sample_host sample_rc Map.empty))"
  have "lookup sample_store c k = None" for c k by (simp add: lookup_def sample_store_def)
  then have "job_of sample_durations (durations_map (dsk sample_store)) sample_rc sample_spec 1 ''b'' '''' \<in> ?W"
    unfolding sample_specs wanted_jobs_def
    by (intro CollectI bexI [of _ sample_spec] exI [of _ 1] bexI [of _ "''b''"] bexI [of _ "''''"])
      (simp_all add: sample_spec_def job_wanted_def)
  then have "sort_key job_order (all_jobs sample_durations (durations_map (dsk sample_store)) sample_rc sample_store
        (fst (build_test_specs sample_git sample_host sample_rc Map.empty))) \<noteq> []"
    by (metis emptyE set_all_jobs set_empty set_sort)
  then obtain j js where out: "sort_key job_order (all_jobs sample_durations (durations_map (dsk sample_store)) sample_rc sample_store
        (fst (build_test_specs sample_git sample_host sample_rc Map.empty))) = j # js"
    by (meson neq_Nil_conv)
  show ?thesis by (simp add: desired_jobs_def Let_def case_prod_unfold out)
qed

theorem daemon_no_duplicates_witness:
  "\<exists>s0 ph s i. daemon_start sample_capnp (Inr sample_rc) \<lparr> once = False, limit = None, clear_failed_to_run = False \<rparr> []
      \<lparr> dsk = dsk sample_store, clock = 100, pid = 7, tmp_seq = 0 \<rparr> (\<lambda>_. None) = Inr (sample_rc, s0) \<and>
     (daemon_step sample_capnp sample_durations sample_choir sample_handle sample_rc
        \<lparr> once = False, limit = None, clear_failed_to_run = False \<rparr>)\<^sup>*\<^sup>* (Refilling, s0) (ph, s) \<and>
     i \<in> job_ids sample_choir (sched s) \<and> tracked s (spec_key (job_spec sample_choir (sched s) i)) = Some i"
proof -
  let ?args = "\<lparr> once = False, limit = None, clear_failed_to_run = False \<rparr>"
    and ?sys = "\<lparr> dsk = dsk sample_store, clock = 100, pid = 7, tmp_seq = 0 \<rparr> :: sys"
  let ?init = "\<lparr> sched = [], tracked = Map.empty, subtest_lists = Map.empty, results = sample_store,
    last_maintenance = None, dir_times = \<lambda>_. None \<rparr> :: JobSpec list daemon"
  let ?aft = "refill_round sample_durations sample_git sample_host sample_choir sample_rc ?args ?init"
  let ?js = "fst (desired_jobs sample_durations sample_git sample_host sample_rc sample_store Map.empty 2000)"
  have start: "daemon_start sample_capnp (Inr sample_rc) ?args [] ?sys (\<lambda>_. None) = Inr (sample_rc, ?init)"
    by (simp add: daemon_start_def load_def sample_store_def read_dir_def)
  obtain c' jm' n' where run: "fold (submit_one sample_choir sample_rc) ?js ([], Map.empty, 0) = (c', jm', n')"
    by (rule prod_cases3)
  have sc: "sched ?aft = c'"
    using run by (simp add: refill_round_def main_round_def refill_def Let_def split_beta sample_choir_def
        retain_existing_def cong: option.case_cong)
  have "tracks_distinct Map.empty" "tracks_existing sample_choir [] Map.empty"
    by (simp_all add: tracks_distinct_def tracks_existing_def)
  from submit_fold [OF sample_choir_ok this run] sample_desired obtain k i where "jm' k = Some i" "i \<in> job_ids sample_choir c'"
    by (fastforce simp: tracks_existing_def ran_def neq_Nil_conv)
  moreover have reach: "(daemon_step sample_capnp sample_durations sample_choir sample_handle sample_rc ?args)\<^sup>*\<^sup>*
      (Refilling, ?init) (Maintaining, ?aft)"
    using daemon_step.refills [of sample_capnp sample_durations sample_choir sample_handle sample_rc ?args ?init sample_git sample_host]
    by (intro r_into_rtranclp) simp
  moreover have "job_ids sample_choir [] = {}" by (simp add: sample_choir_def)
  ultimately have "i \<in> job_ids sample_choir (sched ?aft)"
      "tracked ?aft (spec_key (job_spec sample_choir (sched ?aft) i)) = Some i"
    using daemon_no_duplicates [OF sample_choir_ok _ start reach, of i i] sc by simp_all
  with start reach show ?thesis by blast
qed


end
