(* ===== verification/Daemon_Progress.thy ===== *)
theory Daemon_Progress
  imports Daemon_Main
begin

text \<open>
  Progress of the daemon: running batches uses up the wanted points of the job matrix. A point is a
  commit and a result key; it is wanted as long as the store has neither a verdict nor a run in progress
  for it (\<open>job_wanted\<close>). The lemmas follow one batch through \<open>run_ktest_job\<close> and show that nothing becomes
  wanted outside its own keys; the property bounds the number of batches.
\<close>

section \<open>Wanted points\<close>

definition wanted_points :: "TestSpec list \<Rightarrow> store \<Rightarrow> (string \<times> string) set" where
  "wanted_points specs st =
     {(c, k). job_wanted (lookup st c k) \<and>
        (\<exists>spec \<in> set specs. c \<in> set (commits spec) \<and>
           (\<exists>subtest \<in> set (subtests spec). \<exists>kern \<in> set (ts_kernels spec).
              k = subtest_result_key (ts_test spec) subtest kern (ts_env spec)))}"

lemma wanted_points_finite: "finite (wanted_points specs st)"
proof -
  let ?keys = "\<lambda>spec. (\<lambda>(s, kern). subtest_result_key (ts_test spec) s kern (ts_env spec)) `
    (set (subtests spec) \<times> set (ts_kernels spec))"
  have "wanted_points specs st \<subseteq> (\<Union>spec \<in> set specs. set (commits spec) \<times> ?keys spec)"
    by (fastforce simp: wanted_points_def)
  then show ?thesis by (rule finite_subset) auto
qed

text \<open>The points are those the matrix makes jobs of: with none left there is nothing to submit.\<close>

lemma wanted_jobs_empty:
  assumes "wanted_points specs st = {}"
  shows "wanted_jobs D durations rc st specs = {}"
  using assms nth_mem by (fastforce simp: wanted_jobs_def wanted_points_def)

lemma desired_jobs_empty:
  assumes "wanted_points (fst (build_test_specs G H rc cache)) st = {}"
  shows "fst (desired_jobs D G H rc st cache n) = []"
proof -
  have "all_jobs D (durations_map (dsk st)) rc st (fst (build_test_specs G H rc cache)) = []"
    using wanted_jobs_empty [OF assms] set_all_jobs by (metis set_empty)
  then show ?thesis by (simp add: desired_jobs_def Let_def case_prod_unfold)
qed

section \<open>Nothing becomes wanted\<close>

text \<open>From \<open>st\<close> to \<open>st'\<close> nothing outside the keys \<open>K\<close> of the commit \<open>c\<close> became wanted.\<close>

definition no_new :: "string \<Rightarrow> string set \<Rightarrow> store \<Rightarrow> store \<Rightarrow> bool" where
  "no_new c K st st' \<longleftrightarrow>
     store_ok st' \<and>
     (\<forall>c' k. (c' \<noteq> c \<or> k \<notin> K) \<longrightarrow> job_wanted (lookup st' c' k) \<longrightarrow> job_wanted (lookup st c' k))"

text \<open>What the other executors do while a command of the batch runs: they leave the keys of the batch
  alone, and take results out of the wanted points, never into them.\<close>

definition steady :: "'w handle \<Rightarrow> string \<Rightarrow> string set \<Rightarrow> bool" where
  "steady h c K \<longleftrightarrow>
     undisturbed h c K \<and>
     (\<forall>w cmd st r w' st'. run_command h w cmd st = (r, w', st') \<longrightarrow> store_ok st \<longrightarrow> no_new c K st st')"

lemma no_new_refl: "store_ok st \<Longrightarrow> no_new c K st st"
  by (simp add: no_new_def)

lemma no_new_trans: "no_new c K st st1 \<Longrightarrow> no_new c K st1 st2 \<Longrightarrow> no_new c K st st2"
  by (auto simp: no_new_def)

lemma no_new_ok: "no_new c K st st' \<Longrightarrow> store_ok st'"
  by (simp add: no_new_def)

lemma steady_command: "steady h c K \<Longrightarrow> run_command h w cmd st = (r, w', st') \<Longrightarrow> store_ok st \<Longrightarrow> no_new c K st st'"
  unfolding steady_def by blast

lemma no_new_disk [simp]: "no_new c K st (st'\<lparr>dsk := d\<rparr>) = no_new c K st st'" "no_new c K (st\<lparr>dsk := d\<rparr>) st' = no_new c K st st'"
  by (simp_all add: no_new_def)

lemma no_new_update:
  assumes "store_ok st" and "bt_ok u" and "\<And>k. bt_get u k \<noteq> None \<Longrightarrow> k \<in> K"
  shows "no_new c K st (update C st c u)"
  unfolding no_new_def
proof (intro conjI allI impI)
  show "store_ok (update C st c u)" by (rule store_update_map(1) [OF assms(1,2)])
  fix c' k assume "c' \<noteq> c \<or> k \<notin> K" and "job_wanted (lookup (update C st c u) c' k)"
  then show "job_wanted (lookup st c' k)"
    using store_update_map(2) [OF assms(1,2), of C c c' k] assms(3) [of k] by (auto simp: lookup_store_get split: if_splits)
qed

lemma no_new_mark:
  assumes "store_ok st" and "param_key p ` set subs \<subseteq> K"
  shows "no_new (p_commit p) K st (mark_inprogress C p subs st)"
proof -
  obtain d m where run: "fold (mark_one p (clock st)) subs (dsk st, bt_empty) = (d, m)" by fastforce
  note sp = fold_mark [OF bt_ok_Nil run]
  have "no_new (p_commit p) K (st\<lparr>dsk := d\<rparr>) (update C (st\<lparr>dsk := d\<rparr>) (p_commit p) m)"
    using sp assms by (intro no_new_update) (auto split: if_splits)
  then show ?thesis using run by (simp add: mark_inprogress_def)
qed

lemma no_new_iter:
  assumes "store_ok st" and st: "steady h (p_commit p) K" and "param_key p ` set remaining \<subseteq> K"
    and run: "resume_iter C h hst slot p now remaining w st = (r, w', st')"
  shows "no_new (p_commit p) K st st'"
proof -
  obtain r1 w1 st1 where c1: "run_command h w (ssh_cmd hst (supervisor_cmd (workspace slot) p remaining) True) st = (r1, w1, st1)"
    using prod_cases3 by blast
  obtain r2 w2 st2 where c2: "run_command h w1 (Bash (pull_cmd (path_join (p_output_dir p) (p_commit p)) hst (workspace slot) p remaining)) st1 = (r2, w2, st2)"
    using prod_cases3 by blast
  note n1 = steady_command [OF st c1 assms(1)]
  note n2 = no_new_trans [OF n1 steady_command [OF st c2 no_new_ok [OF n1]]]
  have upd: "no_new (p_commit p) K st (update C (st2\<lparr>dsk := d\<rparr>) (p_commit p) v)"
    if "read_verdicts p now d remaining [] bt_empty = (nxt, v)" for d nxt v
  proof -
    have "no_new (p_commit p) K (st2\<lparr>dsk := d\<rparr>) (update C (st2\<lparr>dsk := d\<rparr>) (p_commit p) v)"
      using read_verdicts_snd [OF bt_ok_Nil that] no_new_ok [OF n2] assms(3)
      by (intro no_new_update) (auto split: if_splits)
    then show ?thesis using no_new_trans [OF n2] by simp
  qed
  show ?thesis
    using run c1 c2 n1 n2 by (auto simp: resume_iter_def Let_def split: option.splits if_splits prod.splits dest: upd)
qed

lemma resume_iter_subset:
  "resume_iter C h hst slot p now remaining w st = (Inr nxt, w', st') \<Longrightarrow> set nxt \<subseteq> set remaining"
proof -
  assume run: "resume_iter C h hst slot p now remaining w st = (Inr nxt, w', st')"
  have "set nxt \<subseteq> set remaining" if "read_verdicts p now d remaining [] bt_empty = (nxt, v)" for d v
    using read_verdicts_fst [of p now d remaining "[]" bt_empty] that by auto
  with run show ?thesis by (auto simp: resume_iter_def Let_def split: prod.splits option.splits if_splits)
qed

lemma no_new_loop:
  "resume_run C h hst slot p now remaining c w st res \<Longrightarrow> store_ok st \<Longrightarrow> steady h (p_commit p) K \<Longrightarrow>
     param_key p ` set remaining \<subseteq> K \<Longrightarrow> no_new (p_commit p) K st (snd (snd res))"
proof (induction rule: resume_run.induct)
  case (finished c w st)
  then show ?case by (simp add: no_new_refl)
next
  case (failed remaining w st e w1 st1 c)
  then show ?case using no_new_iter by simp
next
  case (progress remaining w st nxt w1 st1 c res)
  note n = no_new_iter [OF progress.prems progress.hyps(2)]
  have "param_key p ` set nxt \<subseteq> K" using resume_iter_subset [OF progress.hyps(2)] progress.prems(3) by blast
  then show ?case using no_new_trans [OF n progress.IH [OF no_new_ok [OF n] progress.prems(2)]] by simp
next
  case (clean_failed remaining w st w1 st1 w2 st2)
  note n = no_new_iter [OF clean_failed.prems clean_failed.hyps(2)]
  show ?case using no_new_trans [OF n steady_command [OF clean_failed.prems(2) clean_failed.hyps(3) no_new_ok [OF n]]] by simp
next
  case (cleaned remaining w st w1 st1 x w2 st2 res)
  note n = no_new_iter [OF cleaned.prems cleaned.hyps(2)]
  note n2 = no_new_trans [OF n steady_command [OF cleaned.prems(2) cleaned.hyps(3) no_new_ok [OF n]]]
  show ?case using no_new_trans [OF n2 cleaned.IH [OF no_new_ok [OF n2] cleaned.prems(2,3)]] .
next
  case (no_progress remaining w st w1 st1)
  then show ?case using no_new_iter by simp
qed

lemma no_new_step:
  assumes "run_step h hst rem desc w st = (r, w', st')" and "steady h c K" and "no_new c K st0 st"
  shows "no_new c K st0 st'"
proof -
  obtain r1 w1 st1 where cmd: "run_command h w (ssh_cmd hst rem False) st = (r1, w1, st1)" using prod_cases3 by blast
  then have "st' = st1" using assms(1) by (auto simp: run_step_def split: option.splits if_splits)
  then show ?thesis using no_new_trans [OF assms(3) steady_command [OF assms(2) cmd no_new_ok [OF assms(3)]]] by simp
qed

lemma no_new_setup:
  assumes "setup_steps h hst slot p remaining w st = (r, w', st')" and "steady h c K" and "no_new c K st0 st"
  shows "no_new c K st0 st'"
  using assms(1,3) unfolding setup_steps_def
  by (auto split: prod.splits sum.splits if_splits dest!: no_new_step [OF _ assms(2)])

lemma no_new_inner:
  assumes "p = payload (hd batch)" and "steady h (p_commit p) K" and "store_ok st"
    and "param_key p ` set (map (\<lambda>j. p_subtest (payload j)) batch) \<subseteq> K"
    and "run_ktest_job_inner C h hst slot batch w st = (r, w', st')"
  shows "no_new (p_commit p) K st st'"
proof (cases "p_repo_url p = []")
  case True
  then show ?thesis using assms by (auto simp: run_ktest_job_inner_def no_new_refl)
next
  case False
  let ?subs = "map (\<lambda>j. p_subtest (payload j)) batch"
  obtain r1 w1 st1 where s: "setup_steps h hst slot p ?subs w (mark_inprogress C p ?subs st) = (r1, w1, st1)"
    using prod_cases3 by blast
  note n1 = no_new_setup [OF s assms(2) no_new_mark [OF assms(3,4)]]
  note eq = inner_steps [OF assms(1) False HOL.refl, of C h hst slot w st]
  show ?thesis
  proof (cases r1)
    case (Inl e)
    then show ?thesis using n1 eq s assms(5) by simp
  next
    case (Inr u)
    then have "resume_loop C h hst slot p (clock st) ?subs False w1 st1 = (r, w', st')"
      using eq s assms(5) by simp
    with no_new_trans [OF n1 no_new_loop [OF resume_loop_run no_new_ok [OF n1] assms(2,4), of C hst slot "clock st" False w1]]
    show ?thesis by simp
  qed
qed

lemma no_new_fail:
  assumes "store_ok st" and "c = p_commit (payload (hd batch))" and "job_result_key ` set batch \<subseteq> K"
  shows "no_new c K st (fail_inprogress C batch st)"
proof -
  obtain d m where run: "fold (fail_one c st) batch (dsk st, bt_empty) = (d, m)" by fastforce
  have "no_new c K (st\<lparr>dsk := d\<rparr>) (update C (st\<lparr>dsk := d\<rparr>) c m)"
    using fold_fail [OF bt_ok_Nil run] assms by (intro no_new_update) (auto split: if_splits)
  then show ?thesis using run assms(2) by (simp add: fail_inprogress_def)
qed

lemma no_new_job:
  assumes "batch_ok batch" and "p = payload (hd batch)" and "store_ok st"
    and "steady h (p_commit p) (job_result_key ` set batch)"
    and "run_ktest_job C h hst slot batch w st = (r, w', st')"
  shows "no_new (p_commit p) (job_result_key ` set batch) st st'"
proof -
  let ?K = "job_result_key ` set batch"
  obtain r1 w1 st1 where inner: "run_ktest_job_inner C h hst slot batch w st = (r1, w1, st1)" using prod_cases3 by blast
  have n1: "no_new (p_commit p) ?K st st1"
    using no_new_inner [OF assms(2,4,3) _ inner] batch_keys(2) [OF assms(1,2)] by simp
  obtain r2 w2 st2 where c: "run_command h w1 (ssh_cmd hst (''rm -rf '' @ workspace slot @ ''/ktest-tmp'') False) st1 = (r2, w2, st2)"
    using prod_cases3 by blast
  note n2 = no_new_trans [OF n1 steady_command [OF assms(4) c no_new_ok [OF n1]]]
  obtain d where d: "fallback_logs h hst slot (log_offset h w) batch w2 st2 = st2\<lparr>dsk := d\<rparr>"
    using fallback_logs_disk [of h hst slot "log_offset h w" batch w2 st2] by (elim exE)
  have st': "st' = (case r1 of Inl _ \<Rightarrow> fail_inprogress C batch (st2\<lparr>dsk := d\<rparr>) | Inr _ \<Rightarrow> st2\<lparr>dsk := d\<rparr>)"
    using assms(5) inner c d by (auto simp: run_ktest_job_def Let_def split: sum.splits)
  have "no_new (p_commit p) ?K (st2\<lparr>dsk := d\<rparr>) (fail_inprogress C batch (st2\<lparr>dsk := d\<rparr>))"
    using no_new_ok [OF n2] assms(2) by (intro no_new_fail) auto
  then show ?thesis using no_new_trans [OF n2] n2 by (auto simp: st' split: sum.splits)
qed

section \<open>A batch uses up wanted points\<close>

text \<open>Two kinds of batch do not pay off in full. An idle one has no wanted point when it is claimed, or a repository
  that is not configured; and a result read from a status file the daemon does not understand is recorded
  as \<open>Unknown\<close>, which stays wanted.\<close>

definition batch_idle :: "TestSpec list \<Rightarrow> ClaimedJob list \<Rightarrow> store \<Rightarrow> bool" where
  "batch_idle specs batch st \<longleftrightarrow>
     (let p = payload (hd batch)
      in p_repo_url p = [] \<or> (\<forall>j \<in> set batch. (p_commit p, job_result_key j) \<notin> wanted_points specs st))"

definition unread_points :: "capnp \<Rightarrow> 'w handle \<Rightarrow> string \<Rightarrow> nat \<Rightarrow> ClaimedJob list \<Rightarrow> 'w \<Rightarrow> store \<Rightarrow> (string \<times> string) list" where
  "unread_points C h hst slot batch w st =
     (let p = payload (hd batch);
          (r, w1, st1) = run_ktest_job_inner C h hst slot batch w st
      in if p_repo_url p = [] then []
         else map (Pair (p_commit p))
           (filter (\<lambda>k. lookup st1 (p_commit p) k = Some Unknown) (remdups (map job_result_key batch))))"

text \<open>The same over the batches an executor claims.\<close>

fun idle_batches :: "capnp \<Rightarrow> 'w handle \<Rightarrow> string \<Rightarrow> nat \<Rightarrow> TestSpec list \<Rightarrow> ClaimedJob list list \<Rightarrow> 'w \<Rightarrow> store \<Rightarrow> nat" where
  "idle_batches C h hst slot specs [] w st = 0"
| "idle_batches C h hst slot specs (batch # claims) w st =
     (let (r, w', st') = run_ktest_job C h hst slot batch w st
      in (if batch_idle specs batch st then 1 else 0) + idle_batches C h hst slot specs claims w' st')"

fun unread_run :: "capnp \<Rightarrow> 'w handle \<Rightarrow> string \<Rightarrow> nat \<Rightarrow> ClaimedJob list list \<Rightarrow> 'w \<Rightarrow> store \<Rightarrow> (string \<times> string) list" where
  "unread_run C h hst slot [] w st = []"
| "unread_run C h hst slot (batch # claims) w st =
     (let (r, w', st') = run_ktest_job C h hst slot batch w st
      in unread_points C h hst slot batch w st @ unread_run C h hst slot claims w' st')"

lemma status_settled: "\<not> job_wanted (Some s)" if "s \<noteq> Inprogress" "s \<noteq> Unknown"
  using that by (cases s) (simp_all add: job_wanted_def result_is_done_def)

text \<open>What a batch leaves wanted among its own keys.\<close>

lemma batch_leaves:
  assumes "batch_ok batch" and "p = payload (hd batch)" and "store_ok st"
    and "steady h (p_commit p) (job_result_key ` set batch)"
    and run: "run_ktest_job C h hst slot batch w st = (r, w', st')" and j: "j \<in> set batch"
    and "job_wanted (lookup st' (p_commit p) (job_result_key j))"
  shows "if p_repo_url p = [] then job_wanted (lookup st (p_commit p) (job_result_key j))
    else (p_commit p, job_result_key j) \<in> set (unread_points C h hst slot batch w st)"
proof -
  obtain r1 w1 st1 where inner: "run_ktest_job_inner C h hst slot batch w st = (r1, w1, st1)" using prod_cases3 by blast
  have un: "undisturbed h (p_commit p) (job_result_key ` set batch)" using assms(4) by (simp add: steady_def)
  note sp = run_ktest_job_status [OF assms(1-3) un inner run j]
  show ?thesis
  proof (cases "p_repo_url p = []")
    case True
    then have "st1 = st" using inner assms(2) by (simp add: run_ktest_job_inner_def)
    then show ?thesis using sp True assms(7) status_settled [of FailedToRun] by (auto split: if_splits)
  next
    case False
    then obtain s where s: "lookup st' (p_commit p) (job_result_key j) = Some s" "s \<noteq> Inprogress" using sp by blast
    then have "s = Unknown" using assms(7) status_settled [of s] by auto
    then have "lookup st1 (p_commit p) (job_result_key j) = Some Unknown" using sp s(1) by (auto split: if_splits)
    then show ?thesis using False inner j assms(2) by (auto simp: unread_points_def Let_def)
  qed
qed

lemma batch_points:
  assumes "batch_ok batch" and "p = payload (hd batch)" and "store_ok st"
    and "steady h (p_commit p) (job_result_key ` set batch)"
    and run: "run_ktest_job C h hst slot batch w st = (r, w', st')"
  shows "store_ok st' \<and>
    wanted_points specs st' \<subseteq> wanted_points specs st \<union> set (unread_points C h hst slot batch w st) \<and>
    (p_repo_url p \<noteq> [] \<longrightarrow> wanted_points specs st' \<subseteq>
       wanted_points specs st - Pair (p_commit p) ` job_result_key ` set batch \<union> set (unread_points C h hst slot batch w st))"
proof -
  let ?K = "job_result_key ` set batch" and ?U = "set (unread_points C h hst slot batch w st)"
  have n: "no_new (p_commit p) ?K st st'" using no_new_job [OF assms] .
  have old: "job_wanted (lookup st c k)" if "job_wanted (lookup st' c k)" "c \<noteq> p_commit p \<or> k \<notin> ?K" for c k
    using n that unfolding no_new_def by blast
  have own: "if p_repo_url p = [] then job_wanted (lookup st (p_commit p) k) else (p_commit p, k) \<in> ?U"
    if "job_wanted (lookup st' (p_commit p) k)" "k \<in> ?K" for k
    using batch_leaves [OF assms] that by auto
  have "(c, k) \<in> ?U \<or> (c, k) \<in> wanted_points specs st \<and> (p_repo_url p \<noteq> [] \<longrightarrow> c \<noteq> p_commit p \<or> k \<notin> ?K)"
    if "(c, k) \<in> wanted_points specs st'" for c k
    using that old [of c k] own [of k] by (cases "c = p_commit p \<and> k \<in> ?K") (auto simp: wanted_points_def split: if_splits)
  then show ?thesis using no_new_ok [OF n] by auto
qed

lemma batch_ledger:
  assumes "batch_ok batch" and "p = payload (hd batch)" and "store_ok st"
    and "steady h (p_commit p) (job_result_key ` set batch)"
    and "run_ktest_job C h hst slot batch w st = (r, w', st')"
  shows "1 + card (wanted_points specs st') \<le> card (wanted_points specs st) +
    (if batch_idle specs batch st then 1 else 0) + length (unread_points C h hst slot batch w st)"
proof -
  let ?W = "wanted_points specs st" and ?U = "unread_points C h hst slot batch w st"
  let ?K = "Pair (p_commit p) ` job_result_key ` set batch"
  note bp = batch_points [OF assms, of specs]
  have sum: "card (X \<union> set ?U) \<le> card X + length ?U" for X :: "(string \<times> string) set"
    using card_Un_le [of X "set ?U"] card_length [of ?U] by linarith
  show ?thesis
  proof (cases "batch_idle specs batch st")
    case True
    have "card (wanted_points specs st') \<le> card (?W \<union> set ?U)"
      using bp by (intro card_mono) (auto simp: wanted_points_finite)
    then show ?thesis using sum [of ?W] True by simp
  next
    case False
    then have url: "p_repo_url p \<noteq> []" and "?W - ?K \<subset> ?W"
      using assms(2) by (auto simp: batch_idle_def Let_def)
    from psubset_card_mono [OF wanted_points_finite this(2)] have "card (?W - ?K) < card ?W" .
    moreover have "card (wanted_points specs st') \<le> card (?W - ?K \<union> set ?U)"
      using bp url by (intro card_mono) (auto simp: wanted_points_finite)
    ultimately show ?thesis using sum [of "?W - ?K"] False by simp
  qed
qed

lemma executor_ledger:
  "store_ok st \<Longrightarrow> \<forall>batch \<in> set claims. batch_ok batch \<and>
     steady h (p_commit (payload (hd batch))) (job_result_key ` set batch) \<Longrightarrow>
   run_executor C h hst slot claims w st = (reports, w', st') \<Longrightarrow>
     wanted_points specs st' \<subseteq> wanted_points specs st \<union> set (unread_run C h hst slot claims w st) \<and>
     length claims + card (wanted_points specs st') \<le> card (wanted_points specs st) +
       idle_batches C h hst slot specs claims w st + length (unread_run C h hst slot claims w st)"
proof (induction claims arbitrary: w st reports)
  case (Cons batch claims)
  obtain r w1 st1 where run: "run_ktest_job C h hst slot batch w st = (r, w1, st1)" using prod_cases3 by blast
  obtain reports1 where rest: "run_executor C h hst slot claims w1 st1 = (reports1, w', st')"
    using Cons.prems(3) run by (auto simp: Let_def split: prod.splits)
  have b: "batch_ok batch" "steady h (p_commit (payload (hd batch))) (job_result_key ` set batch)"
    using Cons.prems(2) by auto
  note bp = batch_points [OF b(1) HOL.refl Cons.prems(1) b(2) run, of specs]
  note bl = batch_ledger [OF b(1) HOL.refl Cons.prems(1) b(2) run, of specs]
  have ok: "store_ok st1" using bp by blast
  from Cons.IH [OF ok _ rest] Cons.prems(2) bp bl show ?case by (auto simp: run)
qed simp


section \<open>Witness\<close>

text \<open>A worker on which every command exits with an error: the batch fails at the checkout.\<close>

definition sick_handle :: "unit handle" where
  "sick_handle = sample_handle\<lparr>run_command := \<lambda>w c st. (Some False, w, st)\<rparr>"

lemma sick_steady: "steady sick_handle c K" "undisturbed sick_handle c K"
  by (simp_all add: steady_def undisturbed_def sick_handle_def no_new_refl)

lemma sick_inner:
  "run_ktest_job_inner C sick_handle hst slot (sample_batch ''git://x'') () st =
     (Inl (Retry ''checkout''), (), mark_inprogress C (sample_params ''git://x'' ''a'') [''a'', ''b''] st)"
  by (simp add: run_ktest_job_inner_def sample_batch_def sample_params_def run_step_def sick_handle_def Let_def)

text \<open>Two jobs are wanted, the batch claims both and none of its results is unreadable: one more batch could follow.\<close>

lemma sick_unread: "unread_run C sick_handle hst slot [sample_batch ''git://x''] () sample_store = []"
proof -
  let ?p = "sample_params ''git://x'' ''a''"
  have p: "payload (hd (sample_batch ''git://x'')) = ?p" "p_commit ?p = ''c0''"
    by (simp_all add: sample_batch_def sample_params_def)
  have "lookup (mark_inprogress C ?p [''a'', ''b''] sample_store) ''c0'' (job_result_key j) \<noteq> Some Unknown"
    if "j \<in> set (sample_batch ''git://x'')" for j
  proof -
    have "job_result_key j \<in> param_key ?p ` set [''a'', ''b'']"
      using that by (auto simp: sample_batch_def sample_params_def job_result_key_def param_key_def)
    then show ?thesis
      using mark_inprogress_store(2) [OF sample_store_ok, of C ?p "[''a'', ''b'']" "job_result_key j"]
      unfolding p(2) lookup_store_get by (simp add: inprogress_at_def)
  qed
  then have "unread_points C sick_handle hst slot (sample_batch ''git://x'') () sample_store = []"
    unfolding unread_points_def sick_inner p by (auto simp: Let_def filter_empty_conv p)
  then show ?thesis by (simp split: prod.splits)
qed


end
