(* ===== verification/Rm_Results.thy ===== *)
theory Rm_Results
  imports Job_Matrix
begin

text \<open>
  Deleting results by hand (\<open>src/bin/rm-results.rs\<close>): the commits of a revision range, the results whose name
  matches a glob pattern, their removal, and the rebuild of the per-commit files.

  Globs (the \<open>glob\<close> crate) are the parameter \<open>new_pattern\<close>; revision ranges are the parameter \<open>R\<close>. The commits
  to update come out of a hash set: the parameter \<open>order\<close> is the order of its iteration.
\<close>

section \<open>Selection\<close>

text \<open>\<open>revspec r range\<close> has the two ends of a range; \<open>walk_hiding r to from\<close> is a walk started at \<open>to\<close>
  that hides \<open>from\<close>.\<close>

record git2_range =
  revspec :: "string \<Rightarrow> string \<Rightarrow> (string option \<times> string option) option"
  walk_hiding :: "string \<Rightarrow> string \<Rightarrow> string \<Rightarrow> string option list option"

datatype rm_error = InvalidPattern | NoOutputDir | NoRepository | OpeningRepository | ParsingRange
  | MissingFrom | MissingTo | ReadingOutputDir | ReadingCommitDir string

definition get_commits_in_range :: "git2 \<Rightarrow> git2_range \<Rightarrow> string \<Rightarrow> string \<Rightarrow> rm_error + string set" where
  "get_commits_in_range G R rp revs =
     (if str_contains revs ''..'' then
        (case revspec R rp revs of
           None \<Rightarrow> Inl ParsingRange
         | Some (None, _) \<Rightarrow> Inl MissingFrom
         | Some (Some _, None) \<Rightarrow> Inl MissingTo
         | Some (Some from, Some to) \<Rightarrow>
             (case walk_hiding R rp to from of
                None \<Rightarrow> Inl ParsingRange
              | Some ids \<Rightarrow> Inr (set (List.map_filter id ids))))
      else
        (case git_get_commit G rp revs of
           None \<Rightarrow> Inl ParsingRange
         | Some c \<Rightarrow> Inr {c}))"

definition dominated_by :: "string \<Rightarrow> string list \<Rightarrow> bool" where
  "dominated_by n ps \<longleftrightarrow> list_ex (\<lambda>p. starts_with n p) ps"

definition not_a_commit :: "string \<Rightarrow> bool" where
  "not_a_commit n \<longleftrightarrow>
     dominated_by n [''jobs.'', ''workers'', ''user_stats'', ''test_durations'', ''fetch''] \<or>
     ends_with n ''.lock'' \<or> ends_with n ''.new'' \<or> ends_with n ''.capnp'' \<or> length n < 40"

text \<open>The loop over the entries of the results directory.\<close>

fun find_matching_entries ::
  "disk \<Rightarrow> (string \<Rightarrow> bool) \<Rightarrow> string set option \<Rightarrow> string list \<Rightarrow> path list \<Rightarrow> rm_error + path list" where
  "find_matching_entries d matches cs [] results = Inr results"
| "find_matching_entries d matches cs (n # names) results =
     (if not_a_commit n then find_matching_entries d matches cs names results
      else if cs \<noteq> None \<and> take 40 n \<notin> the cs then find_matching_entries d matches cs names results
      else if \<not> is_dir d [n] then find_matching_entries d matches cs names results
      else
        (case read_dir d [n] of
           None \<Rightarrow> Inl (ReadingCommitDir n)
         | Some es \<Rightarrow>
             find_matching_entries d matches cs names
               (results @ map (\<lambda>t. [n, t]) (filter matches es))))"

definition find_matching_results ::
  "disk \<Rightarrow> (string \<Rightarrow> bool) \<Rightarrow> string set option \<Rightarrow> rm_error + path list" where
  "find_matching_results d matches cs =
     (case read_dir d [] of
        None \<Rightarrow> Inl ReadingOutputDir
      | Some names \<Rightarrow> find_matching_entries d matches cs names [])"

section \<open>Deletion\<close>

definition remove_path :: "disk \<Rightarrow> path \<Rightarrow> bool \<times> disk" where
  "remove_path d p = (if is_dir d p then remove_dir_all d p else remove_file d p)"

text \<open>The loop over the results that were found (errors are printed and passed over); the commit is
  the name of the parent directory.\<close>

fun remove_results :: "path list \<Rightarrow> string list \<Rightarrow> disk \<Rightarrow> string list \<times> disk" where
  "remove_results [] affected d = (affected, d)"
| "remove_results (p # ps) affected d =
     (let affected = (if butlast p \<noteq> [] then List.insert (last (butlast p)) affected else affected)
      in remove_results ps affected (snd (remove_path d p)))"

record rm_args =
  rm_test :: string
  rm_commits :: "string option"
  rm_repo :: "string option"
  rm_output_dir :: "string option"
  rm_dry_run :: bool

datatype rm_outcome = RmFailed rm_error | NoResults | WouldDelete nat | Deleted nat

definition rm_commit_filter ::
  "git2 \<Rightarrow> git2_range \<Rightarrow> rm_args \<Rightarrow> CiConfig option \<Rightarrow> rm_error + string set option" where
  "rm_commit_filter G R args rc =
     (case rm_commits args of
        None \<Rightarrow> Inr None
      | Some revs \<Rightarrow>
          (case opt_or (rm_repo args) (map_option (\<lambda>r. linux_repo (ktest r)) rc) of
             None \<Rightarrow> Inl NoRepository
           | Some rp \<Rightarrow>
               if \<not> open_repo G rp then Inl OpeningRepository
               else (case get_commits_in_range G R rp revs of Inl e \<Rightarrow> Inl e | Inr cs \<Rightarrow> Inr (Some cs))))"

definition rm_results ::
  "capnp \<Rightarrow> git2 \<Rightarrow> git2_range \<Rightarrow> (string \<Rightarrow> (string \<Rightarrow> bool) option) \<Rightarrow> (string list \<Rightarrow> string list)
    \<Rightarrow> rm_args \<Rightarrow> CiConfig option \<Rightarrow> sys \<Rightarrow> rm_outcome \<times> sys" where
  "rm_results C G R new_pattern order args rc s =
     (case new_pattern (replace_char CHR ''/'' ''.'' (rm_test args)) of
        None \<Rightarrow> (RmFailed InvalidPattern, s)
      | Some matches \<Rightarrow>
          (case opt_or (rm_output_dir args) (map_option (\<lambda>r. output_dir (ktest r)) rc) of
             None \<Rightarrow> (RmFailed NoOutputDir, s)
           | Some _ \<Rightarrow>
               (case rm_commit_filter G R args rc of
                  Inl e \<Rightarrow> (RmFailed e, s)
                | Inr cs \<Rightarrow>
                    (case find_matching_results (dsk s) matches cs of
                       Inl e \<Rightarrow> (RmFailed e, s)
                     | Inr results \<Rightarrow>
                         if results = [] then (NoResults, s)
                         else if rm_dry_run args then (WouldDelete (length results), s)
                         else
                           (let (affected, d) = remove_results results [] (dsk s)
                            in (Deleted (length results),
                                fold (\<lambda>c s. commit_update_results C s c) (order affected) (s\<lparr>dsk := d\<rparr>)))))))"

section \<open>Lemmas on the selection\<close>

text \<open>The results that are selected.\<close>

definition selected :: "disk \<Rightarrow> (string \<Rightarrow> bool) \<Rightarrow> string set option \<Rightarrow> string \<Rightarrow> string \<Rightarrow> bool" where
  "selected d matches cs c n \<longleftrightarrow>
     \<not> not_a_commit c \<and> (cs = None \<or> take 40 c \<in> the cs) \<and> node_at (tree d) [c, n] \<noteq> None \<and> matches n"

lemma child_is_dir: "node_at (tree d) [c, n] \<noteq> None \<Longrightarrow> is_dir d [c]"
  using is_dir_parent [of d "[c]" n] by simp

lemma find_matching_entries_Inr:
  "\<exists>ps. find_matching_entries d matches cs names results = Inr (results @ ps) \<and>
     set ps = {[c, n] |c n. c \<in> set names \<and> selected d matches cs c n}"
proof (induction names arbitrary: results)
  case (Cons c names)
  show ?case
  proof (cases "not_a_commit c \<or> (cs \<noteq> None \<and> take 40 c \<notin> the cs) \<or> \<not> is_dir d [c]")
    case True
    then have "\<not> selected d matches cs c n" for n using child_is_dir [of d c n] by (auto simp: selected_def)
    then show ?thesis using True Cons.IH [of results] by auto
  next
    case False
    then obtain es where es: "read_dir d [c] = Some es" by (auto simp: is_dir_read_dir)
    then have sel: "selected d matches cs c n \<longleftrightarrow> n \<in> set es \<and> matches n" for n
      using False read_dir_iff [OF es, of n] by (auto simp: selected_def)
    from Cons.IH [of "results @ map (\<lambda>t. [c, t]) (filter matches es)"] obtain ps
      where ps: "find_matching_entries d matches cs names (results @ map (\<lambda>t. [c, t]) (filter matches es)) =
          Inr ((results @ map (\<lambda>t. [c, t]) (filter matches es)) @ ps)"
        "set ps = {[c, n] |c n. c \<in> set names \<and> selected d matches cs c n}"
      by blast
    have "find_matching_entries d matches cs (c # names) results =
        Inr (results @ map (\<lambda>t. [c, t]) (filter matches es) @ ps)"
      using False es ps(1) by (cases cs) simp_all
    moreover have "set (map (\<lambda>t. [c, t]) (filter matches es) @ ps) =
        {[c', n] |c' n. c' \<in> set (c # names) \<and> selected d matches cs c' n}"
      using ps(2) sel by auto
    ultimately show ?thesis by blast
  qed
qed simp

lemma find_matching_results_Inr:
  assumes "is_dir d []"
  shows "\<exists>ps. find_matching_results d matches cs = Inr ps \<and> set ps = {[c, n] |c n. selected d matches cs c n}"
proof -
  obtain names where names: "read_dir d [] = Some names" using assms by (auto simp: is_dir_read_dir)
  have "c \<in> set names" if "selected d matches cs c n" for c n
    using that child_is_dir [of d c n] is_dir_exists [of d "[c]"] read_dir_iff [OF names, of c]
    by (auto simp: selected_def)
  then show ?thesis
    using find_matching_entries_Inr [of d matches cs names "[]"] names
    by (auto simp: find_matching_results_def)
qed

section \<open>Lemmas on the deletion\<close>

lemma remove_path_puts: "puts {p} d (snd (remove_path d p))"
  by (simp add: remove_path_def puts_remove_dir puts_remove_file)

lemma remove_path_gone:
  assumes "no_faults d"
  shows "node_at (tree (snd (remove_path d [c, n]))) [c, n] = None"
proof (cases "node_at (tree d) [c, n]")
  case None
  then show ?thesis by (simp add: remove_path_def remove_file_def is_dir_def)
next
  case (Some x)
  then obtain es where "node_at (tree d) [c] = Some (Dir es)"
    using child_is_dir [of d c n] by (auto simp: is_dir_def split: option.splits node.splits)
  then obtain t where t: "put_node (tree d) [c, n] None = Some t"
    using put_node_enabled [of "tree d" "[c]" es n None] by auto
  then have "node_at t [c, n] = None" by (rule put_node_same)
  with assms t Some show ?thesis
    by (simp add: remove_path_def remove_dir_all_def remove_file_def no_faults_def)
qed

lemma remove_results_spec:
  assumes "no_faults d" and "\<forall>p \<in> set ps. \<exists>c n. p = [c, n]" and "remove_results ps affected d = (affected', d')"
  shows "set affected' = set affected \<union> {c. \<exists>n. [c, n] \<in> set ps} \<and> puts {[c, n] |c n. True} d d' \<and>
    (\<forall>c n. node_at (tree d') [c, n] = (if [c, n] \<in> set ps then None else node_at (tree d) [c, n]))"
  using assms
proof (induction ps affected d rule: remove_results.induct)
  case (2 p ps affected d)
  then obtain c0 n0 where p: "p = [c0, n0]" by auto
  let ?d1 = "snd (remove_path d p)"
  note pt = remove_path_puts [of p d]
  have "no_faults ?d1" using puts_fault [OF pt] "2.prems"(1) by (simp add: no_faults_def)
  with 2 p have ih: "set affected' = set (List.insert c0 affected) \<union> {c. \<exists>n. [c, n] \<in> set ps}"
    "puts {[c, n] |c n. True} ?d1 d'"
    "\<forall>c n. node_at (tree d') [c, n] = (if [c, n] \<in> set ps then None else node_at (tree ?d1) [c, n])"
    by (auto simp: Let_def)
  have one: "node_at (tree ?d1) [c, n] = (if [c, n] = p then None else node_at (tree d) [c, n])" for c n
  proof (cases "[c, n] = p")
    case False
    then have "indep p [c, n]" using p by (auto simp: indep_def)
    then show ?thesis using False puts_frame [OF pt, of "[c, n]"] by simp
  qed (use remove_path_gone [OF "2.prems"(1)] p in auto)
  have "puts {[c, n] |c n. True} d ?d1" by (rule puts_mono [OF pt]) (use p in auto)
  then have "puts {[c, n] |c n. True} d d'" using ih(2) puts_trans by blast
  then show ?case using ih(1,3) one p by auto
qed simp

lemma below_commits:
  assumes "puts {[c, n] |c n. True} d d'"
  shows "fault d' = fault d" and "is_dir d' [] \<longleftrightarrow> is_dir d []" and "is_dir d' [a] \<longleftrightarrow> is_dir d [a]"
    and "\<not> is_dir d [a] \<Longrightarrow> node_at (tree d') [a] = node_at (tree d) [a]"
proof -
  show "fault d' = fault d" and "is_dir d' [] \<longleftrightarrow> is_dir d []"
    using puts_fault [OF assms] puts_root [OF assms] by blast+
  show "is_dir d' [a] \<longleftrightarrow> is_dir d [a]"
    by (rule puts_keeps_dir [OF assms]) (auto simp: indep_def)
  show "node_at (tree d') [a] = node_at (tree d) [a]" if "\<not> is_dir d [a]"
    using assms that
  proof (induction rule: puts.induct)
    case (step d d' p x t)
    then obtain c n where p: "p = [c, n]" and same: "node_at (tree d') [a] = node_at (tree d) [a]" by auto
    have "is_dir d' [c]" using put_node_above [OF step.hyps(3), of "[c]"] p by (force simp: is_dir_def)
    moreover have "\<not> is_dir d' [a]" using same step.prems by (simp add: is_dir_def)
    ultimately have "c \<noteq> a" by auto
    then show ?case
      using put_node_other [OF step.hyps(3), of "[a]"] p same by simp
  qed simp
qed

section \<open>Lemmas on the rebuild\<close>

lemma commit_update_results_spec:
  assumes "capnp_ok C" and "healthy (dsk s)" and "CHR ''.'' \<notin> set c"
  defines "s' \<equiv> commit_update_results C s c"
  shows "healthy (dsk s')"
    and "CHR ''.'' \<notin> set a \<Longrightarrow> node_at (tree (dsk s')) (a # q) = node_at (tree (dsk s)) (a # q)"
    and "commitdir_get_results C (dsk s') c' =
      (if c' = c then Some (rendered (commitdir_get_results_fs (dsk s) c)) else commitdir_get_results C (dsk s) c')"
proof -
  obtain s2 where s2: "results_to_capnp C s c None (commitdir_get_results_fs (dsk s) c) = (Inr (), s2)" "healthy (dsk s2)"
    using results_to_capnp_on_healthy [OF assms(2)] by blast
  then have s': "s' = s2" by (simp add: s'_def commit_update_results_def)
  show "healthy (dsk s')" using s2 s' by simp
  show "node_at (tree (dsk s')) (a # q) = node_at (tree (dsk s)) (a # q)" if "CHR ''.'' \<notin> set a"
    unfolding s' using that
    by (intro results_to_capnp_frame [OF s2(1)]) (auto simp: capnp_name_def tmp_name_def)
  show "commitdir_get_results C (dsk s') c' =
      (if c' = c then Some (rendered (commitdir_get_results_fs (dsk s) c)) else commitdir_get_results C (dsk s) c')"
    unfolding s' using written_results [OF assms(1) commitdir_get_results_fs_ok s2(1)] capnp_other [OF s2(1), of c']
    by auto
qed

lemma update_all_spec:
  assumes "capnp_ok C" and "healthy (dsk s)" and "\<forall>c \<in> set cs. CHR ''.'' \<notin> set c"
  defines "s' \<equiv> fold (\<lambda>c s. commit_update_results C s c) cs s"
  shows "healthy (dsk s') \<and>
    (\<forall>a q. CHR ''.'' \<notin> set a \<longrightarrow> node_at (tree (dsk s')) (a # q) = node_at (tree (dsk s)) (a # q)) \<and>
    (\<forall>c. commitdir_get_results C (dsk s') c =
      (if c \<in> set cs then Some (rendered (commitdir_get_results_fs (dsk s) c)) else commitdir_get_results C (dsk s) c))"
  using assms(2,3) unfolding s'_def
proof (induction cs arbitrary: s)
  case (Cons c cs)
  let ?s1 = "commit_update_results C s c"
  have c: "CHR ''.'' \<notin> set c" using Cons.prems(2) by simp
  note one = commit_update_results_spec [OF assms(1) Cons.prems(1) c]
  have fs: "commitdir_get_results_fs (dsk ?s1) a = commitdir_get_results_fs (dsk s) a" if "CHR ''.'' \<notin> set a" for a
    using one(2) [OF that] by (intro commitdir_get_results_fs_cong) simp
  have fs_in: "commitdir_get_results_fs (dsk ?s1) a = commitdir_get_results_fs (dsk s) a" if "a \<in> set cs" for a
    using that Cons.prems(2) by (intro fs) auto
  note ih = Cons.IH [OF one(1)]
  have "\<forall>c \<in> set cs. CHR ''.'' \<notin> set c" using Cons.prems(2) by simp
  from ih [OF this] show ?case using one(2,3) fs_in by auto
qed simp

text \<open>A run that deletes: what it leaves.\<close>

lemma rm_updates:
  assumes "capnp_ok C" and "healthy (dsk s)" and "puts {[c, n] |c n. True} (dsk s) d1"
    and at: "\<And>c n. node_at (tree d1) [c, n] = (if sel c n then None else node_at (tree (dsk s)) [c, n])"
    and dirs: "\<forall>c n. sel c n \<longrightarrow> is_dir (dsk s) [c]" and cs: "set cs = {c. \<exists>n. sel c n}"
    and s': "s' = fold (\<lambda>c s. commit_update_results C s c) cs (s\<lparr>dsk := d1\<rparr>)"
  shows "healthy (dsk s') \<and>
    (\<forall>c n. is_dir (dsk s) [c] \<longrightarrow> node_at (tree (dsk s')) [c, n] = (if sel c n then None else node_at (tree (dsk s)) [c, n])) \<and>
    (\<forall>c. is_dir (dsk s) [c] \<longrightarrow> is_dir (dsk s') [c]) \<and>
    (\<forall>c. commitdir_get_results C (dsk s') c =
       (if \<exists>n. sel c n then Some (rendered (commitdir_get_results_fs (dsk s') c)) else commitdir_get_results C (dsk s) c))"
proof -
  note bc = below_commits [OF assms(3)]
  have h1: "healthy (dsk (s\<lparr>dsk := d1\<rparr>))" using assms(2) bc by (simp add: healthy_def no_faults_def)
  have dotless: "CHR ''.'' \<notin> set c" if "is_dir (dsk s) [c]" for c
    using assms(2) that by (auto simp: healthy_def)
  have "\<forall>c \<in> set cs. CHR ''.'' \<notin> set c" using cs dirs dotless by auto
  note up = update_all_spec [OF assms(1) h1 this, folded s', simplified]
  have fil: "commitdir_get_results C d1 c = commitdir_get_results C (dsk s) c" for c
    using bc(4) [of "c @ ''.capnp''"] dotted_not_dir(1) [OF assms(2), of c]
    by (intro commitdir_get_results_cong) (simp add: capnp_name_def)
  have fs: "commitdir_get_results_fs (dsk s') c = commitdir_get_results_fs d1 c" if "sel c n" for c n
    using up dotless dirs that by (intro commitdir_get_results_fs_cong) auto
  have "node_at (tree (dsk s')) [c, n] = (if sel c n then None else node_at (tree (dsk s)) [c, n])"
    if "is_dir (dsk s) [c]" for c n
    using up dotless [OF that] at by simp
  moreover have "is_dir (dsk s') [c]" if "is_dir (dsk s) [c]" for c
    using up dotless [OF that] bc(3) [of c] that by (simp add: is_dir_def)
  moreover have "commitdir_get_results C (dsk s') c =
     (if \<exists>n. sel c n then Some (rendered (commitdir_get_results_fs (dsk s') c))
      else commitdir_get_results C (dsk s) c)" for c
    using up fs fil cs by auto
  ultimately show ?thesis using up by blast
qed

lemma rm_results_deletes:
  assumes "capnp_ok C" and "healthy (dsk s)" and "\<And>xs. set (order xs) = set xs"
    and "new_pattern (replace_char CHR ''/'' ''.'' (rm_test args)) = Some matches"
    and "opt_or (rm_output_dir args) (map_option (\<lambda>r. output_dir (ktest r)) rc) \<noteq> None"
    and "rm_commit_filter G R args rc = Inr cs" and "\<not> rm_dry_run args"
    and "rm_results C G R new_pattern order args rc s = (out, s')"
  shows "healthy (dsk s') \<and>
    (\<forall>c n. is_dir (dsk s) [c] \<longrightarrow> node_at (tree (dsk s')) [c, n] =
       (if selected (dsk s) matches cs c n then None else node_at (tree (dsk s)) [c, n])) \<and>
    (\<forall>c. is_dir (dsk s) [c] \<longrightarrow> is_dir (dsk s') [c]) \<and>
    (\<forall>c. commitdir_get_results C (dsk s') c =
       (if \<exists>n. selected (dsk s) matches cs c n then Some (rendered (commitdir_get_results_fs (dsk s') c))
        else commitdir_get_results C (dsk s) c)) \<and>
    (out = NoResults \<longleftrightarrow> (\<forall>c n. \<not> selected (dsk s) matches cs c n)) \<and> (\<forall>e. out \<noteq> RmFailed e)"
proof -
  let ?sel = "selected (dsk s) matches cs"
  obtain ps where ps: "find_matching_results (dsk s) matches cs = Inr ps" "set ps = {[c, n] |c n. ?sel c n}"
    using find_matching_results_Inr [of "dsk s" matches cs] assms(2) by (auto simp: healthy_def)
  obtain dir where dir: "opt_or (rm_output_dir args) (map_option (\<lambda>r. output_dir (ktest r)) rc) = Some dir"
    using assms(5) by blast
  note run = assms(8) [unfolded rm_results_def assms(4) dir assms(6) option.case sum.case ps(1)]
  show ?thesis
  proof (cases "ps = []")
    case True
    then have none: "\<not> ?sel c n" for c n using ps(2) by auto
    have "out = NoResults" "s' = s" using run True by auto
    then show ?thesis using none assms(2) by simp
  next
    case False
    then obtain c0 n0 where ex: "?sel c0 n0" using ps(2) by (cases ps) auto
    obtain affected d1 where rm: "remove_results ps [] (dsk s) = (affected, d1)" by fastforce
    have out: "out = Deleted (length ps)"
      and s': "s' = fold (\<lambda>c s. commit_update_results C s c) (order affected) (s\<lparr>dsk := d1\<rparr>)"
      using run False rm assms(7) by auto
    have "no_faults (dsk s)" and "\<forall>p \<in> set ps. \<exists>c n. p = [c, n]" using assms(2) ps(2) by (auto simp: healthy_def)
    note sp = remove_results_spec [OF this rm]
    then have del: "set affected = {c. \<exists>n. ?sel c n}" "puts {[c, n] |c n. True} (dsk s) d1"
      "\<And>c n. node_at (tree d1) [c, n] = (if ?sel c n then None else node_at (tree (dsk s)) [c, n])"
      using ps(2) by auto
    have dirs: "\<forall>c n. ?sel c n \<longrightarrow> is_dir (dsk s) [c]"
      using child_is_dir by (auto simp: selected_def)
    have "set (order affected) = {c. \<exists>n. ?sel c n}" using del(1) assms(3) by simp
    from rm_updates [OF assms(1,2) del(2,3) dirs this s'] show ?thesis using out ex by blast
  qed
qed

lemma rm_results_puts: "puts UNIV (dsk s) (dsk (snd (rm_results C G R new_pattern order args rc s)))"
proof -
  have rm: "puts UNIV d (snd (remove_results ps affected d))" for ps affected d
  proof (induction ps affected d rule: remove_results.induct)
    case (2 p ps affected d)
    then show ?case
      using puts_trans puts_mono [OF remove_path_puts [of p d], of UNIV] by (auto simp: Let_def)
  qed simp
  have one: "puts UNIV (dsk s) (dsk (commit_update_results C s c))" for s :: sys and c
  proof -
    obtain r s' where run: "results_to_capnp C s c None (commitdir_get_results_fs (dsk s) c) = (r, s')" by fastforce
    show ?thesis
      using puts_mono [OF results_to_capnp_puts [OF run, THEN conjunct1], of UNIV] run
      by (simp add: commit_update_results_def)
  qed
  have up: "puts UNIV d (dsk s) \<Longrightarrow> puts UNIV d (dsk (fold (\<lambda>c s. commit_update_results C s c) cs s))"
    for d cs and s :: sys
  proof (induction cs arbitrary: s)
    case (Cons c cs)
    then show ?case using puts_trans [OF one [of s c] Cons.prems] by simp
  qed simp
  have "puts UNIV (dsk s) (dsk (fold (\<lambda>c s. commit_update_results C s c) cs (s\<lparr>dsk := d\<rparr>)))"
    if "remove_results ps [] (dsk s) = (affected, d)" for cs ps affected d
    using rm [of "dsk s" ps "[]"] that by (intro up) simp
  then show ?thesis
    by (auto simp: rm_results_def split: option.split sum.split prod.split)
qed

section \<open>Properties\<close>

text \<open>C13: \<open>rm-results\<close> deletes exactly what was asked for. On a healthy disk, when the pattern compiles and the range resolves:
  of the entries of the commit directories exactly the selected ones are gone (the name matches, the commit is
  in the range if one is given); the \<open>.capnp\<close> file of every commit that lost a result is rebuilt from
  what is left, and every other one reads as before; and a dry run changes nothing.\<close>

theorem rm_results_correct:
  assumes "capnp_ok C" and "healthy (dsk s)" and "\<forall>xs. set (order xs) = set xs"
    and "new_pattern (replace_char CHR ''/'' ''.'' (rm_test args)) = Some matches"
    and "opt_or (rm_output_dir args) (map_option (\<lambda>r. output_dir (ktest r)) rc) \<noteq> None"
    and "rm_commit_filter G R args rc = Inr cs"
    and "rm_results C G R new_pattern order args rc s = (out, s')"
  shows "if rm_dry_run args then s' = s
    else (\<forall>c n. is_dir (dsk s) [c] \<longrightarrow> node_at (tree (dsk s')) [c, n] =
           (if \<not> not_a_commit c \<and> (\<forall>K. cs = Some K \<longrightarrow> take 40 c \<in> K) \<and> matches n then None
            else node_at (tree (dsk s)) [c, n])) \<and>
      (\<forall>c. commitdir_get_results C (dsk s') c =
         (if \<exists>n. selected (dsk s) matches cs c n then Some (rendered (commitdir_get_results_fs (dsk s') c))
          else commitdir_get_results C (dsk s) c))"
proof (cases "rm_dry_run args")
  case True
  then show ?thesis
    using assms(4-7) by (auto simp: rm_results_def split: option.splits sum.splits if_splits)
next
  case False
  note sp = rm_results_deletes [OF assms(1,2) _ assms(4-6) False assms(7)]
  have "(if \<not> not_a_commit c \<and> (\<forall>K. cs = Some K \<longrightarrow> take 40 c \<in> K) \<and> matches n then None
         else node_at (tree (dsk s)) [c, n]) =
        (if selected (dsk s) matches cs c n then None else node_at (tree (dsk s)) [c, n])" for c n
    by (cases cs) (auto simp: selected_def)
  then show ?thesis using sp assms(3) False by auto
qed

definition sample_args :: rm_args where
  "sample_args = \<lparr> rm_test = ''t/b'', rm_commits = None, rm_repo = None, rm_output_dir = Some ''/out'', rm_dry_run = False \<rparr>"

definition sample_range :: git2_range where
  "sample_range = \<lparr> revspec = (\<lambda>_ _. None), walk_hiding = (\<lambda>_ _ _. None) \<rparr>"

definition sample_glob :: "string \<Rightarrow> (string \<Rightarrow> bool) option" where
  "sample_glob p = Some (\<lambda>n. n = p)"

definition sample_rm :: "rm_outcome \<times> sys" where
  "sample_rm = rm_results sample_capnp sample_git sample_range sample_glob (\<lambda>xs. xs) sample_args None
     (sample_sys sample_root)"

lemma sample_args_facts:
  "sample_glob (replace_char CHR ''/'' ''.'' (rm_test sample_args)) = Some (\<lambda>n. n = ''t.b'')"
  "opt_or (rm_output_dir sample_args) (map_option (\<lambda>r. output_dir (ktest r)) None) \<noteq> None"
  "rm_commit_filter sample_git sample_range sample_args None = Inr None"
  "\<not> rm_dry_run sample_args"
  by (simp_all add: sample_args_def sample_glob_def rm_commit_filter_def opt_or_def)

theorem rm_results_correct_witness:
  "node_at (tree (dsk (snd sample_rm))) [sample_commit, ''t.b''] = None"
proof -
  obtain out s' where run: "sample_rm = (out, s')" by fastforce
  have "is_dir (dsk (sample_sys sample_root)) [sample_commit]" and "\<not> not_a_commit sample_commit"
    by (simp_all add: sample_sys_def sample_root_def is_dir_def sample_commit_def not_a_commit_def dominated_by_def
        numeral_eq_Suc suffix_def)
  with rm_results_correct [where new_pattern = sample_glob and args = sample_args and matches = "\<lambda>n. n = ''t.b''" and order = "\<lambda>xs. xs" and rc = None,
      OF sample_capnp_ok sample_root_facts(1) _ sample_args_facts(1-3), of out s']
    run sample_args_facts(4)
  show ?thesis by (simp add: sample_rm_def)
qed

text \<open>C31: A result that was deleted with \<open>rm-results\<close> is run again after the daemon has been restarted: the store loaded from the
  disk \<open>rm-results\<close> left has no result for it, so the job matrix wants the job.\<close>

theorem rm_results_reruns:
  assumes "capnp_ok C" and "healthy (dsk s)" and "\<forall>xs. set (order xs) = set xs"
    and "new_pattern (replace_char CHR ''/'' ''.'' (rm_test args)) = Some matches"
    and "opt_or (rm_output_dir args) (map_option (\<lambda>r. output_dir (ktest r)) rc) \<noteq> None"
    and "rm_commit_filter G R args rc = Inr cs" and "\<not> rm_dry_run args"
    and "rm_results C G R new_pattern order args rc s = (out, s')"
    and "selected (dsk s) matches cs c key"
    and "read_dir (dsk s) [] = Some names" and "distinct names"
  shows "lookup (load C clear s') c key = None \<and> job_wanted (lookup (load C clear s') c key)"
proof -
  note sp = rm_results_deletes [OF assms(1,2) _ assms(4-8), rule_format]
  have dir: "is_dir (dsk s) [c]" using assms(9) child_is_dir by (auto simp: selected_def)
  have h: "healthy (dsk s')" and gone: "node_at (tree (dsk s')) [c, key] = None"
    and fil: "commitdir_get_results C (dsk s') c = Some (rendered (commitdir_get_results_fs (dsk s') c))"
    using sp assms(3,9) dir by auto
  have "read_test_result (dsk s') [c, key] = None"
    using node_at_child [OF gone] by (simp add: read_test_result_def read_file_def)
  then have "bt_get (rendered (commitdir_get_results_fs (dsk s') c)) key = None"
    by (simp add: rendered_get commitdir_get_results_fs_get)
  moreover obtain names' where "read_dir (dsk s') [] = Some names'" "distinct names'"
    using puts_root_distinct [OF _ assms(10,11)] rm_results_puts assms(8) by (metis snd_conv)
  ultimately have "store_get (load C clear s') c key = None"
    using load_get [OF assms(1) h, of names' clear c key] fil by simp
  then show ?thesis by (simp add: lookup_def store_get_def job_wanted_def)
qed

theorem rm_results_reruns_witness:
  "job_wanted (lookup (load sample_capnp False (snd sample_rm)) sample_commit ''t.b'')"
proof -
  obtain out s' where run: "sample_rm = (out, s')" by fastforce
  have sel: "selected (dsk (sample_sys sample_root)) (\<lambda>n. n = ''t.b'') None sample_commit ''t.b''"
    by (simp add: selected_def sample_sys_def sample_root_def sample_commit_def not_a_commit_def dominated_by_def
        numeral_eq_Suc suffix_def)
  have "distinct [sample_commit, sample_commit @ ''.capnp'']" by simp
  from rm_results_reruns [where new_pattern = sample_glob and args = sample_args and matches = "\<lambda>n. n = ''t.b''" and order = "\<lambda>xs. xs" and rc = None,
      OF sample_capnp_ok sample_root_facts(1) _ sample_args_facts _ sel sample_root_facts(2) this, of out s' False] run
  show ?thesis by (simp add: sample_rm_def job_wanted_def)
qed

end
