(* ===== verification/Branch_Query.thy ===== *)
theory Branch_Query
  imports Job_Matrix
begin

text \<open>
  The queries the dashboard and the command line share (\<open>src/lib.rs\<close>): the results along a branch, the
  roll-up per commit, the branch log file, the last good commit of a test, and the cache of
  \<open>.capnp\<close> files fetched over HTTP. The regular expression is the parameter \<open>is_match\<close>, the HTTP client the
  parameter \<open>http\<close>: for a URL and an optional modification time the status and the body, or \<open>None\<close> for an
  error. The fetches of one prefetch run in parallel; they write different files, and the model runs
  them in order. Sums of durations wrap around, as in a release build.
\<close>

section \<open>Fetching\<close>

type_synonym http = "string \<Rightarrow> int option \<Rightarrow> (nat \<times> bytes) option"

definition trim_slashes :: "string \<Rightarrow> string" where
  "trim_slashes s = rev (dropWhile (\<lambda>c. c = CHR ''/'') (rev s))"

datatype fetch_result = Fetched | Missing | HttpError

definition fetch_capnp_cached :: "http \<Rightarrow> string \<Rightarrow> int \<Rightarrow> disk \<Rightarrow> string \<Rightarrow> fetch_result \<times> disk" where
  "fetch_capnp_cached http base_url now d commit_id =
     (let url = trim_slashes base_url @ ''/'' @ commit_id @ ''.capnp''
      in case http url (map_option snd (read_file d (capnp_name commit_id))) of
           None \<Rightarrow> (HttpError, d)
         | Some (code, body) \<Rightarrow>
             if code = 304 then (Fetched, d)
             else if code = 200 then (Fetched, snd (write_file d now (capnp_name commit_id) body))
             else if code = 404 then (Missing, d)
             else (HttpError, d))"

definition n_fresh :: nat where
  "n_fresh = 5"

definition to_fetch :: "disk \<Rightarrow> string list \<Rightarrow> string list" where
  "to_fetch d ids =
     map snd (filter (\<lambda>(i, c). i < n_fresh \<or> \<not> path_exists d (capnp_name c)) (enumerate 0 ids))"

definition prefetch_capnp :: "http \<Rightarrow> string \<Rightarrow> int \<Rightarrow> disk \<Rightarrow> string list \<Rightarrow> disk" where
  "prefetch_capnp http base_url now d ids =
     fold (\<lambda>c d. snd (fetch_capnp_cached http base_url now d c)) (to_fetch d ids) d"

definition commitdir_get_results_full ::
  "capnp \<Rightarrow> http \<Rightarrow> Ktestrc \<Rightarrow> int \<Rightarrow> disk \<Rightarrow> string \<Rightarrow> CommitResultsCapnp option \<times> disk" where
  "commitdir_get_results_full C http rc now d commit_id =
     (let (r, d) =
            (case ci_url rc of
               None \<Rightarrow> (Fetched, d)
             | Some base_url \<Rightarrow> fetch_capnp_cached http base_url now d commit_id)
      in if r = HttpError then (None, d)
         else (Option.bind (commit_read_capnp d commit_id) (parse_test_results C), d))"

section \<open>Results along a branch\<close>

definition filter_results :: "TestResultsMap \<Rightarrow> (string \<Rightarrow> bool) \<Rightarrow> TestResultsMap" where
  "filter_results r is_match = bt_collect (filter (\<lambda>i. is_match (fst i)) r)"

record CommitResults =
  cr_id :: string
  cr_message :: string
  cr_tests :: TestResultsMap

text \<open>The loop of phase 3 and the loop that drops trailing commits without results.\<close>

fun collect_results :: "nat \<Rightarrow> CommitResults list \<Rightarrow> nat \<Rightarrow> nat \<Rightarrow> CommitResults list \<Rightarrow> CommitResults list" where
  "collect_results depth [] nr_empty nr_commits ret = ret"
| "collect_results depth (r # rs) nr_empty nr_commits ret =
     (let nr_empty = (if cr_tests r \<noteq> [] then 0 else nr_empty + 1)
      in if cr_tests r = [] \<and> nr_empty > 100 then ret
         else if nr_commits + 1 > depth then ret @ [r]
         else collect_results depth rs nr_empty (nr_commits + 1) (ret @ [r]))"

definition pop_empty :: "CommitResults list \<Rightarrow> CommitResults list" where
  "pop_empty ret = rev (dropWhile (\<lambda>r. cr_tests r = []) (rev ret))"

definition commit_depth :: "Ktestrc \<Rightarrow> nat" where
  "commit_depth rc = unat (unwrap_or (keep_results_commits rc) 500)"

text \<open>Phase 1: the commits of the walk that can be read, with their messages.\<close>

definition walk_commits :: "git2 \<Rightarrow> string \<Rightarrow> nat \<Rightarrow> string option list \<Rightarrow> (string \<times> string) list" where
  "walk_commits G rp depth ids =
     take depth (List.map_filter (\<lambda>c. map_option (\<lambda>msg. (c, msg)) (find_commit G rp c)) (List.map_filter id ids))"

text \<open>\<open>Panicked\<close> is the \<open>unwrap\<close> of a missing user or branch.\<close>

datatype query_error = CommitNotFound | ErrorWalking string | Panicked

definition query_target :: "string option \<Rightarrow> string option \<Rightarrow> string option \<Rightarrow> string option" where
  "query_target user branch commit =
     (case commit of
        Some c \<Rightarrow> Some c
      | None \<Rightarrow> (case (user, branch) of (Some u, Some b) \<Rightarrow> Some (u @ ''/'' @ b) | _ \<Rightarrow> None))"

definition branch_get_results ::
  "capnp \<Rightarrow> http \<Rightarrow> git2 \<Rightarrow> string \<Rightarrow> Ktestrc \<Rightarrow> string option \<Rightarrow> string option \<Rightarrow> string option \<Rightarrow> (string \<Rightarrow> bool)
    \<Rightarrow> int \<Rightarrow> disk \<Rightarrow> (query_error + CommitResults list) \<times> disk" where
  "branch_get_results C http G rp rc user branch commit is_match now d =
     (case query_target user branch commit of
        None \<Rightarrow> (Inl Panicked, d)
      | Some branch_or_commit \<Rightarrow>
          (case git_get_commit G rp branch_or_commit of
             None \<Rightarrow> (Inl CommitNotFound, d)
           | Some reference \<Rightarrow>
               (case walk G rp reference of
                  None \<Rightarrow> (Inl (ErrorWalking branch_or_commit), d)
                | Some ids \<Rightarrow>
                    (let depth = commit_depth rc;
                         cs = walk_commits G rp depth ids;
                         d = (case ci_url rc of None \<Rightarrow> d | Some u \<Rightarrow> prefetch_capnp http u now d (map fst cs));
                         rs = map (\<lambda>(c, msg). \<lparr> cr_id = c, cr_message = msg,
                                cr_tests = filter_results (unwrap_or (commitdir_get_results C d c) bt_empty) is_match \<rparr>) cs
                     in (Inr (pop_empty (collect_results depth rs 0 0 [])), d)))))"

section \<open>Roll-up\<close>

record BranchEntry =
  be_commit_id :: string
  be_message :: string
  be_passed :: u32
  be_failed :: u32
  be_notrun :: u32
  be_failed_to_run :: u32
  be_inprogress :: u32
  be_unknown :: u32
  be_duration :: u64

definition count_status :: "TestResultsMap \<Rightarrow> TestStatus \<Rightarrow> u32" where
  "count_status ts s = of_nat (length (filter (\<lambda>x. status (snd x) = s) ts))"

definition branch_entries :: "CommitResults list \<Rightarrow> BranchEntry list" where
  "branch_entries results =
     map (\<lambda>r. \<lparr> be_commit_id = cr_id r, be_message = cr_message r,
                be_passed = count_status (cr_tests r) Passed, be_failed = count_status (cr_tests r) Failed,
                be_notrun = count_status (cr_tests r) Notrun, be_failed_to_run = count_status (cr_tests r) FailedToRun,
                be_inprogress = count_status (cr_tests r) Inprogress, be_unknown = count_status (cr_tests r) Unknown,
                be_duration = sum_list (map (\<lambda>t. duration t) (map snd (cr_tests r))) \<rparr>)
       (filter (\<lambda>r. cr_tests r \<noteq> []) results)"

definition generate_branch_log ::
  "capnp \<Rightarrow> http \<Rightarrow> git2 \<Rightarrow> string \<Rightarrow> Ktestrc \<Rightarrow> string \<Rightarrow> string \<Rightarrow> int \<Rightarrow> disk
    \<Rightarrow> (query_error + BranchEntry list) \<times> disk" where
  "generate_branch_log C http G rp rc user branch now d =
     (case branch_get_results C http G rp rc (Some user) (Some branch) None (\<lambda>_. True) now d of
        (Inl e, d) \<Rightarrow> (Inl e, d)
      | (Inr results, d) \<Rightarrow>
          (Inr (List.map_filter (\<lambda>r.
             if cr_tests r = [] then None
             else Some (let duration_sum = sum_list (map (\<lambda>x. duration (snd x)) (cr_tests r))
                   in \<lparr> be_commit_id = cr_id r, be_message = cr_message r,
                        be_passed = count_status (cr_tests r) Passed, be_failed = count_status (cr_tests r) Failed,
                        be_notrun = count_status (cr_tests r) Notrun,
                        be_failed_to_run = count_status (cr_tests r) FailedToRun,
                        be_inprogress = count_status (cr_tests r) Inprogress,
                        be_unknown = count_status (cr_tests r) Unknown, be_duration = duration_sum \<rparr>)) results), d))"

section \<open>The branch log file\<close>

text \<open>\<open>struct BranchEntry\<close> of \<open>src/branchlog.capnp\<close>, as the setters and getters of a message see it. A text is bytes, or
  \<open>None\<close> when the reader cannot follow its pointer; a new entry has empty texts and zeros. The parameter only turns
  a list of such entries (\<open>struct BranchLog\<close>) into bytes and back.\<close>

record LogEntry =
  le_commit_id :: "bytes option"
  le_message :: "bytes option"
  le_passed :: u32
  le_failed :: u32
  le_notrun :: u32
  le_failed_to_run :: u32
  le_inprogress :: u32
  le_unknown :: u32
  le_duration :: u64

definition new_log_entry :: LogEntry where
  "new_log_entry = \<lparr> le_commit_id = Some [], le_message = Some [], le_passed = 0, le_failed = 0, le_notrun = 0,
     le_failed_to_run = 0, le_inprogress = 0, le_unknown = 0, le_duration = 0 \<rparr>"

record branchlog_capnp =
  write_log :: "LogEntry list \<Rightarrow> bytes"
  read_log :: "bytes \<Rightarrow> LogEntry list option"

definition branchlog_ok :: "branchlog_capnp \<Rightarrow> bool" where
  "branchlog_ok B \<longleftrightarrow> (\<forall>es. read_log B (write_log B es) = Some es)"

text \<open>A name with slashes, joined to \<open>output_dir\<close>, is a path through subdirectories.\<close>

definition branchlog_name :: "string \<Rightarrow> string \<Rightarrow> path" where
  "branchlog_name user branch = split_on CHR ''/'' (''branch.'' @ user @ ''.'' @ branch @ ''.capnp'')"

text \<open>The loop over the entries: one entry is taken from the new list and its fields are set.\<close>

definition set_log_entry :: "BranchEntry \<Rightarrow> LogEntry \<Rightarrow> LogEntry" where
  "set_log_entry entry dst =
     (let dst = dst\<lparr>le_commit_id := Some (be_commit_id entry)\<rparr>;
          dst = dst\<lparr>le_message := Some (be_message entry)\<rparr>;
          dst = dst\<lparr>le_passed := be_passed entry\<rparr>;
          dst = dst\<lparr>le_failed := be_failed entry\<rparr>;
          dst = dst\<lparr>le_notrun := be_notrun entry\<rparr>;
          dst = dst\<lparr>le_failed_to_run := be_failed_to_run entry\<rparr>;
          dst = dst\<lparr>le_inprogress := be_inprogress entry\<rparr>;
          dst = dst\<lparr>le_unknown := be_unknown entry\<rparr>
      in dst\<lparr>le_duration := be_duration entry\<rparr>)"

definition branch_log_message :: "BranchEntry list \<Rightarrow> LogEntry list" where
  "branch_log_message es =
     fold (\<lambda>(idx, entry) l. l[idx := set_log_entry entry (l ! idx)]) (enumerate 0 es)
       (replicate (length es) new_log_entry)"

definition write_branch_log ::
  "branchlog_capnp \<Rightarrow> disk \<Rightarrow> int \<Rightarrow> string \<Rightarrow> string \<Rightarrow> BranchEntry list \<Rightarrow> bool \<times> disk" where
  "write_branch_log B d now user branch es =
     (let message = branch_log_message es;
          fname = branchlog_name user branch;
          fname_new = split_on CHR ''/'' (''branch.'' @ user @ ''.'' @ branch @ ''.capnp.new'')
      in case create_file d now fname_new of
           None \<Rightarrow> (False, d)
         | Some d \<Rightarrow>
             (case fill_file d now fname_new (write_log B message) of
                (False, d) \<Rightarrow> (False, d)
              | (True, d) \<Rightarrow> rename_file d fname_new fname))"

text \<open>\<open>e.get_message().unwrap().to_string().unwrap()\<close>, \<open>None\<close> being a panic; then one entry and all of them.\<close>

datatype log_error = ReadLog | LogPanicked

definition log_text :: "bytes option \<Rightarrow> string option" where
  "log_text t = (case t of None \<Rightarrow> None | Some b \<Rightarrow> if is_utf8 b then Some b else None)"

definition get_log_entry :: "LogEntry \<Rightarrow> BranchEntry option" where
  "get_log_entry e =
     (case log_text (le_commit_id e) of
        None \<Rightarrow> None
      | Some c \<Rightarrow>
          (case log_text (le_message e) of
             None \<Rightarrow> None
           | Some msg \<Rightarrow>
               Some \<lparr> be_commit_id = c, be_message = msg, be_passed = le_passed e, be_failed = le_failed e,
                 be_notrun = le_notrun e, be_failed_to_run = le_failed_to_run e, be_inprogress = le_inprogress e,
                 be_unknown = le_unknown e, be_duration = le_duration e \<rparr>))"

fun collect_log :: "LogEntry list \<Rightarrow> BranchEntry list option" where
  "collect_log [] = Some []"
| "collect_log (e # es) =
     (case get_log_entry e of
        None \<Rightarrow> None
      | Some b \<Rightarrow> map_option ((#) b) (collect_log es))"

definition branchlog_parse :: "branchlog_capnp \<Rightarrow> bytes \<Rightarrow> log_error + BranchEntry list" where
  "branchlog_parse B f =
     (case read_log B f of
        None \<Rightarrow> Inl ReadLog
      | Some es \<Rightarrow> (case collect_log es of None \<Rightarrow> Inl LogPanicked | Some bs \<Rightarrow> Inr bs))"

definition branchlog_get :: "branchlog_capnp \<Rightarrow> disk \<Rightarrow> string \<Rightarrow> string \<Rightarrow> log_error + BranchEntry list" where
  "branchlog_get B d user branch =
     (case read_file d (branchlog_name user branch) of
        None \<Rightarrow> Inl ReadLog
      | Some (f, _) \<Rightarrow> branchlog_parse B f)"

section \<open>The last good commit\<close>

fun last_good_from :: "nat \<Rightarrow> CommitResults list \<Rightarrow> string \<Rightarrow> string" where
  "last_good_from idx [] test = ''>= '' @ show_nat idx"
| "last_good_from idx (r # rs) test =
     (case bt_get (cr_tests r) test of
        Some result \<Rightarrow>
          if status result = Passed then show_nat idx
          else if status result \<noteq> Failed then ''>= '' @ show_nat idx
          else last_good_from (idx + 1) rs test
      | None \<Rightarrow> ''>= '' @ show_nat idx)"

definition last_good_line :: "CommitResults list \<Rightarrow> string \<Rightarrow> string" where
  "last_good_line results test = last_good_from 0 results test"

section \<open>Lemmas on the collection\<close>

text \<open>How many commits the loop keeps when its budget is not used up: it stops at the 101st commit without
  results in a row, of which \<open>e\<close> came before.\<close>

fun cut :: "nat \<Rightarrow> bool list \<Rightarrow> nat" where
  "cut e [] = 0"
| "cut e (empt # bs) =
     (if \<not> empt then Suc (cut 0 bs) else if e + 1 > 100 then 0 else Suc (cut (e + 1) bs))"

lemma collect_results_cut:
  "n + length rs \<le> depth \<Longrightarrow>
     collect_results depth rs e n ret = ret @ take (cut e (map (\<lambda>r. cr_tests r = []) rs)) rs"
  by (induction depth rs e n ret rule: collect_results.induct) (auto simp: Let_def)

lemma cut_le: "cut e bs \<le> length bs"
  by (induction e bs rule: cut.induct) auto

lemma nth_shift: "e < k \<Longrightarrow> (replicate e True @ False # bs) ! k = bs ! (k - Suc e)"
  by (simp add: nth_append Suc_diff_Suc [symmetric] del: Suc_diff_Suc)

text \<open>It stops only at the end of 101 commits without results, and never passes over such a run.\<close>

lemma cut_stops:
  "e \<le> 100 \<Longrightarrow> cut e bs < length bs \<Longrightarrow>
     100 \<le> e + cut e bs \<and> (\<forall>t \<in> {e + cut e bs - 100..e + cut e bs}. (replicate e True @ bs) ! t)"
proof (induction e bs rule: cut.induct)
  case (2 e empt bs)
  show ?case
  proof (cases empt)
    case False
    then have ih: "100 \<le> cut 0 bs" "\<forall>t \<in> {cut 0 bs - 100..cut 0 bs}. bs ! t"
      using 2 by auto
    show ?thesis
    proof (intro conjI ballI)
      show "100 \<le> e + cut e (empt # bs)" using ih(1) False by simp
      fix t assume "t \<in> {e + cut e (empt # bs) - 100..e + cut e (empt # bs)}"
      then have t: "e + Suc (cut 0 bs) - 100 \<le> t" "t \<le> e + Suc (cut 0 bs)" using False by auto
      then have "e < t" and "t - Suc e \<in> {cut 0 bs - 100..cut 0 bs}" using ih(1) by auto
      then show "(replicate e True @ empt # bs) ! t" using ih(2) False nth_shift [of e t bs] by simp
    qed
  next
    case True
    show ?thesis
    proof (cases "e = 100")
      case True
      then show ?thesis using \<open>empt\<close> by (auto simp: nth_append nth_Cons')
    next
      case False
      then have "100 \<le> e + 1 + cut (e + 1) bs \<and>
          (\<forall>t \<in> {e + 1 + cut (e + 1) bs - 100..e + 1 + cut (e + 1) bs}. (replicate (e + 1) True @ bs) ! t)"
        using 2 \<open>empt\<close> by auto
      then show ?thesis using False \<open>empt\<close> "2.prems"(1) by (simp add: replicate_app_Cons_same)
    qed
  qed
qed simp

lemma cut_runs:
  "e \<le> 100 \<Longrightarrow> j + 101 \<le> e + cut e bs \<Longrightarrow> \<exists>t \<in> {j..<j + 101}. \<not> (replicate e True @ bs) ! t"
proof (induction e bs arbitrary: j rule: cut.induct)
  case (2 e empt bs)
  show ?case
  proof (cases empt)
    case False
    show ?thesis
    proof (cases "j \<le> e")
      case True
      then show ?thesis using False "2.prems"(1) by (intro bexI [of _ e]) (auto simp: nth_append)
    next
      case gt: False
      then have "j - Suc e + 101 \<le> cut 0 bs" using "2.prems"(2) False by simp
      then obtain t where t: "t \<in> {j - Suc e..<j - Suc e + 101}" "\<not> bs ! t"
        using "2.IH"(1) [of "j - Suc e"] False by force
      then show ?thesis
        using gt False nth_shift [of e "t + Suc e" bs] by (intro bexI [of _ "t + Suc e"]) auto
    qed
  next
    case True
    show ?thesis
    proof (cases "e = 100")
      case True
      then show ?thesis using "2.prems"(2) \<open>empt\<close> by simp
    next
      case False
      then show ?thesis using "2.IH"(2) [of j] "2.prems" \<open>empt\<close> by (simp add: replicate_app_Cons_same)
    qed
  qed
qed simp

lemma pop_empty_take:
  "\<exists>k \<le> length rs. pop_empty rs = take k rs \<and> (k = 0 \<or> cr_tests (rs ! (k - 1)) \<noteq> []) \<and>
     (\<forall>i. k \<le> i \<and> i < length rs \<longrightarrow> cr_tests (rs ! i) = [])"
proof (induction rs rule: rev_induct)
  case (snoc r rs)
  show ?case
  proof (cases "cr_tests r = []")
    case True
    from snoc obtain k where k: "k \<le> length rs" "pop_empty rs = take k rs"
      "k = 0 \<or> cr_tests (rs ! (k - 1)) \<noteq> []" "\<forall>i. k \<le> i \<and> i < length rs \<longrightarrow> cr_tests (rs ! i) = []"
      by blast
    with True show ?thesis
      by (intro exI [of _ k]) (auto simp: pop_empty_def nth_append less_Suc_eq)
  qed (auto simp: pop_empty_def nth_append intro!: exI [of _ "Suc (length rs)"])
qed (simp add: pop_empty_def)

text \<open>What is left: a prefix that ends in a commit with results; a commit with results is missing
  only behind a run of 101 commits without, and no such run is inside.\<close>

lemma collected:
  assumes "length rs \<le> depth"
  defines "empt i \<equiv> cr_tests (rs ! i) = []"
  shows "\<exists>k \<le> length rs. pop_empty (collect_results depth rs 0 0 []) = take k rs \<and> (k = 0 \<or> \<not> empt (k - 1)) \<and>
    (\<forall>i. k \<le> i \<and> i < length rs \<and> \<not> empt i \<longrightarrow> (\<exists>j. k \<le> j \<and> j + 101 \<le> i \<and> (\<forall>t \<in> {j..<j + 101}. empt t))) \<and>
    (\<forall>j. j + 101 \<le> k \<longrightarrow> (\<exists>t \<in> {j..<j + 101}. \<not> empt t))"
proof -
  define bs where "bs = map (\<lambda>r. cr_tests r = []) rs"
  define n where "n = cut 0 bs"
  have n: "n \<le> length rs" using cut_le [of 0 bs] by (simp add: n_def bs_def)
  have bs: "bs ! t \<longleftrightarrow> empt t" if "t < length rs" for t using that by (simp add: bs_def empt_def)
  have "collect_results depth rs 0 0 [] = take n rs"
    using collect_results_cut [of 0 rs depth 0 "[]"] assms(1) by (simp add: n_def bs_def)
  moreover obtain k where k: "k \<le> length (take n rs)" "pop_empty (take n rs) = take k (take n rs)"
      "k = 0 \<or> cr_tests (take n rs ! (k - 1)) \<noteq> []"
      "\<forall>i. k \<le> i \<and> i < length (take n rs) \<longrightarrow> cr_tests (take n rs ! i) = []"
    using pop_empty_take by blast
  ultimately have out: "pop_empty (collect_results depth rs 0 0 []) = take (min k n) rs" by simp
  have kn: "k \<le> n" using k(1) n by simp
  have k0: "k = 0 \<or> \<not> empt (k - 1)" using k(3) kn n by (auto simp: empt_def)
  have gap: "\<exists>j. k \<le> j \<and> j + 101 \<le> i \<and> (\<forall>t \<in> {j..<j + 101}. empt t)"
    if "k \<le> i" and "i < length rs" and "\<not> empt i" for i
  proof -
    have "n \<le> i" using k(4) that n by (auto simp: empt_def not_le)
    then have st: "100 \<le> n" "\<forall>t \<in> {n - 100..n}. bs ! t"
      using cut_stops [of 0 bs] that(2) by (auto simp: n_def bs_def)
    then have emp: "empt t" if "t \<in> {n - 100..n}" for t
      using that bs \<open>n \<le> i\<close> \<open>i < length rs\<close> by fastforce
    have "k - 1 \<notin> {n - 100..n}" if "k \<noteq> 0" using k0 emp that by blast
    then have "k \<le> n - 100" using kn by (cases "k = 0") auto
    moreover have "n < i" using emp [of n] that(3) \<open>n \<le> i\<close> by (cases "n = i") auto
    ultimately show ?thesis using emp st(1) by (intro exI [of _ "n - 100"]) auto
  qed
  have runs: "\<exists>t \<in> {j..<j + 101}. \<not> empt t" if "j + 101 \<le> k" for j
    using cut_runs [of 0 j bs] that kn n bs by (fastforce simp: n_def)
  have "k \<le> length rs" using kn n by simp
  then show ?thesis using out k0 gap runs min_absorb1 [OF kn] by metis
qed

section \<open>Lemmas on filtered results\<close>

lemma bt_get_filter_results:
  "bt_ok m \<Longrightarrow> bt_get (filter_results m P) k = (if P k then bt_get m k else None)"
  by (auto simp: filter_results_def bt_collect_id bt_ok_filter bt_get_filter split: option.splits)

text \<open>What the \<open>.capnp\<close> file of a commit has for a key, and whether it has anything that matches.\<close>

definition recorded :: "capnp \<Rightarrow> disk \<Rightarrow> string \<Rightarrow> string \<Rightarrow> TestResult option" where
  "recorded C d c k = Option.bind (commitdir_get_results C d c) (\<lambda>m. bt_get m k)"

definition any_recorded :: "capnp \<Rightarrow> disk \<Rightarrow> (string \<Rightarrow> bool) \<Rightarrow> string \<Rightarrow> bool" where
  "any_recorded C d P c \<longleftrightarrow> (\<exists>k. P k \<and> recorded C d c k \<noteq> None)"

lemma shown_get:
  "bt_get (filter_results (unwrap_or (commitdir_get_results C d c) bt_empty) P) k =
     (if P k then recorded C d c k else None)"
  using commitdir_get_results_ok [of C d c]
  by (cases "commitdir_get_results C d c") (auto simp: recorded_def bt_get_filter_results)

lemma bt_Nil_iff: "m = [] \<longleftrightarrow> (\<forall>k. bt_get m k = None)"
  by (cases m) (auto simp: map_of_eq_None_iff)

lemma shown_Nil:
  "filter_results (unwrap_or (commitdir_get_results C d c) bt_empty) P = [] \<longleftrightarrow> \<not> any_recorded C d P c"
  unfolding bt_Nil_iff shown_get any_recorded_def by auto

section \<open>Lemmas on fetching\<close>

text \<open>The file of a commit after one fetch.\<close>

definition refreshed :: "http \<Rightarrow> string \<Rightarrow> int \<Rightarrow> disk \<Rightarrow> string \<Rightarrow> (bytes \<times> int) option" where
  "refreshed http base_url now d c =
     (let old = read_file d (capnp_name c)
      in case http (trim_slashes base_url @ ''/'' @ c @ ''.capnp'') (map_option snd old) of
           None \<Rightarrow> old
         | Some (code, body) \<Rightarrow> if code = 200 then Some (body, now) else old)"

definition writable :: "string set \<Rightarrow> disk \<Rightarrow> bool" where
  "writable cs d \<longleftrightarrow> no_faults d \<and> is_dir d [] \<and> (\<forall>c \<in> cs. \<not> is_dir d (capnp_name c))"

lemma healthy_writable: "healthy d \<Longrightarrow> writable cs d"
  using dotted_not_dir by (auto simp: writable_def healthy_def)

lemma fetch_puts: "puts {capnp_name c} d (snd (fetch_capnp_cached http u now d c))"
  by (auto simp: fetch_capnp_cached_def Let_def intro: puts_write split: option.splits)

lemma fetch_frame:
  "q \<noteq> [] \<Longrightarrow> [hd q] \<noteq> capnp_name c \<Longrightarrow>
     node_at (tree (snd (fetch_capnp_cached http u now d c))) q = node_at (tree d) q"
  by (rule puts_frame [OF fetch_puts]) (cases q; auto simp: capnp_name_def intro: indep_heads)

lemma write_writable:
  assumes "writable cs d" and "c \<in> cs"
  shows "read_file (snd (write_file d now (capnp_name c) s)) (capnp_name c) = Some (s, now)"
proof -
  obtain d1 where d1: "create_file d now (capnp_name c) = Some d1"
    using create_top [of d] assms unfolding writable_def capnp_name_def by blast
  note p = puts_create [OF d1, of UNIV, simplified]
  have "no_faults d1" "is_dir d1 []"
    using puts_fault [OF p] puts_root [OF p] assms(1) by (auto simp: writable_def no_faults_def)
  then obtain d2 where "fill_file d1 now (capnp_name c) s = (True, d2)"
    using fill_top unfolding capnp_name_def by blast
  then show ?thesis using d1 fill_file_at by (simp add: write_file_def read_file_def)
qed

lemma fetch_refreshes:
  assumes "writable cs d" and "c \<in> cs"
  shows "read_file (snd (fetch_capnp_cached http u now d c)) (capnp_name c) = refreshed http u now d c"
  using write_writable [OF assms]
  by (auto simp: fetch_capnp_cached_def refreshed_def Let_def split: option.splits)

lemma fetch_writable:
  assumes "writable cs d"
  shows "writable cs (snd (fetch_capnp_cached http u now d c))" (is "writable cs ?d'")
proof -
  note p = fetch_puts [of c d http u now]
  have "\<not> is_dir ?d' (capnp_name c')" if c': "c' \<in> cs" for c'
  proof (cases "c' = c")
    case True
    have fill: "\<not> is_dir (snd (fill_file d1 now p s)) p" if "\<not> is_dir d1 p" for d1 p s
      using that by (auto simp: fill_file_def is_dir_def split: option.splits dest!: put_node_same)
    have "\<not> is_dir d1 (capnp_name c)" if "create_file d now (capnp_name c) = Some d1" for d1
      using create_file_at [OF that] by (simp add: is_dir_def)
    then have "\<not> is_dir (snd (write_file d now (capnp_name c) s)) (capnp_name c)" for s
      using fill c' True assms by (auto simp: write_file_def writable_def split: option.splits)
    then show ?thesis
      using c' True assms by (auto simp: fetch_capnp_cached_def Let_def writable_def split: option.splits)
  next
    case False
    then have "node_at (tree ?d') (capnp_name c') = node_at (tree d) (capnp_name c')"
      by (intro fetch_frame) (auto simp: capnp_name_def)
    then show ?thesis using assms c' by (simp add: writable_def is_dir_def)
  qed
  then show ?thesis
    using assms puts_fault [OF p] puts_root [OF p] by (simp add: writable_def no_faults_def)
qed

lemma refreshed_frame:
  "c' \<noteq> c \<Longrightarrow> refreshed http u now (snd (fetch_capnp_cached http u now d c)) c' = refreshed http u now d c'"
proof -
  assume "c' \<noteq> c"
  then have "node_at (tree (snd (fetch_capnp_cached http u now d c))) (capnp_name c') = node_at (tree d) (capnp_name c')"
    by (intro fetch_frame) (auto simp: capnp_name_def)
  then show ?thesis by (simp add: refreshed_def read_file_def)
qed

lemma fetch_all:
  fixes http u now
  assumes "writable (set cs) d" and "distinct cs"
  defines "d' \<equiv> fold (\<lambda>c d. snd (fetch_capnp_cached http u now d c)) cs d"
  shows "(\<forall>c \<in> set cs. read_file d' (capnp_name c) = refreshed http u now d c) \<and>
    (\<forall>q. q \<noteq> [] \<and> [hd q] \<notin> capnp_name ` set cs \<longrightarrow> node_at (tree d') q = node_at (tree d) q)"
  using assms(1,2) unfolding d'_def
proof (induction cs arbitrary: d)
  case (Cons c cs)
  let ?d1 = "snd (fetch_capnp_cached http u now d c)"
  let ?d' = "fold (\<lambda>c d. snd (fetch_capnp_cached http u now d c)) cs ?d1"
  have "writable (set cs) ?d1" using fetch_writable [OF Cons.prems(1)] by (simp add: writable_def)
  with Cons have ih: "\<forall>c' \<in> set cs. read_file ?d' (capnp_name c') = refreshed http u now ?d1 c'"
    "\<forall>q. q \<noteq> [] \<and> [hd q] \<notin> capnp_name ` set cs \<longrightarrow> node_at (tree ?d') q = node_at (tree ?d1) q"
    by auto
  have "capnp_name c \<notin> capnp_name ` set cs" and "capnp_name c = [hd (capnp_name c)]"
    using Cons.prems(2) by (auto simp: capnp_name_def)
  then have "node_at (tree ?d') (capnp_name c) = node_at (tree ?d1) (capnp_name c)"
    using ih(2) by (metis list.distinct(1))
  then have "read_file ?d' (capnp_name c) = read_file ?d1 (capnp_name c)"
    by (simp only: read_file_def)
  moreover have "read_file ?d1 (capnp_name c) = refreshed http u now d c"
    by (rule fetch_refreshes [OF Cons.prems(1)]) simp
  moreover have "refreshed http u now ?d1 c' = refreshed http u now d c'" if "c' \<in> set cs" for c'
    using that Cons.prems(2) by (intro refreshed_frame) auto
  ultimately have files: "\<forall>c' \<in> set (c # cs). read_file ?d' (capnp_name c') = refreshed http u now d c'"
    using ih(1) by (metis set_ConsD)
  have "node_at (tree ?d') q = node_at (tree d) q" if "q \<noteq> []" and "[hd q] \<notin> capnp_name ` set (c # cs)" for q
    using ih(2) fetch_frame [of q c http u now d] that by simp
  then show ?case using files by (simp only: fold_simps) blast
qed simp

lemma set_to_fetch:
  "set (to_fetch d ids) = {ids ! i |i. i < length ids \<and> (i < n_fresh \<or> \<not> path_exists d (capnp_name (ids ! i)))}"
  by (auto simp: to_fetch_def in_set_enumerate_eq image_def)

lemma distinct_to_fetch: "distinct ids \<Longrightarrow> distinct (to_fetch d ids)"
proof -
  assume "distinct ids"
  then have "distinct (map snd (enumerate 0 ids))" by simp
  then show ?thesis unfolding to_fetch_def by (rule distinct_map_filter)
qed

section \<open>Lemmas on the roll-up and the log\<close>

lemma count_statuses:
  "length (filter (\<lambda>x. f x = Passed) ts) + length (filter (\<lambda>x. f x = Failed) ts) +
   length (filter (\<lambda>x. f x = Notrun) ts) + length (filter (\<lambda>x. f x = FailedToRun) ts) +
   length (filter (\<lambda>x. f x = Inprogress) ts) + length (filter (\<lambda>x. f x = Unknown) ts) = length ts"
proof (induction ts)
  case (Cons t ts)
  then show ?case by (cases "f t") auto
qed simp

lemma generate_branch_log_entries:
  "generate_branch_log C http G rp rc user branch now d =
     (case branch_get_results C http G rp rc (Some user) (Some branch) None (\<lambda>_. True) now d of
        (Inl e, d) \<Rightarrow> (Inl e, d) | (Inr results, d) \<Rightarrow> (Inr (branch_entries results), d))"
proof -
  have mf: "List.map_filter (\<lambda>r. if cr_tests r = [] then None else Some (h r)) rs =
      map h (filter (\<lambda>r. cr_tests r \<noteq> []) rs)" for h :: "CommitResults \<Rightarrow> BranchEntry" and rs
    by (induction rs) (auto simp: map_filter_simps)
  show ?thesis
    unfolding generate_branch_log_def Let_def mf branch_entries_def map_map comp_def ..
qed

lemma count_status_unat: "length ts < 2 ^ 32 \<Longrightarrow> unat (count_status ts s) = length (filter (\<lambda>x. status (snd x) = s) ts)"
proof -
  assume "length ts < 2 ^ 32"
  then have "length (filter (\<lambda>x. status (snd x) = s) ts) < 2 ^ 32"
    using length_filter_le le_less_trans by blast
  then show ?thesis by (simp add: count_status_def unat_of_nat)
qed

lemma branchlog_top:
  assumes "CHR ''/'' \<notin> set user" and "CHR ''/'' \<notin> set branch"
  shows "branchlog_name user branch = [''branch.'' @ user @ ''.'' @ branch @ ''.capnp'']"
    and "split_on CHR ''/'' (''branch.'' @ user @ ''.'' @ branch @ ''.capnp.new'') =
      [''branch.'' @ user @ ''.'' @ branch @ ''.capnp.new'']"
  unfolding branchlog_name_def by (intro split_on_free, use assms in simp)+

text \<open>The fields of an entry as strings, for a codec that meets the assumption.\<close>

definition show_u32 :: "u32 \<Rightarrow> string" where
  "show_u32 w = show_nat (unat w)"

definition read_u32 :: "string \<Rightarrow> u32" where
  "read_u32 s = of_nat (unwrap_or (parse_digits 0 s) 0)"

lemma read_show_u32: "read_u32 (show_u32 w) = w"
proof -
  have "unat w < 2 ^ 64" by (rule order_less_le_trans [OF unsigned_less]) simp
  then show ?thesis by (simp add: read_u32_def show_u32_def parse_show_digits)
qed

fun put_log_entry :: "BranchEntry \<Rightarrow> string list" where
  "put_log_entry e =
     [be_commit_id e, be_message e, show_u32 (be_passed e), show_u32 (be_failed e), show_u32 (be_notrun e),
      show_u32 (be_failed_to_run e), show_u32 (be_inprogress e), show_u32 (be_unknown e),
      show_nat (unat (be_duration e))]"

fun get_log_entries :: "string list \<Rightarrow> BranchEntry list option" where
  "get_log_entries [] = Some []"
| "get_log_entries (i # m # p # f # n # r # g # u # t # rest) =
     (case parse_u64 t of
        None \<Rightarrow> None
      | Some t' \<Rightarrow>
          map_option ((#) \<lparr> be_commit_id = i, be_message = m, be_passed = read_u32 p, be_failed = read_u32 f,
              be_notrun = read_u32 n, be_failed_to_run = read_u32 r, be_inprogress = read_u32 g,
              be_unknown = read_u32 u, be_duration = t' \<rparr>)
            (get_log_entries rest))"
| "get_log_entries _ = None"

lemma get_log_put: "get_log_entries (concat (map put_log_entry es)) = Some es"
  by (induction es) (auto simp: decimal_u64.dec_enc read_show_u32)

text \<open>Setting the fields of one entry after the other fills the list, and every field comes back.\<close>

lemma fold_list_update:
  "length l = n + length es \<Longrightarrow>
     fold (\<lambda>(idx, e) l. l[idx := f e (l ! idx)]) (enumerate n es) l =
       take n l @ map2 f es (drop n l)"
proof (induction es arbitrary: n l)
  case (Cons e es)
  then have n: "n < length l" by simp
  then have "take (Suc n) (l[n := f e (l ! n)]) = take n l @ [f e (l ! n)]"
    by (simp add: take_Suc_conv_app_nth)
  moreover have "drop n l = l ! n # drop (Suc n) l" using Cons_nth_drop_Suc [OF n] by simp
  ultimately show ?case using Cons.IH [of "l[n := f e (l ! n)]" "Suc n"] Cons.prems by simp
qed simp

lemma map2_replicate: "map2 f xs (replicate (length xs) y) = map (\<lambda>x. f x y) xs"
  by (induction xs) auto

lemma branch_log_message_eq: "branch_log_message es = map (\<lambda>e. set_log_entry e new_log_entry) es"
  using fold_list_update [of "replicate (length es) new_log_entry" 0 es set_log_entry]
  by (simp add: branch_log_message_def map2_replicate)

lemma get_set_log_entry:
  "is_utf8 (be_commit_id e) \<Longrightarrow> is_utf8 (be_message e) \<Longrightarrow> get_log_entry (set_log_entry e dst) = Some e"
  by (simp add: get_log_entry_def set_log_entry_def log_text_def)

lemma collect_log_message:
  "\<forall>e \<in> set es. is_utf8 (be_commit_id e) \<and> is_utf8 (be_message e) \<Longrightarrow> collect_log (branch_log_message es) = Some es"
  unfolding branch_log_message_eq by (induction es) (simp_all add: get_set_log_entry)

lemma collect_log_bad:
  "\<exists>e \<in> set m. log_text (le_commit_id e) = None \<or> log_text (le_message e) = None \<Longrightarrow> collect_log m = None"
proof (induction m)
  case (Cons e m)
  then show ?case by (cases "get_log_entry e") (auto simp: get_log_entry_def split: option.splits)
qed simp

text \<open>A codec that meets the assumption: the fields as strings.\<close>

fun put_text :: "bytes option \<Rightarrow> string" where
  "put_text None = ''-''"
| "put_text (Some b) = ''+'' @ b"

fun get_text :: "string \<Rightarrow> bytes option" where
  "get_text (c # b) = (if c = CHR ''+'' then Some b else None)"
| "get_text [] = None"

lemma get_put_text: "get_text (put_text t) = t"
  by (cases t) simp_all

definition put_log_msg :: "LogEntry \<Rightarrow> string list" where
  "put_log_msg e =
     [put_text (le_commit_id e), put_text (le_message e), show_u32 (le_passed e), show_u32 (le_failed e),
      show_u32 (le_notrun e), show_u32 (le_failed_to_run e), show_u32 (le_inprogress e), show_u32 (le_unknown e),
      show_nat (unat (le_duration e))]"

fun get_log_msgs :: "string list \<Rightarrow> LogEntry list option" where
  "get_log_msgs [] = Some []"
| "get_log_msgs (i # m # p # f # n # r # g # u # t # rest) =
     (case parse_u64 t of
        None \<Rightarrow> None
      | Some t' \<Rightarrow>
          map_option ((#) \<lparr> le_commit_id = get_text i, le_message = get_text m, le_passed = read_u32 p,
              le_failed = read_u32 f, le_notrun = read_u32 n, le_failed_to_run = read_u32 r,
              le_inprogress = read_u32 g, le_unknown = read_u32 u, le_duration = t' \<rparr>)
            (get_log_msgs rest))"
| "get_log_msgs _ = None"

definition sample_branchlog :: branchlog_capnp where
  "sample_branchlog =
     \<lparr> write_log = (\<lambda>es. concat (map put_str (concat (map put_log_msg es)))),
       read_log = (\<lambda>b. Option.bind (get_strs [] b) get_log_msgs) \<rparr>"

lemma get_log_msg_put: "get_log_msgs (concat (map put_log_msg es)) = Some es"
  by (induction es) (auto simp: put_log_msg_def decimal_u64.dec_enc read_show_u32 get_put_text)

lemma sample_branchlog_ok: "branchlog_ok sample_branchlog"
  unfolding branchlog_ok_def sample_branchlog_def branchlog_capnp.simps get_strs_puts
  by (simp add: get_log_msg_put)

section \<open>Lemmas on the last good commit\<close>

text \<open>The number of leading commits in which a test is recorded as failed.\<close>

definition failed_run :: "CommitResults list \<Rightarrow> string \<Rightarrow> nat" where
  "failed_run rs test =
     length (takeWhile (\<lambda>r. map_option status (bt_get (cr_tests r) test) = Some Failed) rs)"

lemma last_good_from_run:
  "last_good_from idx rs test =
     (let k = failed_run rs test
      in (if k < length rs \<and> map_option status (bt_get (cr_tests (rs ! k)) test) = Some Passed
          then show_nat (idx + k) else ''>= '' @ show_nat (idx + k)))"
proof (induction idx rs test rule: last_good_from.induct)
  case (2 idx r rs test)
  then show ?case
    by (cases "bt_get (cr_tests r) test") (auto simp: failed_run_def Let_def)
qed (simp add: failed_run_def)

text \<open>The answer of \<open>branch_get_results\<close>.\<close>

lemma branch_get_results_spec:
  assumes "query_target user branch commit = Some rev_name" and "git_get_commit G rp rev_name = Some tip"
    and "walk G rp tip = Some ids" and "cs = walk_commits G rp (commit_depth rc) ids"
  shows "\<exists>rs d'. branch_get_results C http G rp rc user branch commit is_match now d = (Inr rs, d') \<and>
    length rs \<le> length cs \<and> length cs \<le> commit_depth rc \<and>
    (\<forall>i < length rs. cr_id (rs ! i) = fst (cs ! i) \<and> cr_message (rs ! i) = snd (cs ! i) \<and>
       (\<forall>k. bt_get (cr_tests (rs ! i)) k = (if is_match k then recorded C d' (fst (cs ! i)) k else None))) \<and>
    (rs \<noteq> [] \<longrightarrow> cr_tests (last rs) \<noteq> []) \<and>
    (\<forall>i. length rs \<le> i \<and> i < length cs \<and> any_recorded C d' is_match (fst (cs ! i)) \<longrightarrow>
       (\<exists>j. length rs \<le> j \<and> j + 101 \<le> i \<and> (\<forall>t \<in> {j..<j + 101}. \<not> any_recorded C d' is_match (fst (cs ! t))))) \<and>
    (\<forall>j. j + 101 \<le> length rs \<longrightarrow> (\<exists>t \<in> {j..<j + 101}. cr_tests (rs ! t) \<noteq> []))"
proof -
  define d' where "d' = (case ci_url rc of None \<Rightarrow> d | Some u \<Rightarrow> prefetch_capnp http u now d (map fst cs))"
  define all where "all = map (\<lambda>(c, msg). \<lparr> cr_id = c, cr_message = msg,
    cr_tests = filter_results (unwrap_or (commitdir_get_results C d' c) bt_empty) is_match \<rparr>) cs"
  define rs where "rs = pop_empty (collect_results (commit_depth rc) all 0 0 [])"
  have run: "branch_get_results C http G rp rc user branch commit is_match now d = (Inr rs, d')"
    unfolding branch_get_results_def Let_def rs_def all_def d'_def assms(4) by (simp only: assms(1-3) option.case)
  have len: "length all = length cs" "length cs \<le> commit_depth rc"
    using assms(4) by (simp_all add: all_def walk_commits_def)
  have at: "cr_id (all ! i) = fst (cs ! i)" "cr_message (all ! i) = snd (cs ! i)"
    "cr_tests (all ! i) = filter_results (unwrap_or (commitdir_get_results C d' (fst (cs ! i))) bt_empty) is_match"
    if "i < length cs" for i
    using that by (simp_all add: all_def split_beta)
  have ne: "cr_tests (all ! i) = [] \<longleftrightarrow> \<not> any_recorded C d' is_match (fst (cs ! i))" if "i < length cs" for i
    using at(3) [OF that] shown_Nil by simp
  obtain k where k: "k \<le> length cs" "rs = take k all" "k = 0 \<or> cr_tests (all ! (k - 1)) \<noteq> []"
    and gap: "\<forall>i. k \<le> i \<and> i < length cs \<and> cr_tests (all ! i) \<noteq> [] \<longrightarrow>
        (\<exists>j. k \<le> j \<and> j + 101 \<le> i \<and> (\<forall>t \<in> {j..<j + 101}. cr_tests (all ! t) = []))"
    and runs: "\<forall>j. j + 101 \<le> k \<longrightarrow> (\<exists>t \<in> {j..<j + 101}. cr_tests (all ! t) \<noteq> [])"
    using collected [of all "commit_depth rc"] len unfolding rs_def by auto
  have nth: "rs ! i = all ! i" if "i < k" for i using k(2) that by simp
  have lrs: "length rs = k" using k(1,2) len(1) by simp
  have "cr_tests (last rs) \<noteq> []" if "rs \<noteq> []"
    using that k(3) nth [of "k - 1"] lrs by (auto simp: last_conv_nth)
  moreover have "\<exists>j. length rs \<le> j \<and> j + 101 \<le> i \<and> (\<forall>t \<in> {j..<j + 101}. \<not> any_recorded C d' is_match (fst (cs ! t)))"
    if i: "length rs \<le> i" "i < length cs" "any_recorded C d' is_match (fst (cs ! i))" for i
  proof -
    obtain j where j: "k \<le> j" "j + 101 \<le> i" "\<forall>t \<in> {j..<j + 101}. cr_tests (all ! t) = []"
      using gap i ne lrs by blast
    then have "\<not> any_recorded C d' is_match (fst (cs ! t))" if "t \<in> {j..<j + 101}" for t
      using ne [of t] i(2) that by auto
    with j lrs show ?thesis by blast
  qed
  moreover have "\<exists>t \<in> {j..<j + 101}. cr_tests (rs ! t) \<noteq> []" if "j + 101 \<le> length rs" for j
    using runs that lrs nth by fastforce
  ultimately show ?thesis
    using run lrs k(1) len(2) at nth shown_get [of C d' _ is_match] by (intro exI [of _ rs] exI [of _ d']) auto
qed

section \<open>Properties\<close>

text \<open>C15: The results along a branch. When the branch (or commit) resolves and can be walked, \<open>branch_get_results\<close> answers with
  the commits of the walk in order, each with exactly the recorded results whose name matches. It never goes beyond the retention
  depth, ends with a commit that has matching results, and misses a commit with matching results only behind
  a run of 101 commits without any; it never reports past such a run.\<close>

theorem branch_get_results_correct:
  assumes "query_target user branch commit = Some rev_name" and "git_get_commit G rp rev_name = Some tip"
    and "walk G rp tip = Some ids" and "cs = walk_commits G rp (commit_depth rc) ids"
  shows "\<exists>rs d'. branch_get_results C http G rp rc user branch commit is_match now d = (Inr rs, d') \<and>
    length rs \<le> length cs \<and> length cs \<le> commit_depth rc \<and>
    (\<forall>i < length rs. cr_id (rs ! i) = fst (cs ! i) \<and> cr_message (rs ! i) = snd (cs ! i) \<and>
       (\<forall>k. bt_get (cr_tests (rs ! i)) k = (if is_match k then recorded C d' (fst (cs ! i)) k else None))) \<and>
    (rs \<noteq> [] \<longrightarrow> cr_tests (last rs) \<noteq> []) \<and>
    (\<forall>i. length rs \<le> i \<and> i < length cs \<and> any_recorded C d' is_match (fst (cs ! i)) \<longrightarrow>
       (\<exists>j. length rs \<le> j \<and> j + 101 \<le> i \<and> (\<forall>t \<in> {j..<j + 101}. \<not> any_recorded C d' is_match (fst (cs ! t))))) \<and>
    (\<forall>j. j + 101 \<le> length rs \<longrightarrow> (\<exists>t \<in> {j..<j + 101}. cr_tests (rs ! t) \<noteq> []))"
  by (rule branch_get_results_spec [OF assms])

definition sample_branch_disk :: disk where
  "sample_branch_disk =
     \<lparr> tree = Dir [(''c1.capnp'', File (write_message sample_capnp (results_message ''c1'' None
         [(''t.a'', \<lparr> status = Passed, starttime = 0, duration = 3 \<rparr>)])) 4)],
       fault = (\<lambda>_ _. False) \<rparr>"

lemma sample_branch_results:
  "commitdir_get_results sample_capnp sample_branch_disk ''c1'' =
     Some [(''t.a'', \<lparr> status = Passed, starttime = 0, duration = 3 \<rparr>)]"
proof -
  let ?m = "[(''t.a'', \<lparr> status = Passed, starttime = 0, duration = 3 \<rparr>)]"
  have "commit_read_capnp sample_branch_disk ''c1'' = Some (write_message sample_capnp (results_message ''c1'' None ?m))"
    by (simp add: commit_read_capnp_def sample_branch_disk_def read_file_def capnp_name_def)
  moreover have "bt_ok ?m" by (simp add: bt_ok_def)
  ultimately show ?thesis
    unfolding commitdir_get_results_def using parse_written [OF sample_capnp_ok, of ?m "''c1''" None]
    by (simp add: rendered_def)
qed

theorem branch_get_results_correct_witness:
  "\<exists>rs d'. branch_get_results sample_capnp (\<lambda>_ _. None) sample_git ''/linux'' sample_ktestrc (Some ''kent'') (Some ''master'')
     None (\<lambda>_. True) 0 sample_branch_disk = (Inr rs, d') \<and> length rs = 2"
proof -
  have cs: "walk_commits sample_git ''/linux'' (commit_depth sample_ktestrc) [Some ''c0'', None, Some ''c1''] =
      [(''c0'', ''msg''), (''c1'', ''msg'')]"
    by (simp add: walk_commits_def commit_depth_def sample_ktestrc_def sample_git_def map_filter_simps)
  obtain rs d' where run: "branch_get_results sample_capnp (\<lambda>_ _. None) sample_git ''/linux'' sample_ktestrc (Some ''kent'')
      (Some ''master'') None (\<lambda>_. True) 0 sample_branch_disk = (Inr rs, d')" and "length rs \<le> 2"
    and miss: "\<forall>i. length rs \<le> i \<and> i < 2 \<and> any_recorded sample_capnp d' (\<lambda>_. True)
        (fst ([(''c0'', ''msg''), (''c1'', ''msg'')] ! i)) \<longrightarrow> (\<exists>j. length rs \<le> j \<and> j + 101 \<le> i)"
    using branch_get_results_correct [of "Some ''kent''" "Some ''master''" None "''kent/master''" sample_git "''/linux''"
        "''c0''" "[Some ''c0'', None, Some ''c1'']" _ sample_ktestrc sample_capnp "\<lambda>_ _. None" "\<lambda>_. True" 0 sample_branch_disk,
        OF _ _ _ cs [symmetric]]
    by (auto simp: query_target_def git_get_commit_def sample_git_def)
  have "d' = sample_branch_disk"
    using run by (auto simp: branch_get_results_def Let_def sample_ktestrc_def split: option.splits)
  moreover have "any_recorded sample_capnp sample_branch_disk (\<lambda>_. True) ''c1''"
    by (auto simp: any_recorded_def recorded_def sample_branch_results)
  ultimately have "length rs = 2" using miss [rule_format, of 1] \<open>length rs \<le> 2\<close> by (cases "length rs \<le> 1") auto
  with run show ?thesis by blast
qed

text \<open>C34: Prefetching refreshes exactly what may be out of date. For a list of different commits, on a healthy disk, the
  five newest and those not cached yet have the file the server sent, if it sent one, and else the file they had; an
  older commit that is cached keeps its file without being asked for; and nothing else on disk changes.\<close>

theorem prefetch_capnp_correct:
  assumes "healthy d" and "distinct ids" and "d' = prefetch_capnp http base_url now d ids"
  shows "(\<forall>i < length ids. read_file d' (capnp_name (ids ! i)) =
      (if i < 5 \<or> \<not> path_exists d (capnp_name (ids ! i)) then refreshed http base_url now d (ids ! i)
       else read_file d (capnp_name (ids ! i)))) \<and>
    (\<forall>q. q \<noteq> [] \<and> [hd q] \<notin> capnp_name ` set ids \<longrightarrow> node_at (tree d') q = node_at (tree d) q)"
proof (intro conjI allI impI)
  note all = fetch_all [OF healthy_writable [OF assms(1)] distinct_to_fetch [OF assms(2)], of d http base_url now,
      folded prefetch_capnp_def assms(3)]
  show "read_file d' (capnp_name (ids ! i)) =
      (if i < 5 \<or> \<not> path_exists d (capnp_name (ids ! i)) then refreshed http base_url now d (ids ! i)
       else read_file d (capnp_name (ids ! i)))" if i: "i < length ids" for i
  proof (cases "i < 5 \<or> \<not> path_exists d (capnp_name (ids ! i))")
    case True
    then have "ids ! i \<in> set (to_fetch d ids)" using i by (auto simp: set_to_fetch n_fresh_def)
    then show ?thesis using all True by simp
  next
    case False
    then have "ids ! i \<notin> set (to_fetch d ids)"
      using i assms(2) by (auto simp: set_to_fetch n_fresh_def nth_eq_iff_index_eq)
    then have "[hd (capnp_name (ids ! i))] \<notin> capnp_name ` set (to_fetch d ids)" by (auto simp: capnp_name_def)
    then have "node_at (tree d') (capnp_name (ids ! i)) = node_at (tree d) (capnp_name (ids ! i))"
      using all by (simp add: capnp_name_def)
    then show ?thesis using False by (simp add: read_file_def)
  qed
  show "node_at (tree d') q = node_at (tree d) q" if "q \<noteq> [] \<and> [hd q] \<notin> capnp_name ` set ids" for q
    using all that by (auto simp: set_to_fetch)
qed

theorem prefetch_capnp_correct_witness:
  "read_file (prefetch_capnp (\<lambda>url mt. if mt = Some 9 then Some (304, []) else Some (200, ''new'')) ''http://ci/'' 50
     \<lparr> tree = Dir [(''a.capnp'', File ''old'' 9)], fault = (\<lambda>_ _. False) \<rparr> [''a'', ''b'']) [''a.capnp''] = Some (''old'', 9) \<and>
   read_file (prefetch_capnp (\<lambda>url mt. if mt = Some 9 then Some (304, []) else Some (200, ''new'')) ''http://ci/'' 50
     \<lparr> tree = Dir [(''a.capnp'', File ''old'' 9)], fault = (\<lambda>_ _. False) \<rparr> [''a'', ''b'']) [''b.capnp''] = Some (''new'', 50)"
proof -
  let ?d = "\<lparr> tree = Dir [(''a.capnp'', File ''old'' 9)], fault = (\<lambda>_ _. False) \<rparr>"
    and ?http = "\<lambda>url mt. if mt = Some 9 then Some (304, []) else Some (200, ''new'')"
  have "healthy ?d" by (auto simp: healthy_def no_faults_def is_dir_def split: if_splits)
  from prefetch_capnp_correct [OF this, of "[''a'', ''b'']", OF _ HOL.refl, of ?http "''http://ci/''" 50, THEN conjunct1]
  have "read_file (prefetch_capnp ?http ''http://ci/'' 50 ?d [''a'', ''b'']) (capnp_name ([''a'', ''b''] ! i)) =
      refreshed ?http ''http://ci/'' 50 ?d ([''a'', ''b''] ! i)" if "i < 2" for i
    using that by simp
  from this [of 0] this [of 1] show ?thesis
    by (simp add: refreshed_def read_file_def capnp_name_def)
qed

text \<open>One entry of the roll-up: the six counts one by one, and the sum of the durations.\<close>

definition rolls_up :: "CommitResults \<Rightarrow> BranchEntry \<Rightarrow> bool" where
  "rolls_up r e \<longleftrightarrow>
     be_commit_id e = cr_id r \<and> be_message e = cr_message r \<and>
     unat (be_passed e) = length (filter (\<lambda>x. status (snd x) = Passed) (cr_tests r)) \<and>
     unat (be_failed e) = length (filter (\<lambda>x. status (snd x) = Failed) (cr_tests r)) \<and>
     unat (be_notrun e) = length (filter (\<lambda>x. status (snd x) = Notrun) (cr_tests r)) \<and>
     unat (be_failed_to_run e) = length (filter (\<lambda>x. status (snd x) = FailedToRun) (cr_tests r)) \<and>
     unat (be_inprogress e) = length (filter (\<lambda>x. status (snd x) = Inprogress) (cr_tests r)) \<and>
     unat (be_unknown e) = length (filter (\<lambda>x. status (snd x) = Unknown) (cr_tests r)) \<and>
     unat (be_duration e) = sum_list (map (\<lambda>x. unat (duration (snd x))) (cr_tests r)) mod 2 ^ 64"

lemma unat_sum_list: "unat (sum_list ws :: u64) = sum_list (map unat ws) mod 2 ^ 64"
proof (induction ws)
  case (Cons w ws)
  have "unat (w + sum_list ws) = (unat w + unat (sum_list ws)) mod 2 ^ 64" by (simp add: unat_word_ariths)
  also have "\<dots> = (unat w + sum_list (map unat ws)) mod 2 ^ 64" unfolding Cons.IH by (rule mod_add_right_eq)
  finally show ?case by simp
qed simp

text \<open>C29: The branch log is the roll-up the JSON view has: \<open>generate_branch_log\<close> and \<open>branch_entries\<close> of \<open>branch_get_results\<close>
  agree. There is one entry for each commit with results, in order; for fewer than \<open>2 ^ 32\<close> results per commit, its passed,
  failed, not run, failed to run, in progress and unknown counts are each the number of results of the commit with that
  status, together the number of its results, and its duration is the sum of theirs modulo \<open>2 ^ 64\<close>.\<close>

theorem branch_log_rolls_up:
  assumes "branch_get_results C http G rp rc (Some user) (Some branch) None (\<lambda>_. True) now d = (Inr rs, d')"
    and "\<forall>r \<in> set rs. length (cr_tests r) < 2 ^ 32"
  shows "\<exists>es. generate_branch_log C http G rp rc user branch now d = (Inr es, d') \<and> es = branch_entries rs \<and>
    list_all2 rolls_up (filter (\<lambda>r. cr_tests r \<noteq> []) rs) es \<and>
    list_all2 (\<lambda>r e. unat (be_passed e) + unat (be_failed e) + unat (be_notrun e) + unat (be_failed_to_run e) +
         unat (be_inprogress e) + unat (be_unknown e) = length (cr_tests r)) (filter (\<lambda>r. cr_tests r \<noteq> []) rs) es"
proof -
  have run: "generate_branch_log C http G rp rc user branch now d = (Inr (branch_entries rs), d')"
    using assms(1) by (simp add: generate_branch_log_entries)
  have each: "list_all2 rolls_up (filter (\<lambda>r. cr_tests r \<noteq> []) rs) (branch_entries rs)"
    using assms(2) unat_sum_list
    by (auto simp: branch_entries_def list_all2_map2 list_all2_same rolls_up_def count_status_unat comp_def)
  have "list_all2 (\<lambda>r e. unat (be_passed e) + unat (be_failed e) + unat (be_notrun e) + unat (be_failed_to_run e) +
      unat (be_inprogress e) + unat (be_unknown e) = length (cr_tests r)) (filter (\<lambda>r. cr_tests r \<noteq> []) rs) (branch_entries rs)"
    by (rule list_all2_mono [OF each]) (use count_statuses in \<open>simp add: rolls_up_def\<close>)
  with run each show ?thesis by simp
qed

text \<open>A commit with two passed results, and one of every other kind.\<close>

definition sample_mixed :: TestResultsMap where
  "sample_mixed =
     [(''t.a'', \<lparr> status = Passed, starttime = 0, duration = 3 \<rparr>), (''t.b'', \<lparr> status = Passed, starttime = 0, duration = 4 \<rparr>),
      (''t.c'', \<lparr> status = Failed, starttime = 0, duration = 5 \<rparr>), (''t.d'', \<lparr> status = Notrun, starttime = 0, duration = 0 \<rparr>),
      (''t.e'', \<lparr> status = FailedToRun, starttime = 0, duration = 0 \<rparr>), (''t.f'', \<lparr> status = Inprogress, starttime = 0, duration = 0 \<rparr>),
      (''t.g'', \<lparr> status = Unknown, starttime = 0, duration = 0 \<rparr>)]"

definition sample_mixed_disk :: disk where
  "sample_mixed_disk =
     \<lparr> tree = Dir [(''c0.capnp'', File (write_message sample_capnp (results_message ''c0'' None sample_mixed)) 4)],
       fault = (\<lambda>_ _. False) \<rparr>"

lemma sample_mixed_ok: "bt_ok sample_mixed" "rendered sample_mixed = sample_mixed"
  by (simp_all add: sample_mixed_def bt_ok_def rendered_def)

lemma sample_mixed_query:
  "branch_get_results sample_capnp (\<lambda>_ _. None) sample_git ''/linux'' sample_ktestrc (Some ''kent'') (Some ''master'')
     None (\<lambda>_. True) 0 sample_mixed_disk =
   (Inr [\<lparr> cr_id = ''c0'', cr_message = ''msg'', cr_tests = sample_mixed \<rparr>], sample_mixed_disk)"
proof -
  have "commit_read_capnp sample_mixed_disk ''c0'' = Some (write_message sample_capnp (results_message ''c0'' None sample_mixed))"
    by (simp add: commit_read_capnp_def sample_mixed_disk_def read_file_def capnp_name_def)
  then have c0: "commitdir_get_results sample_capnp sample_mixed_disk ''c0'' = Some sample_mixed"
    unfolding commitdir_get_results_def
    using parse_written [OF sample_capnp_ok sample_mixed_ok(1), of "''c0''" None] sample_mixed_ok(2) by simp
  have c1: "commitdir_get_results sample_capnp sample_mixed_disk ''c1'' = None"
    by (simp add: commitdir_get_results_def commit_read_capnp_def read_file_def capnp_name_def sample_mixed_disk_def)
  have shown: "filter_results sample_mixed (\<lambda>_. True) = sample_mixed"
    using sample_mixed_ok(1) by (simp add: filter_results_def bt_collect_id)
  have ne: "sample_mixed \<noteq> []" by (simp add: sample_mixed_def)
  have "walk_commits sample_git ''/linux'' (commit_depth sample_ktestrc) [Some ''c0'', None, Some ''c1''] =
      [(''c0'', ''msg''), (''c1'', ''msg'')]" "ci_url sample_ktestrc = None" "commit_depth sample_ktestrc = 500"
    by (simp_all add: walk_commits_def commit_depth_def sample_ktestrc_def sample_git_def map_filter_simps)
  moreover have "git_get_commit sample_git rp x = Some ''c0''" "walk sample_git rp ''c0'' = Some [Some ''c0'', None, Some ''c1'']" for rp x
    by (simp_all add: git_get_commit_def sample_git_def)
  ultimately show ?thesis
    using ne c0 c1 shown
    by (simp add: branch_get_results_def query_target_def pop_empty_def) (simp add: filter_results_def bt_collect_def bt_extend_def)
qed

theorem branch_log_rolls_up_witness:
  "\<exists>e. fst (generate_branch_log sample_capnp (\<lambda>_ _. None) sample_git ''/linux'' sample_ktestrc ''kent'' ''master'' 0
      sample_mixed_disk) = Inr [e] \<and> be_commit_id e = ''c0'' \<and> unat (be_passed e) = 2 \<and> unat (be_failed e) = 1 \<and>
    unat (be_notrun e) = 1 \<and> unat (be_failed_to_run e) = 1 \<and> unat (be_inprogress e) = 1 \<and> unat (be_unknown e) = 1 \<and>
    unat (be_duration e) = 12"
proof -
  have "\<forall>r \<in> set [\<lparr> cr_id = ''c0'', cr_message = ''msg'', cr_tests = sample_mixed \<rparr>]. length (cr_tests r) < 2 ^ 32"
    and ne: "sample_mixed \<noteq> []"
    by (simp_all add: sample_mixed_def)
  from branch_log_rolls_up [OF sample_mixed_query this(1)] obtain es
    where gen: "generate_branch_log sample_capnp (\<lambda>_ _. None) sample_git ''/linux'' sample_ktestrc ''kent'' ''master'' 0
        sample_mixed_disk = (Inr es, sample_mixed_disk)"
      and all: "list_all2 rolls_up (filter (\<lambda>r. cr_tests r \<noteq> []) [\<lparr> cr_id = ''c0'', cr_message = ''msg'', cr_tests = sample_mixed \<rparr>]) es"
    by blast
  from all ne obtain e where es: "es = [e]"
    and e: "rolls_up \<lparr> cr_id = ''c0'', cr_message = ''msg'', cr_tests = sample_mixed \<rparr> e"
    by (simp add: list_all2_Cons1) blast
  from e have "be_commit_id e = ''c0'' \<and> unat (be_passed e) = 2 \<and> unat (be_failed e) = 1 \<and> unat (be_notrun e) = 1 \<and>
      unat (be_failed_to_run e) = 1 \<and> unat (be_inprogress e) = 1 \<and> unat (be_unknown e) = 1 \<and> unat (be_duration e) = 12"
    by (simp add: rolls_up_def sample_mixed_def)
  then show ?thesis using gen es by simp
qed

text \<open>C30: The branch log round trip. On a healthy disk, for a user and a branch whose names have no slash,
  \<open>write_branch_log\<close> succeeds and \<open>branchlog_get\<close> then reads back every field of every entry; the strings of the entries
  are UTF-8, as every Rust string is, so reading does not panic. Of the serialiser only that it reads the messages it
  wrote is assumed. A message with a text that is not UTF-8 makes the reader panic.\<close>

theorem branch_log_roundtrip:
  assumes "branchlog_ok B" and "healthy d" and "CHR ''/'' \<notin> set user" and "CHR ''/'' \<notin> set branch"
    and "\<forall>e \<in> set es. is_utf8 (be_commit_id e) \<and> is_utf8 (be_message e)"
  shows "(\<exists>d'. write_branch_log B d now user branch es = (True, d') \<and> branchlog_get B d' user branch = Inr es) \<and>
    (\<forall>m. (\<exists>e \<in> set m. log_text (le_commit_id e) = None \<or> log_text (le_message e) = None) \<longrightarrow>
       branchlog_parse B (write_log B m) = Inl LogPanicked)"
proof (intro conjI allI impI)
  let ?a = "''branch.'' @ user @ ''.'' @ branch @ ''.capnp''"
    and ?b = "''branch.'' @ user @ ''.'' @ branch @ ''.capnp.new''" and ?m = "branch_log_message es"
  have "\<not> is_dir d [?a]" "\<not> is_dir d [?b]" "?a \<noteq> ?b" "no_faults d" "is_dir d []"
    using assms(2) by (auto simp: healthy_def)
  from replace_top [OF this(4,5,1,2,3), of now "write_log B ?m"]
  obtain d1 d2 d3 where run: "create_file d now [?b] = Some d1" "fill_file d1 now [?b] (write_log B ?m) = (True, d2)"
    "rename_file d2 [?b] [?a] = (True, d3)"
    by blast
  have "read_file d3 [?a] = Some (write_log B ?m, now)"
    using rename_file_at [OF run(3)] fill_file_at [OF run(2)] by (simp add: read_file_def)
  then have "branchlog_get B d3 user branch = Inr es"
    using assms(1) collect_log_message [OF assms(5)]
    by (simp add: branchlog_get_def branchlog_top [OF assms(3,4)] branchlog_parse_def branchlog_ok_def)
  moreover have "write_branch_log B d now user branch es = (True, d3)"
    unfolding write_branch_log_def Let_def branchlog_top [OF assms(3,4)] run by (simp only: option.case prod.case bool.case run)
  ultimately show "\<exists>d'. write_branch_log B d now user branch es = (True, d') \<and> branchlog_get B d' user branch = Inr es"
    by blast
  show "branchlog_parse B (write_log B m) = Inl LogPanicked"
    if "\<exists>e \<in> set m. log_text (le_commit_id e) = None \<or> log_text (le_message e) = None" for m
    using collect_log_bad [OF that] assms(1) by (simp add: branchlog_parse_def branchlog_ok_def)
qed

theorem branch_log_roundtrip_witness:
  "\<exists>d'. write_branch_log sample_branchlog sample_branch_disk 5 ''kent'' ''master''
      [\<lparr> be_commit_id = ''c0'', be_message = ''m'', be_passed = 3, be_failed = 1, be_notrun = 0, be_failed_to_run = 0,
         be_inprogress = 2, be_unknown = 0, be_duration = 77 \<rparr>] = (True, d') \<and>
    branchlog_get sample_branchlog d' ''kent'' ''master'' =
      Inr [\<lparr> be_commit_id = ''c0'', be_message = ''m'', be_passed = 3, be_failed = 1, be_notrun = 0, be_failed_to_run = 0,
         be_inprogress = 2, be_unknown = 0, be_duration = 77 \<rparr>]"
proof -
  have "healthy sample_branch_disk"
    by (auto simp: sample_branch_disk_def healthy_def no_faults_def is_dir_def split: if_splits)
  from branch_log_roundtrip [OF sample_branchlog_ok this, of "''kent''" "''master''"
      "[\<lparr> be_commit_id = ''c0'', be_message = ''m'', be_passed = 3, be_failed = 1, be_notrun = 0, be_failed_to_run = 0,
         be_inprogress = 2, be_unknown = 0, be_duration = 77 \<rparr>]" 5]
  show ?thesis by (simp add: Let_def)
qed

text \<open>The last good commit. Let \<open>k\<close> be the number of newest commits in which the test is recorded as failed.
  The line is \<open>k\<close> when commit \<open>k\<close> records it as passed, so the test broke after that commit; when commit \<open>k\<close> is missing, has no
  result for the test or an inconclusive one, the line is only the bound \<open>>= k\<close>.\<close>

theorem last_good_line_correct:
  "let k = failed_run rs test in
     (\<forall>i < k. i < length rs \<and> map_option status (bt_get (cr_tests (rs ! i)) test) = Some Failed) \<and>
     (k < length rs \<longrightarrow> map_option status (bt_get (cr_tests (rs ! k)) test) \<noteq> Some Failed) \<and>
     last_good_line rs test =
       (if k < length rs \<and> map_option status (bt_get (cr_tests (rs ! k)) test) = Some Passed then show_nat k
        else ''>= '' @ show_nat k)"
proof -
  define P where "P r \<longleftrightarrow> map_option status (bt_get (cr_tests r) test) = Some Failed" for r :: CommitResults
  have k: "failed_run rs test = length (takeWhile P rs)" by (simp add: failed_run_def P_def [abs_def])
  have "i < length rs \<and> P (rs ! i)" if "i < length (takeWhile P rs)" for i
    using that takeWhile_nth [OF that] nth_mem [OF that] length_takeWhile_le [of P rs]
    by (metis order_less_le_trans set_takeWhileD)
  moreover have "\<not> P (rs ! length (takeWhile P rs))" if "length (takeWhile P rs) < length rs"
    by (rule nth_length_takeWhile [OF that])
  moreover note last_good_from_run [of 0 rs test]
  ultimately show ?thesis
    unfolding Let_def last_good_line_def k P_def add_0 by blast
qed

theorem last_good_line_correct_witness:
  "last_good_line
     [\<lparr> cr_id = ''c0'', cr_message = [], cr_tests = [(''t'', \<lparr> status = Failed, starttime = 0, duration = 1 \<rparr>)] \<rparr>,
      \<lparr> cr_id = ''c1'', cr_message = [], cr_tests = [(''t'', \<lparr> status = Passed, starttime = 0, duration = 1 \<rparr>)] \<rparr>] ''t'' = ''1''"
proof -
  have "show_nat (Suc 0) = ''1''" by code_simp
  then show ?thesis
    using last_good_line_correct [of
     "[\<lparr> cr_id = ''c0'', cr_message = [], cr_tests = [(''t'', \<lparr> status = Failed, starttime = 0, duration = 1 \<rparr>)] \<rparr>,
      \<lparr> cr_id = ''c1'', cr_message = [], cr_tests = [(''t'', \<lparr> status = Passed, starttime = 0, duration = 1 \<rparr>)] \<rparr>]" "''t''"]
    by (simp add: failed_run_def)
qed

end
