(* ===== verification/Page.thy ===== *)
theory Page
  imports Branch_Query
begin

text \<open>
  Text the two front ends produce (\<open>src/bin/cgi.rs\<close>, \<open>src/bin/ci-status.rs\<close>), as a list of pieces: strings,
  floating-point numbers printed with one decimal (kept as the quotient they print), and the
  static style sheets and scripts of the pages (kept by name). Strings are their UTF-8 bytes; a slice
  that would cut a character is a panic. \<open>format_duration\<close> is in \<open>src/lib.rs\<close>, the wire types in \<open>src/api.rs\<close>.
\<close>

section \<open>Strings as bytes\<close>

definition char_count :: "string \<Rightarrow> nat" where
  "char_count s = length (filter (\<lambda>c. \<not> is_continuation c) s)"

text \<open>\<open>{:<w}\<close> and \<open>{:>w}\<close>.\<close>

definition pad_right :: "nat \<Rightarrow> string \<Rightarrow> string" where
  "pad_right w s = s @ replicate (w - char_count s) CHR '' ''"

definition pad_left :: "nat \<Rightarrow> string \<Rightarrow> string" where
  "pad_left w s = replicate (w - char_count s) CHR '' '' @ s"

text \<open>\<open>s.lines().next().unwrap_or("")\<close>, and the text before the first newline.\<close>

definition before_newline :: "string \<Rightarrow> string" where
  "before_newline s = takeWhile (\<lambda>c. c \<noteq> CHR 0x0A) s"

definition first_line :: "string \<Rightarrow> string" where
  "first_line s =
     (let l = before_newline s
      in if length l < length s \<and> l \<noteq> [] \<and> last l = CHR 0x0D then butlast l else l)"

text \<open>\<open>{}\<close> of a signed number.\<close>

definition show_int :: "int \<Rightarrow> string" where
  "show_int i = (if i < 0 then ''-'' @ show_nat (nat (- i)) else show_nat (nat i))"

section \<open>Pieces\<close>

datatype asset = CommitCssJs | CommitFilter | StatusCss | StatusBody | StatusJs

text \<open>\<open>PadLeft w ps\<close> is the text of \<open>ps\<close> in \<open>{:>w}\<close>.\<close>

datatype piece = Str string | Fixed1 nat nat | Asset asset | PadLeft nat "piece list"

definition writeln :: "piece list \<Rightarrow> piece list" where
  "writeln ps = ps @ [Str [CHR 0x0A]]"

definition format_duration :: "u64 \<Rightarrow> piece list" where
  "format_duration n =
     (if n < 60 then [Str (show_nat (unat n) @ ''s'')]
      else if n < 3600 then [Str (show_nat (unat (n div 60)) @ ''m'')]
      else if n < 86400 then [Fixed1 (unat n) 3600, Str ''h'']
      else [Fixed1 (unat n) 86400, Str ''d''])"

section \<open>Wire types\<close>

record TestEntry =
  te_name :: string
  te_status :: string
  te_duration :: u64

record CommitTests =
  ct_commit :: string
  ct_message :: string
  ct_tests :: "TestEntry list"

record UserBranches =
  ub_user :: string
  ub_branches :: "string list"

datatype json =
    JEntries "BranchEntry list"
  | JCommit CommitTests
  | JUser UserBranches
  | JUsers "UserBranches list"
  | JError string
  | JBranches "(string \<times> string \<times> string list) list"

definition test_entry :: "string \<times> TestResult \<Rightarrow> TestEntry" where
  "test_entry nt =
     \<lparr> te_name = fst nt, te_status = to_str (status (snd nt)), te_duration = duration (snd nt) \<rparr>"

text \<open>\<open>serde_json\<close>: writing a value, and reading one at each type. What the sources rely on: a value that was
  written reads back at its type, and the text of a value does not begin with \<open><\<close>.\<close>

record serde =
  to_json :: "json \<Rightarrow> bytes"
  from_entries :: "bytes \<Rightarrow> BranchEntry list option"
  from_commit :: "bytes \<Rightarrow> CommitTests option"
  from_user :: "bytes \<Rightarrow> UserBranches option"
  from_error :: "bytes \<Rightarrow> string option"

definition serde_ok :: "serde \<Rightarrow> bool" where
  "serde_ok J \<longleftrightarrow>
     (\<forall>es. from_entries J (to_json J (JEntries es)) = Some es) \<and>
     (\<forall>c. from_commit J (to_json J (JCommit c)) = Some c) \<and>
     (\<forall>u. from_user J (to_json J (JUser u)) = Some u) \<and>
     (\<forall>e. from_error J (to_json J (JError e)) = Some e) \<and>
     (\<forall>j. \<not> starts_with (to_json J j) ''<'')"

end
