(* ===== verification/Lcov.thy ===== *)
theory Lcov
  imports Job_Matrix
begin

text \<open>
  Merging code coverage (\<open>update_lcov\<close> in \<open>src/lib.rs\<close>, \<open>src/bin/update-lcov.rs\<close>). The commands it runs (\<open>lcov\<close>, \<open>git\<close>,
  \<open>genhtml\<close>) are the parameter \<open>tool\<close>: for a program, its directory and its arguments whether it
  succeeded (\<open>None\<close> when it could not be executed, which is a panic) and the disk it leaves. Whether the
  lock file can be locked is the parameter \<open>lock\<close>.
\<close>

type_synonym tool = "string \<Rightarrow> string \<Rightarrow> string list \<Rightarrow> disk \<Rightarrow> bool option \<times> disk"

text \<open>\<open>Some(())\<close>, \<open>None\<close> and a panic.\<close>

datatype lcov_outcome = Updated | GaveUp | LcovPanic

definition partial_names :: "string list \<Rightarrow> string list" where
  "partial_names names = filter (\<lambda>n. starts_with n ''lcov.partial.'') names"

definition lcov_args :: "disk \<Rightarrow> string \<Rightarrow> string list \<Rightarrow> string list" where
  "lcov_args d commit new_lcov =
     concat (map (\<lambda>n. [''--add-tracefile'', n]) new_lcov) @
     (if path_exists d [commit, ''lcov.info''] then [''--add-tracefile'', ''lcov.info''] else [])"

text \<open>From the checkout to the end.\<close>

definition lcov_html :: "tool \<Rightarrow> Ktestrc \<Rightarrow> string \<Rightarrow> disk \<Rightarrow> lcov_outcome \<times> disk" where
  "lcov_html tool rc commit d =
     (case tool ''git'' ''/home/testdashboard/linux-1'' [''checkout'', ''-f'', commit] d of
        (None, d) \<Rightarrow> (LcovPanic, d)
      | (Some False, d) \<Rightarrow> (Updated, d)
      | (Some True, d) \<Rightarrow>
          (let dir = path_join (output_dir rc) commit
           in case tool ''genhtml'' ''/home/testdashboard/linux-1''
                     [''--output-directory'', path_join dir ''lcov'', path_join dir ''lcov.info''] d of
                (None, d) \<Rightarrow> (LcovPanic, d)
              | (Some _, d) \<Rightarrow> (Updated, d)))"

definition update_lcov :: "tool \<Rightarrow> bool \<Rightarrow> Ktestrc \<Rightarrow> string \<Rightarrow> disk \<Rightarrow> lcov_outcome \<times> disk" where
  "update_lcov tool lock rc commit d =
     (case remove_file d [commit, ''lcov-stale''] of
        (False, d) \<Rightarrow> (Updated, d)
      | (True, d) \<Rightarrow>
          if \<not> lock then (GaveUp, d)
          else
            (case read_dir d [commit] of
               None \<Rightarrow> (GaveUp, d)
             | Some names \<Rightarrow>
                 (let new_lcov = partial_names names
                  in case tool ''lcov'' (path_join (output_dir rc) commit)
                            ([''--quiet'', ''--output-file'', ''lcov.info.new''] @ lcov_args d commit new_lcov) d of
                       (None, d) \<Rightarrow> (LcovPanic, d)
                     | (Some False, d) \<Rightarrow> (Updated, d)
                     | (Some True, d) \<Rightarrow>
                         (case rename_file d [commit, ''lcov.info.new''] [commit, ''lcov.info''] of
                            (False, d) \<Rightarrow> (GaveUp, d)
                          | (True, d) \<Rightarrow>
                              lcov_html tool rc commit
                                (fold (\<lambda>n d. snd (remove_file d [commit, n])) new_lcov d)))))"

definition update_lcov_main :: "tool \<Rightarrow> bool \<Rightarrow> rc_error + Ktestrc \<Rightarrow> string \<Rightarrow> disk \<Rightarrow> nat \<times> disk" where
  "update_lcov_main tool lock ktestrc commit d =
     (case ktestrc of
        Inl _ \<Rightarrow> (1, d)
      | Inr rc \<Rightarrow>
          (case update_lcov tool lock rc commit d of
             (LcovPanic, d) \<Rightarrow> (101, d)
           | (_, d) \<Rightarrow> (0, d)))"

section \<open>Lemmas\<close>

text \<open>The lines a trace file covers, by its contents, are the parameter \<open>cov\<close>. What a commit's directory covers is what
  \<open>lcov.info\<close> and the partial trace files in it cover.\<close>

definition trace_name :: "string \<Rightarrow> bool" where
  "trace_name n \<longleftrightarrow> n = ''lcov.info'' \<or> starts_with n ''lcov.partial.''"

definition covered :: "(bytes \<Rightarrow> 'l set) \<Rightarrow> string \<Rightarrow> disk \<Rightarrow> 'l set" where
  "covered cov commit d =
     {l. \<exists>n b t. trace_name n \<and> node_at (tree d) [commit, n] = Some (File b t) \<and> l \<in> cov b}"

text \<open>There is something to merge, and every trace file is a regular file.\<close>

definition traces_ready :: "string \<Rightarrow> disk \<Rightarrow> bool" where
  "traces_ready commit d \<longleftrightarrow>
     (\<exists>n. trace_name n \<and> node_at (tree d) [commit, n] \<noteq> None) \<and>
     (\<forall>n x. trace_name n \<longrightarrow> node_at (tree d) [commit, n] = Some x \<longrightarrow> (\<exists>b t. x = File b t))"

text \<open>What is relied on of the three commands, called in the directories and with the arguments \<open>update_lcov\<close> uses.
  \<open>lcov --output-file lcov.info.new\<close>, run in the directory of the commit, writes that file only, does not change
  what the system refuses, and when it succeeds the file covers what the files given with \<open>--add-tracefile\<close> cover.
  \<open>git checkout\<close> in the source tree leaves the directory of the commit alone, and \<open>genhtml\<close> writes only below its
  output directory.\<close>

definition merge_args :: "string list \<Rightarrow> string list" where
  "merge_args fs = [''--quiet'', ''--output-file'', ''lcov.info.new''] @ concat (map (\<lambda>n. [''--add-tracefile'', n]) fs)"

definition lcov_merges :: "tool \<Rightarrow> (bytes \<Rightarrow> 'l set) \<Rightarrow> string \<Rightarrow> string \<Rightarrow> bool" where
  "lcov_merges tool cov dir commit \<longleftrightarrow>
     (\<forall>fs d r d'. tool ''lcov'' dir (merge_args fs) d = (r, d') \<longrightarrow>
        fault d' = fault d \<and>
        (\<forall>n. n \<noteq> ''lcov.info.new'' \<longrightarrow> node_at (tree d') [commit, n] = node_at (tree d) [commit, n]) \<and>
        (r = Some True \<longrightarrow>
           (\<exists>b t. node_at (tree d') [commit, ''lcov.info.new''] = Some (File b t) \<and>
              (\<forall>n \<in> set fs. \<forall>b' t'. node_at (tree d) [commit, n] = Some (File b' t') \<longrightarrow> cov b' \<subseteq> cov b))))"

text \<open>Where nothing is in its way, \<open>lcov\<close> merges one or more existing files.\<close>

definition lcov_succeeds :: "tool \<Rightarrow> string \<Rightarrow> string \<Rightarrow> bool" where
  "lcov_succeeds tool dir commit \<longleftrightarrow>
     (\<forall>fs d r d'. fs \<noteq> [] \<and> no_faults d \<and> (\<forall>n \<in> set fs. \<exists>b t. node_at (tree d) [commit, n] = Some (File b t)) \<and>
        tool ''lcov'' dir (merge_args fs) d = (r, d') \<longrightarrow> r = Some True)"

definition html_confined :: "tool \<Rightarrow> string \<Rightarrow> string \<Rightarrow> bool" where
  "html_confined tool dir commit \<longleftrightarrow>
     (\<forall>d r d' n. tool ''git'' ''/home/testdashboard/linux-1'' [''checkout'', ''-f'', commit] d = (r, d') \<longrightarrow>
        node_at (tree d') [commit, n] = node_at (tree d) [commit, n]) \<and>
     (\<forall>d r d' n. n \<noteq> ''lcov'' \<longrightarrow>
        tool ''genhtml'' ''/home/testdashboard/linux-1''
          [''--output-directory'', path_join dir ''lcov'', path_join dir ''lcov.info''] d = (r, d') \<longrightarrow>
        node_at (tree d') [commit, n] = node_at (tree d) [commit, n])"

lemma lcov_mergesD:
  assumes "lcov_merges tool cov dir commit" and "tool ''lcov'' dir (merge_args fs) d = (r, d')"
  shows "fault d' = fault d"
    and "n \<noteq> ''lcov.info.new'' \<Longrightarrow> node_at (tree d') [commit, n] = node_at (tree d) [commit, n]"
    and "r = Some True \<Longrightarrow> \<exists>b t. node_at (tree d') [commit, ''lcov.info.new''] = Some (File b t) \<and>
      (\<forall>n \<in> set fs. \<forall>b' t'. node_at (tree d) [commit, n] = Some (File b' t') \<longrightarrow> cov b' \<subseteq> cov b)"
  using assms unfolding lcov_merges_def by blast+

lemma partial_not: "starts_with n ''lcov.partial.'' \<Longrightarrow> n \<notin> {''lcov-stale'', ''lcov.info'', ''lcov.info.new'', ''lcov''}"
  by (auto simp: prefix_def)

lemma trace_not: "trace_name n \<Longrightarrow> n \<notin> {''lcov-stale'', ''lcov.info.new'', ''lcov''}"
  using partial_not by (auto simp: trace_name_def)

lemma remove_file_sibling:
  "n \<noteq> m \<Longrightarrow> node_at (tree (snd (remove_file d [c, m]))) [c, n] = node_at (tree d) [c, n]"
  by (rule puts_frame [OF puts_remove_file [of "[c, m]" "{[c, m]}"]]) auto

lemma remove_files_sibling:
  "n \<notin> set ms \<Longrightarrow> node_at (tree (fold (\<lambda>m d. snd (remove_file d [c, m])) ms d)) [c, n] = node_at (tree d) [c, n]"
proof (induction ms arbitrary: d)
  case (Cons m ms)
  then show ?case using remove_file_sibling [of n m d c] by simp
qed simp

lemma lcov_html_keeps:
  assumes "html_confined tool (path_join (output_dir rc) commit) commit"
    and "lcov_html tool rc commit d = (out, d')" and "n \<noteq> ''lcov''"
  shows "node_at (tree d') [commit, n] = node_at (tree d) [commit, n]"
proof -
  let ?git = "tool ''git'' ''/home/testdashboard/linux-1'' [''checkout'', ''-f'', commit] d"
  obtain r1 d1 where g: "?git = (r1, d1)" by fastforce
  then have n1: "node_at (tree d1) [commit, n] = node_at (tree d) [commit, n]"
    using assms(1) unfolding html_confined_def by blast
  let ?gen = "tool ''genhtml'' ''/home/testdashboard/linux-1''
    [''--output-directory'', path_join (path_join (output_dir rc) commit) ''lcov'',
     path_join (path_join (output_dir rc) commit) ''lcov.info''] d1"
  obtain r2 d2 where h: "?gen = (r2, d2)" by fastforce
  then have n2: "node_at (tree d2) [commit, n] = node_at (tree d1) [commit, n]"
    using assms(1,3) unfolding html_confined_def by blast
  have "d' = d1 \<or> d' = d2"
    using assms(2) g h by (auto simp: lcov_html_def Let_def split: option.splits bool.splits)
  then show ?thesis using n1 n2 by auto
qed

lemma covered_mono:
  assumes "\<And>n b t. trace_name n \<Longrightarrow> node_at (tree d) [commit, n] = Some (File b t) \<Longrightarrow>
    \<exists>n' b' t'. trace_name n' \<and> node_at (tree d') [commit, n'] = Some (File b' t') \<and> cov b \<subseteq> cov b'"
  shows "covered cov commit d \<subseteq> covered cov commit d'"
  using assms unfolding covered_def by blast

text \<open>The files \<open>lcov\<close> is given are all the trace files of the directory.\<close>

definition merge_files :: "disk \<Rightarrow> string \<Rightarrow> string list \<Rightarrow> string list" where
  "merge_files d commit names =
     partial_names names @ (if path_exists d [commit, ''lcov.info''] then [''lcov.info''] else [])"

lemma lcov_args_merge:
  "[''--quiet'', ''--output-file'', ''lcov.info.new''] @ lcov_args d commit (partial_names names) =
     merge_args (merge_files d commit names)"
  by (simp add: lcov_args_def merge_args_def merge_files_def)

lemma merge_files_all:
  assumes "read_dir d [commit] = Some names" and "trace_name n" and "node_at (tree d) [commit, n] = Some (File b t)"
  shows "n \<in> set (merge_files d commit names)"
  using assms(2) read_dir_iff [OF assms(1), of n] assms(3)
  by (auto simp: trace_name_def merge_files_def partial_names_def path_exists_def)

lemma merge_files_ready:
  assumes "read_dir d [commit] = Some names" and "traces_ready commit d"
  shows "merge_files d commit names \<noteq> [] \<and>
    (\<forall>n \<in> set (merge_files d commit names). \<exists>b t. node_at (tree d) [commit, n] = Some (File b t))"
proof
  from assms(2) obtain n b t where "trace_name n" "node_at (tree d) [commit, n] = Some (File b t)"
    unfolding traces_ready_def by blast
  from merge_files_all [OF assms(1) this] show "merge_files d commit names \<noteq> []" by auto
  show "\<forall>n \<in> set (merge_files d commit names). \<exists>b t. node_at (tree d) [commit, n] = Some (File b t)"
  proof
    fix n assume n: "n \<in> set (merge_files d commit names)"
    then have "trace_name n" and "node_at (tree d) [commit, n] \<noteq> None"
      using read_dir_iff [OF assms(1), of n]
      by (auto simp: merge_files_def partial_names_def trace_name_def path_exists_def split: if_splits option.splits)
    then show "\<exists>b t. node_at (tree d) [commit, n] = Some (File b t)"
      using assms(2) unfolding traces_ready_def by blast
  qed
qed

text \<open>How far a run of \<open>update_lcov\<close> gets: not to the merged file being in place, or to that point and then the rest.\<close>

lemma update_lcov_cases:
  assumes "update_lcov tool lock rc commit d = (out, d')"
    and "lcov_merges tool cov (path_join (output_dir rc) commit) commit"
    and "html_confined tool (path_join (output_dir rc) commit) commit"
  obtains (kept) "\<And>n. trace_name n \<Longrightarrow> node_at (tree d') [commit, n] = node_at (tree d) [commit, n]"
  | (merged) b t where "node_at (tree d') [commit, ''lcov.info''] = Some (File b t)" "covered cov commit d \<subseteq> cov b"
proof -
  obtain ok0 d0 where rm: "remove_file d [commit, ''lcov-stale''] = (ok0, d0)" by fastforce
  have at0: "node_at (tree d0) [commit, n] = node_at (tree d) [commit, n]" if "trace_name n" for n
    using remove_file_sibling [of n "''lcov-stale''" d commit] rm trace_not [OF that] by simp
  show thesis
  proof (cases "ok0 \<and> lock \<and> read_dir d0 [commit] \<noteq> None")
    case False
    then have "d' = d0" using assms(1) rm by (auto simp: update_lcov_def split: if_splits option.splits bool.splits)
    then show ?thesis using at0 by (intro kept) simp
  next
    case True
    then obtain names where names: "ok0" "lock" "read_dir d0 [commit] = Some names" by auto
    let ?fs = "merge_files d0 commit names"
    obtain r d1 where lc: "tool ''lcov'' (path_join (output_dir rc) commit) (merge_args ?fs) d0 = (r, d1)" by fastforce
    note m = lcov_mergesD [OF assms(2) lc]
    have at1: "node_at (tree d1) [commit, n] = node_at (tree d) [commit, n]" if "trace_name n" for n
      using m(2) [of n] at0 [OF that] trace_not [OF that] by simp
    obtain ok2 d2 where rn: "rename_file d1 [commit, ''lcov.info.new''] [commit, ''lcov.info''] = (ok2, d2)" by fastforce
    note run = assms(1) [unfolded update_lcov_def Let_def]
    show ?thesis
    proof (cases "r = Some True \<and> ok2")
      case False
      then have "d' = d1 \<or> (d' = d2 \<and> \<not> ok2)"
        using run rm names lc rn unfolding lcov_args_merge by (auto simp: lcov_args_merge split: option.splits bool.splits)
      then have "d' = d1" using rename_file_fail rn by (cases ok2) auto
      then show ?thesis using at1 by (intro kept) simp
    next
      case True
      let ?d3 = "fold (\<lambda>n d. snd (remove_file d [commit, n])) (partial_names names) d2"
      have end_: "lcov_html tool rc commit ?d3 = (out, d')"
        using run rm names lc rn True by (simp add: lcov_args_merge [simplified])
      have "''lcov.info'' \<notin> set (partial_names names)" using partial_not by (auto simp: partial_names_def)
      then have info: "node_at (tree d') [commit, ''lcov.info''] = node_at (tree d1) [commit, ''lcov.info.new'']"
        using lcov_html_keeps [OF assms(3) end_, of "''lcov.info''"] remove_files_sibling rename_file_at [of d1] rn True
        by simp
      from m(3) True obtain b t where b: "node_at (tree d1) [commit, ''lcov.info.new''] = Some (File b t)"
        and all: "\<forall>n \<in> set ?fs. \<forall>b' t'. node_at (tree d0) [commit, n] = Some (File b' t') \<longrightarrow> cov b' \<subseteq> cov b"
        by blast
      have "covered cov commit d \<subseteq> cov b"
        using all merge_files_all [OF names(3)] at0 unfolding covered_def by fastforce
      then show ?thesis using info b by (intro merged) auto
    qed
  qed
qed

lemma rename_sibling:
  assumes "no_faults d" and "\<not> is_dir d [c, m]" and "node_at (tree d) [c, n] = Some x"
  shows "\<exists>d'. rename_file d [c, n] [c, m] = (True, d')"
proof -
  have "is_dir d [c]" using is_dir_parent [of d "[c]" n] assms(3) by simp
  then obtain es where dir: "node_at (tree d) [c] = Some (Dir es)" by (auto simp: is_dir_def split: option.splits node.splits)
  from put_node_enabled [OF this, of n None] obtain t where t: "put_node (tree d) [c, n] None = Some t" by auto
  have "strict_prefix [c] [c, n]" by (simp add: strict_prefix_def)
  from put_node_above [OF t this] obtain es' where "node_at t [c] = Some (Dir es')" by blast
  from put_node_enabled [OF this, of m "Some x"] obtain t' where "put_node t [c, m] (Some x) = Some t'" by auto
  with t assms show ?thesis by (simp add: rename_file_def no_faults_def)
qed

lemma update_lcov_merges:
  assumes "lcov_merges tool cov (path_join (output_dir rc) commit) commit"
    and "html_confined tool (path_join (output_dir rc) commit) commit"
    and "update_lcov tool lock rc commit d = (out, d')"
    and "lock" and "no_faults d" and stale: "node_at (tree d) [commit, ''lcov-stale''] = Some (File x y)"
    and ready: "traces_ready commit d" and lcov: "lcov_succeeds tool (path_join (output_dir rc) commit) commit"
  shows "\<exists>b t. node_at (tree d') [commit, ''lcov.info''] = Some (File b t) \<and> covered cov commit d \<subseteq> cov b"
proof -
  have dirc: "is_dir d [commit]" using is_dir_parent [of d "[commit]" "''lcov-stale''"] stale by simp
  then obtain es where es: "node_at (tree d) [commit] = Some (Dir es)" by (auto simp: is_dir_def split: option.splits node.splits)
  from put_node_enabled [OF es, of "''lcov-stale''" None]
  obtain t0 where t0: "put_node (tree d) [commit, ''lcov-stale''] None = Some t0" by auto
  let ?d0 = "d\<lparr>tree := t0\<rparr>"
  have rm: "remove_file d [commit, ''lcov-stale''] = (True, ?d0)"
    using assms(5) stale t0 by (simp add: remove_file_def no_faults_def is_dir_def)
  have "strict_prefix [commit] [commit, ''lcov-stale'']" by (simp add: strict_prefix_def)
  from put_node_above [OF t0 this] obtain names where names: "read_dir ?d0 [commit] = Some names"
    by (auto simp: read_dir_def)
  let ?fs = "merge_files ?d0 commit names"
  obtain r d1 where lc: "tool ''lcov'' (path_join (output_dir rc) commit) (merge_args ?fs) ?d0 = (r, d1)" by fastforce
  note m = lcov_mergesD [OF assms(1) lc]
  have at0: "node_at t0 [commit, n] = node_at (tree d) [commit, n]" if "n \<noteq> ''lcov-stale''" for n
    using put_node_other [OF t0, of "[commit, n]"] that by simp
  have "node_at t0 [commit, n] = node_at (tree d) [commit, n]" if "trace_name n" for n
    using trace_not [OF that] by (intro at0) simp
  then have "traces_ready commit ?d0" using ready by (auto simp: traces_ready_def)
  note files = merge_files_ready [OF names this]
  have "no_faults ?d0" using assms(5) by (simp add: no_faults_def)
  then have r: "r = Some True" using lcov lc files unfolding lcov_succeeds_def by blast
  from m(3) [OF r] obtain b t where b: "node_at (tree d1) [commit, ''lcov.info.new''] = Some (File b t)"
    and all: "\<forall>n \<in> set ?fs. \<forall>b' t'. node_at (tree ?d0) [commit, n] = Some (File b' t') \<longrightarrow> cov b' \<subseteq> cov b"
    by blast
  have "\<exists>b t. z = File b t" if "node_at (tree d) [commit, ''lcov.info''] = Some z" for z
    using ready that unfolding traces_ready_def trace_name_def by blast
  then have "\<not> is_dir d1 [commit, ''lcov.info'']"
    using m(2) [of "''lcov.info''"] at0 [of "''lcov.info''"] by (auto simp: is_dir_def split: option.splits)
  moreover have "no_faults d1" using m(1) assms(5) by (simp add: no_faults_def)
  ultimately obtain d2 where rn: "rename_file d1 [commit, ''lcov.info.new''] [commit, ''lcov.info''] = (True, d2)"
    using rename_sibling b by blast
  let ?d3 = "fold (\<lambda>n d. snd (remove_file d [commit, n])) (partial_names names) d2"
  have end_: "lcov_html tool rc commit ?d3 = (out, d')"
    using assms(3,4) rm names lc rn r by (simp add: update_lcov_def Let_def lcov_args_merge [simplified])
  have "''lcov.info'' \<notin> set (partial_names names)" using partial_not by (auto simp: partial_names_def)
  then have "node_at (tree d') [commit, ''lcov.info''] = Some (File b t)"
    using lcov_html_keeps [OF assms(2) end_, of "''lcov.info''"] remove_files_sibling rename_file_at [OF rn] b by simp
  moreover have "covered cov commit d \<subseteq> cov b"
    using all merge_files_all [OF names] at0 trace_not unfolding covered_def by fastforce
  ultimately show ?thesis by blast
qed

section \<open>Properties\<close>


text \<open>An \<open>lcov\<close> that merges: the output is the concatenation of the files it is given, and a line is a character.\<close>

fun given_files :: "string list \<Rightarrow> string list" where
  "given_files (a # n # args) =
     (if a = ''--add-tracefile'' then n # given_files args
      else if a = ''--quiet'' then given_files (n # args)
      else given_files args)"
| "given_files _ = []"

definition sample_tool :: tool where
  "sample_tool prog dir args d =
     (if prog = ''lcov'' then
        (case put_node (tree d) [''c0'', ''lcov.info.new'']
                (Some (File (concat (map (\<lambda>n. case node_at (tree d) [''c0'', n] of Some (File b _) \<Rightarrow> b | _ \<Rightarrow> []) (given_files args))) 7)) of
           None \<Rightarrow> (Some False, d)
         | Some t \<Rightarrow> (Some True, d\<lparr>tree := t\<rparr>))
      else (Some True, d))"

lemma given_merge_args: "given_files (merge_args fs) = fs"
proof -
  have "given_files (concat (map (\<lambda>n. [''--add-tracefile'', n]) fs)) = fs" by (induction fs) simp_all
  then show ?thesis by (cases fs) (simp_all add: merge_args_def)
qed

lemma sample_tool_ok: "lcov_merges sample_tool set dir ''c0''" "html_confined sample_tool dir ''c0''"
proof -
  have merge: "fault d' = fault d \<and> (\<forall>n. n \<noteq> ''lcov.info.new'' \<longrightarrow> node_at (tree d') [''c0'', n] = node_at (tree d) [''c0'', n]) \<and>
      (r = Some True \<longrightarrow> (\<exists>b t. node_at (tree d') [''c0'', ''lcov.info.new''] = Some (File b t) \<and>
        (\<forall>n \<in> set fs. \<forall>b' t'. node_at (tree d) [''c0'', n] = Some (File b' t') \<longrightarrow> set b' \<subseteq> set b)))"
    if run: "sample_tool ''lcov'' dir (merge_args fs) d = (r, d')" for fs d r d'
  proof -
    define b where "b = concat (map (\<lambda>n. case node_at (tree d) [''c0'', n] of Some (File b _) \<Rightarrow> b | _ \<Rightarrow> []) fs)"
    show ?thesis
    proof (cases "put_node (tree d) [''c0'', ''lcov.info.new''] (Some (File b 7))")
      case None
      then show ?thesis using run by (auto simp: sample_tool_def given_merge_args b_def)
    next
      case (Some t)
      then have "r = Some True" "d' = d\<lparr>tree := t\<rparr>" using run by (simp_all add: sample_tool_def given_merge_args b_def)
      moreover have "node_at t [''c0'', n] = node_at (tree d) [''c0'', n]" if "n \<noteq> ''lcov.info.new''" for n
        using put_node_other [OF Some, of "[''c0'', n]"] that by simp
      moreover have "set b' \<subseteq> set b" if "n \<in> set fs" "node_at (tree d) [''c0'', n] = Some (File b' t')" for n b' t'
        using that unfolding b_def by (auto intro!: bexI [of _ n])
      ultimately show ?thesis using put_node_same [OF Some] by (simp, blast)
    qed
  qed
  then show "lcov_merges sample_tool set dir ''c0''" unfolding lcov_merges_def by blast
  show "html_confined sample_tool dir ''c0''"
    by (simp add: html_confined_def sample_tool_def)
qed

definition sample_lcov_disk :: disk where
  "sample_lcov_disk =
     \<lparr> tree = Dir [(''c0'', Dir [(''lcov-stale'', File [] 1), (''lcov.partial.1'', File ''p'' 2), (''lcov.info'', File ''q'' 2)])],
       fault = (\<lambda>_ _. False) \<rparr>"


end
