(* ===== verification/Cgi.thy ===== *)
theory Cgi
  imports Page Lcov
begin

text \<open>
  The dashboard (\<open>src/bin/cgi.rs\<close>): from the request to the page or JSON answer. A handler that panics gives
  \<open>None\<close>. The query string parser (the \<open>querystring\<close> crate), regular expressions, the texts of errors
  and the process environment are the parameter \<open>E\<close>.
\<close>

section \<open>Requests and responses\<close>

record cgi_env =
  querify :: "string \<Rightarrow> (string \<times> string) list"
  regex_new :: "string \<Rightarrow> (string \<Rightarrow> bool) option"
  show_config_error :: "config_error \<Rightarrow> string"
  show_user_error :: "user_error \<Rightarrow> string"
  show_open_error :: "string \<Rightarrow> string"
  show_walk_error :: "string \<Rightarrow> string"
  debug_output_dir :: string
  debug_env :: string

text \<open>What the code relies on: the empty expression compiles and matches everything.\<close>

definition regex_ok :: "cgi_env \<Rightarrow> bool" where
  "regex_ok E \<longleftrightarrow> regex_new E [] = Some (\<lambda>_. True)"

text \<open>What the code relies on of the query string parser: pairs written as \<open>k=v\<close> and joined by \<open>&\<close> are read back, when
  no key and no value contains \<open>&\<close> or \<open>=\<close>.\<close>

definition query_text :: "(string \<times> string) list \<Rightarrow> string" where
  "query_text kvs = join ''&'' (map (\<lambda>(k, v). k @ ''='' @ v) kvs)"

definition query_word :: "string \<Rightarrow> bool" where
  "query_word s \<longleftrightarrow> CHR ''&'' \<notin> set s \<and> CHR ''='' \<notin> set s"

definition querify_ok :: "cgi_env \<Rightarrow> bool" where
  "querify_ok E \<longleftrightarrow>
     (\<forall>kvs. kvs \<noteq> [] \<and> (\<forall>(k, v) \<in> set kvs. query_word k \<and> query_word v) \<longrightarrow> querify E (query_text kvs) = kvs)"

datatype response = Html nat "piece list" | Text nat "piece list" | JsonR nat json

record Ci =
  ci_rc :: CiConfig
  ci_repo :: string
  stylesheet :: string
  script_name :: string
  ci_user :: "string option"
  ci_branch :: "string option"
  ci_commit_id :: "string option"
  tests_matching :: string
  tests_match :: "string \<Rightarrow> bool"
  ci_json :: bool

definition json_response :: "json \<Rightarrow> response" where
  "json_response v = JsonR 200 v"

definition json_error :: "string \<Rightarrow> response" where
  "json_error msg = JsonR 500 (JError msg)"

definition error_response :: "cgi_env \<Rightarrow> string \<Rightarrow> response" where
  "error_response E msg =
     Text 200 (writeln [Str msg] @ writeln [Str (''env: '' @ debug_env E)])"

definition fail_response :: "cgi_env \<Rightarrow> Ci \<Rightarrow> string \<Rightarrow> response" where
  "fail_response E ci e = (if ci_json ci then json_error e else error_response E e)"

text \<open>What a client of the JSON interface can rely on: a value with status 200, or an error object with status 500.\<close>

fun json_ok :: "response \<Rightarrow> bool" where
  "json_ok (JsonR code j) \<longleftrightarrow> (case j of JError _ \<Rightarrow> code = 500 | _ \<Rightarrow> code = 200)"
| "json_ok _ \<longleftrightarrow> False"

definition cgi_header_get :: "(string \<Rightarrow> string option option) \<Rightarrow> string \<Rightarrow> string" where
  "cgi_header_get headers name = (case headers name of Some (Some x) \<Rightarrow> x | _ \<Rightarrow> [])"

definition ci_branch_get_results ::
  "capnp \<Rightarrow> http \<Rightarrow> git2 \<Rightarrow> int \<Rightarrow> Ci \<Rightarrow> disk \<Rightarrow> (query_error + CommitResults list) \<times> disk" where
  "ci_branch_get_results C http G now ci d =
     branch_get_results C http G (ci_repo ci) (ktest (ci_rc ci)) (ci_user ci) (ci_branch ci) (ci_commit_id ci)
       (tests_match ci) now d"

text \<open>The message of an error of the query; a panic inside it has none.\<close>

definition query_message :: "cgi_env \<Rightarrow> query_error \<Rightarrow> string option" where
  "query_message E e =
     (case e of
        CommitNotFound \<Rightarrow> Some ''commit not found''
      | ErrorWalking b \<Rightarrow> Some (''Error walking '' @ b @ '': '' @ show_walk_error E b)
      | Panicked \<Rightarrow> None)"

section \<open>The search form\<close>

definition attr :: "string \<Rightarrow> string" where
  "attr s = replace_char CHR 0x22 ''&quot;'' (replace_char CHR ''<'' ''&lt;'' (replace_char CHR ''&'' ''&amp;'' s))"

definition search_form :: "Ci \<Rightarrow> piece list" where
  "search_form ci =
     writeln [Str (''<form method=get action='' @ script_name ci @ ''>'')] @
     concat (map (\<lambda>(name, val).
       case val of
         None \<Rightarrow> []
       | Some v \<Rightarrow> writeln [Str (''<input type=hidden name='' @ name @ '' value=\"'' @ attr v @ ''\">'')])
       [(''user'', ci_user ci), (''branch'', ci_branch ci), (''commit'', ci_commit_id ci)]) @
     writeln [Str (''<input type=text name=test value=\"'' @ attr (tests_matching ci) @
       ''\" placeholder=\"test name (regex)\" size=40> <input type=submit value=Search>'')] @
     writeln [Str ''</form>'']"

section \<open>Statistics of a single test\<close>

record SingleTestStats =
  completed :: u64
  ss_passed :: u64
  ss_failed :: u64
  ss_duration :: u64

text \<open>The loop over the results of all commits; \<open>None\<close> is the early return.\<close>

fun stats_loop :: "string option \<Rightarrow> SingleTestStats \<Rightarrow> (string \<times> TestResult) list \<Rightarrow> SingleTestStats option" where
  "stats_loop test_name stats [] = Some stats"
| "stats_loop test_name stats ((name, result) # rs) =
     (if test_name \<noteq> None \<and> test_name \<noteq> Some name then None
      else
        (let test_name = Some name
         in if status result = Passed then
              stats_loop test_name
                (stats\<lparr>ss_passed := ss_passed stats + 1, completed := completed stats + 1,
                       ss_duration := ss_duration stats + duration result\<rparr>) rs
            else if status result = Failed then
              stats_loop test_name
                (stats\<lparr>ss_failed := ss_failed stats + 1, completed := completed stats + 1,
                       ss_duration := ss_duration stats + duration result\<rparr>) rs
            else stats_loop test_name stats rs))"

definition single_test_stats :: "CommitResults list \<Rightarrow> SingleTestStats option" where
  "single_test_stats cs =
     (case stats_loop None \<lparr> completed = 0, ss_passed = 0, ss_failed = 0, ss_duration = 0 \<rparr>
             (concat (map cr_tests cs)) of
        None \<Rightarrow> None
      | Some stats \<Rightarrow> if completed stats \<noteq> 0 then Some stats else None)"

section \<open>The log of a branch\<close>

definition html_head :: "Ci \<Rightarrow> string \<Rightarrow> piece list" where
  "html_head ci title =
     writeln [Str (''<html><head><title>'' @ title @ ''</title></head>'')] @
     writeln [Str (''<link href=\"'' @ stylesheet ci @ ''\" rel=\"stylesheet\">'')]"

definition td :: "piece list \<Rightarrow> piece list" where
  "td ps = writeln ([Str ''<td> ''] @ ps @ [Str '' </td>''])"

definition untested_row :: "nat \<Rightarrow> piece list" where
  "untested_row nr_empty =
     (if nr_empty \<noteq> 0 then
        writeln [Str (''<tr> <td> ('' @ show_nat nr_empty @ '' untested commits) </td> </tr>'')] else [])"

text \<open>The link to a commit: the abbreviation \<open>&r.id[..14]\<close> and the missing user can panic.\<close>

definition commit_link :: "Ci \<Rightarrow> string \<Rightarrow> string \<Rightarrow> piece list option" where
  "commit_link ci branch i =
     (case (ci_user ci, slice_to i 14) of
        (Some user, Some short) \<Rightarrow>
          Some (writeln [Str (''<td> <a href=\"'' @ script_name ci @ ''?user='' @ user @ ''&branch='' @ branch @
            ''&commit='' @ i @ ''\">'' @ short @ ''</a> </td>'')])
      | _ \<Rightarrow> None)"

definition count_results :: "TestResultsMap \<Rightarrow> TestStatus \<Rightarrow> nat" where
  "count_results r t = length (filter (\<lambda>x. status (snd x) = t) r)"

definition multi_row :: "Ci \<Rightarrow> string \<Rightarrow> CommitResults \<Rightarrow> piece list option" where
  "multi_row ci branch r =
     (case commit_link ci branch (cr_id r) of
        None \<Rightarrow> None
      | Some link \<Rightarrow>
          Some (writeln [Str ''<tr>''] @ link @ td [Str (before_newline (cr_message r))] @
            td [Str (show_nat (count_results (cr_tests r) Passed))] @
            td [Str (show_nat (count_results (cr_tests r) Failed))] @
            td [Str (show_nat (count_results (cr_tests r) FailedToRun))] @
            td [Str (show_nat (count_results (cr_tests r) Notrun))] @
            td [Str (show_nat (count_results (cr_tests r) Inprogress))] @
            td [Str (show_nat (count_results (cr_tests r) Unknown))] @
            td [Str (show_nat (length (cr_tests r)))] @
            writeln [Str (''<td> '' @ show_nat (unat (sum_list (map (\<lambda>x. duration (snd x)) (cr_tests r)))) @ ''s </td>'')] @
            writeln [Str ''</tr>'']))"

definition single_row :: "Ci \<Rightarrow> string \<Rightarrow> CommitResults \<Rightarrow> piece list option" where
  "single_row ci branch r =
     (case (cr_tests r, commit_link ci branch (cr_id r)) of
        (t # _, Some link) \<Rightarrow>
          Some (writeln [Str (''<tr class='' @ table_class (status (snd t)) @ ''>'')] @ link @
            td [Str (before_newline (cr_message r))] @ td [Str (to_str (status (snd t)))] @
            writeln [Str (''<td> '' @ show_nat (unat (duration (snd t))) @ ''s </td>'')] @
            writeln [Str (''<td> <a href=c/'' @ cr_id r @ ''/'' @ fst t @ ''/log.br>        log                 </a> </td>'')] @
            writeln [Str (''<td> <a href=c/'' @ cr_id r @ ''/'' @ fst t @ ''/full_log.br>   full log            </a> </td>'')] @
            writeln [Str (''<td> <a href=c/'' @ cr_id r @ ''/'' @ fst t @ ''>'' @ [CHR 0x09, CHR 0x09] @
              ''        output directory    </a> </td>'')] @
            writeln [Str ''</tr>''])
      | _ \<Rightarrow> None)"

text \<open>Both tables: the loop over the commits with the count of untested ones.\<close>

fun log_rows :: "(CommitResults \<Rightarrow> piece list option) \<Rightarrow> nat \<Rightarrow> CommitResults list \<Rightarrow> piece list option" where
  "log_rows row nr_empty [] = Some []"
| "log_rows row nr_empty (r # rs) =
     (if cr_tests r \<noteq> [] then
        (case (row r, log_rows row 0 rs) of
           (Some this, Some rest) \<Rightarrow> Some (untested_row nr_empty @ this @ rest)
         | _ \<Rightarrow> None)
      else log_rows row (nr_empty + 1) rs)"

definition stats_line :: "Ci \<Rightarrow> CommitResults list \<Rightarrow> piece list" where
  "stats_line ci cs =
     (if tests_matching ci = [] then []
      else
        (case single_test_stats cs of
           None \<Rightarrow> []
         | Some stats \<Rightarrow>
             writeln ([Str (''<p><strong>'' @ show_nat (unat (completed stats)) @ '' completed runs</strong>: '' @
                 show_nat (unat (ss_passed stats)) @ '' passed (''),
               Fixed1 (unat (ss_passed stats) * 100) (unat (completed stats)),
               Str (''%), '' @ show_nat (unat (ss_failed stats)) @ '' failed (''),
               Fixed1 (unat (ss_failed stats) * 100) (unat (completed stats)),
               Str ''%); average duration ''] @
               format_duration (ss_duration stats div completed stats) @ [Str ''</p>''])))"

definition th_row :: "string list \<Rightarrow> piece list" where
  "th_row hs =
     writeln [Str ''<tr>''] @ concat (map (\<lambda>h. writeln [Str (''<th> '' @ h @ ''</th>'')]) hs) @ writeln [Str ''</tr>'']"

text \<open>The rows of the table: of one layout when some commit has several results, of another otherwise.\<close>

definition log_table :: "Ci \<Rightarrow> string \<Rightarrow> CommitResults list \<Rightarrow> piece list option" where
  "log_table ci branch cs =
     (if list_ex (\<lambda>r. length (cr_tests r) > 1) cs then
        map_option (\<lambda>rows.
          th_row [''Commit      '', ''Description '', ''Passed      '', ''Failed      '', ''Failed to run '',
            ''Not run     '', ''In progress '', ''Unknown     '', ''Total       '', ''Duration    ''] @ rows)
          (log_rows (multi_row ci branch) 0 cs)
      else
        map_option (\<lambda>rows. th_row [''Commit      '', ''Description '', ''Status      '', ''Duration    ''] @ rows)
          (log_rows (single_row ci branch) 0 cs))"

definition ci_log ::
  "capnp \<Rightarrow> http \<Rightarrow> git2 \<Rightarrow> cgi_env \<Rightarrow> int \<Rightarrow> Ci \<Rightarrow> disk \<Rightarrow> response option \<times> disk" where
  "ci_log C http G E now ci d =
     (case ci_branch ci of
        None \<Rightarrow> (None, d)
      | Some branch \<Rightarrow>
          (case ci_branch_get_results C http G now ci d of
             (Inl e, d) \<Rightarrow> (map_option (fail_response E ci) (query_message E e), d)
           | (Inr cs, d) \<Rightarrow>
               if ci_json ci then (Some (json_response (JEntries (branch_entries cs))), d)
               else
                 (map_option (\<lambda>rows. Html 200
                    (writeln [Str ''<!DOCTYPE HTML>''] @ html_head ci branch @
                     writeln [Str ''<body>''] @ writeln [Str ''<div class=\"container\">''] @
                     search_form ci @ stats_line ci cs @
                     writeln [Str ''<table class=\"table\">''] @ rows @
                     writeln [Str ''</table>''] @ writeln [Str ''</div>''] @ writeln [Str ''</body>''] @
                     writeln [Str ''</html>''])) (log_table ci branch cs), d)))"

section \<open>A commit\<close>

definition log_link :: "string \<Rightarrow> string \<Rightarrow> piece list" where
  "log_link fname link =
     (let quote = [CHR 0x27]; nl = [CHR 0x0A];
          onclick = ''fetch('' @ quote @ fname @ quote @ '')'' @ nl @
            ''    .then(response => response.text())'' @ nl @
            ''    .then(text => {'' @ nl @
            ''        document.getElementById('' @ quote @ ''testlog'' @ quote @ '').textContent = text;'' @ nl @
            ''  });'' @ nl @
            ''  return false;'' @ nl
      in writeln [Str (''<td> <a href='' @ fname @ '' onclick=\"'' @ onclick @ ''\"> '' @ link @ '' </a> </td>'')])"

text \<open>One row of the table; the user is unwrapped for the link to the history when there is a branch.\<close>

definition commit_row :: "Ci \<Rightarrow> CommitResults list \<Rightarrow> string \<Rightarrow> string \<times> TestResult \<Rightarrow> piece list option" where
  "commit_row ci cs i nr =
     (let (name, result) = nr;
          history =
            (case ci_branch ci of
               None \<Rightarrow> Some []
             | Some branch \<Rightarrow>
                 map_option (\<lambda>user. writeln [Str (''<td> <a href='' @ script_name ci @ ''?user='' @ user @ ''&branch='' @ branch @
                   ''&test=^'' @ name @ ''$> git log        </a> </td>'')]) (ci_user ci))
      in map_option (\<lambda>h.
           writeln [Str (''<tr class='' @ table_class (status result) @ ''>'')] @
           log_link (''c/'' @ i @ ''/'' @ name @ ''/log.br'') name @
           writeln [Str (''<td> '' @ show_nat (unat (duration result)) @ ''s </td>'')] @
           writeln [Str (''<td> '' @ to_str (status result) @ ''  </td>'')] @
           writeln [Str (''<td> '' @ last_good_line cs name @ ''  </td>'')] @
           h @
           log_link (''c/'' @ i @ ''/'' @ name @ ''/full_log.br'') ''full'' @
           writeln [Str ''</tr>'']) history)"

fun concat_rows :: "piece list option list \<Rightarrow> piece list option" where
  "concat_rows [] = Some []"
| "concat_rows (r # rs) = (case (r, concat_rows rs) of (Some x, Some y) \<Rightarrow> Some (x @ y) | _ \<Rightarrow> None)"

definition commit_tests :: "CommitResults \<Rightarrow> CommitTests" where
  "commit_tests r = \<lparr> ct_commit = cr_id r, ct_message = cr_message r, ct_tests = map test_entry (cr_tests r) \<rparr>"

definition ci_commit ::
  "capnp \<Rightarrow> http \<Rightarrow> git2 \<Rightarrow> tool \<Rightarrow> bool \<Rightarrow> cgi_env \<Rightarrow> int \<Rightarrow> Ci \<Rightarrow> disk \<Rightarrow> response option \<times> disk" where
  "ci_commit C http G tool lock E now ci d =
     (case ci_branch_get_results C http G now ci d of
        (Inl e, d) \<Rightarrow> (map_option (fail_response E ci) (query_message E e), d)
      | (Inr [], d) \<Rightarrow> (None, d)
      | (Inr (first_commit # rest), d) \<Rightarrow>
          if ci_json ci then (Some (json_response (JCommit (commit_tests first_commit))), d)
          else
            (case update_lcov tool lock (ktest (ci_rc ci)) (cr_id first_commit) d of
               (LcovPanic, d) \<Rightarrow> (None, d)
             | (_, d) \<Rightarrow>
                 (let subject = before_newline (cr_message first_commit);
                      rows = concat_rows (map (commit_row ci (first_commit # rest) (cr_id first_commit))
                               (cr_tests first_commit))
                  in (map_option (\<lambda>rows. Html 200
                        (writeln [Str ''<!DOCTYPE HTML>''] @ [Asset CommitCssJs] @
                         writeln [Str ''<div class=\"header\">''] @ html_head ci subject @
                         writeln [Str ''<body>''] @ writeln [Str ''<div class=\"toplevel-container\">''] @
                         writeln [Str (''<h3><th>'' @ subject @ ''</th></h3>'')] @ search_form ci @
                         (if path_exists d [cr_id first_commit, ''lcov''] then
                            writeln [Str (''<p> <a href=c/'' @ cr_id first_commit @ ''/lcov> Code coverage </a> </p>'')]
                          else []) @
                         [Asset CommitFilter] @ writeln [Str ''</div>''] @
                         writeln [Str ''<div class=\"horizontal-container\">''] @
                         writeln [Str ''<div class=\"horizontal\">''] @ writeln [Str ''<table class=\"table no-wrap\">''] @
                         rows @
                         writeln [Str ''</table>''] @ writeln [Str ''</div>''] @
                         writeln [Str ''<div class=\"horizontal\">''] @ writeln [Str '' <pre id=\"testlog\"></pre> ''] @
                         writeln [Str ''</div>''] @ writeln [Str ''<script>update_filter()</script>''] @
                         writeln [Str ''</div>''] @ writeln [Str ''</body>''] @ writeln [Str ''</html>''])) rows, d))))"

section \<open>Users and branches\<close>

definition ci_list_branches :: "Ci \<Rightarrow> string \<Rightarrow> Userrc \<Rightarrow> piece list" where
  "ci_list_branches ci username u =
     writeln [Str ''<div> <table class=\"table\">''] @
     concat (map (\<lambda>(b, _). writeln [Str (''<tr> <th> <a href='' @ script_name ci @ ''?user='' @ username @ ''&branch='' @ b @
       ''>'' @ b @ ''</a> </th> </tr>'')]) (branches u)) @
     writeln [Str ''</table> </div>'']"

definition user_branches_json :: "string \<Rightarrow> Userrc \<Rightarrow> UserBranches" where
  "user_branches_json username u = \<lparr> ub_user = username, ub_branches = map fst (branches u) \<rparr>"

definition ci_user_page :: "cgi_env \<Rightarrow> Ci \<Rightarrow> response option" where
  "ci_user_page E ci =
     (case ci_user ci of
        None \<Rightarrow> None
      | Some username \<Rightarrow>
          (case bt_get (users (ci_rc ci)) username of
             None \<Rightarrow> Some (fail_response E ci (''User '' @ username @ '' not found''))
           | Some u \<Rightarrow>
               if ci_json ci then
                 (case u of
                    Inr u \<Rightarrow> Some (json_response (JUser (user_branches_json username u)))
                  | Inl e \<Rightarrow> Some (json_error (''error parsing user config: '' @ show_user_error E e)))
               else
                 Some (Html 200
                   (writeln [Str ''<!DOCTYPE HTML>''] @ html_head ci ''CI branch list'' @ writeln [Str ''<body>''] @
                    (case u of
                       Inr u \<Rightarrow> ci_list_branches ci username u
                     | Inl e \<Rightarrow> writeln [Str (''error parsing user config: '' @ show_user_error E e)]) @
                    writeln [Str ''</body>''] @ writeln [Str ''</html>'']))))"

definition ci_list_users :: "Ci \<Rightarrow> piece list" where
  "ci_list_users ci =
     writeln [Str ''<h4>Users</h4>''] @ writeln [Str ''<div> <table class=\"table\">''] @
     writeln [Str ''<tr> <th> User </th> <th> Nice </th> <th> Branches </th> </tr>''] @
     concat (map (\<lambda>(user, userrc).
       (let n = unwrap_or (bt_get (user_nice (ktest (ci_rc ci))) user) 0;
            bs = (case userrc of Inr u \<Rightarrow> join '', '' (map fst (branches u)) | Inl _ \<Rightarrow> ''error'')
        in writeln [Str ''<tr>''] @
           writeln [Str (''<td> <a href=\"'' @ script_name ci @ ''?user='' @ user @ ''\">'' @ user @ ''</a> </td>'')] @
           td [Str (show_int (sint n))] @ td [Str bs] @ writeln [Str ''</tr>'']))
       (users (ci_rc ci))) @
     writeln [Str ''</table> </div>'']"

definition ci_home :: "Ci \<Rightarrow> response" where
  "ci_home ci =
     (if ci_json ci then
        json_response (JUsers (List.map_filter (\<lambda>(name, u).
          case u of Inr u \<Rightarrow> Some (user_branches_json name u) | Inl _ \<Rightarrow> None) (users (ci_rc ci))))
      else
        Html 200
          (writeln [Str ''<!DOCTYPE HTML>''] @ html_head ci ''CI branch list'' @ writeln [Str ''<body>''] @
           writeln [Str (''<p><a href=\"'' @ script_name ci @ ''?status\">'' @ [CHR 0xE2, CHR 0x86, CHR 0x92] @
             '' live CI status</a></p>'')] @
           ci_list_users ci @ writeln [Str ''</body>''] @ writeln [Str ''</html>'']))"

definition ci_status_page :: "Ci \<Rightarrow> response" where
  "ci_status_page ci =
     Html 200
       (writeln [Str ''<!DOCTYPE html>''] @ writeln [Str ''<html><head><title>CI status</title>''] @
        writeln [Str (''<link href=\"'' @ stylesheet ci @ ''\" rel=\"stylesheet\">'')] @
        writeln [Str ''<style>'', Asset StatusCss, Str ''</style></head>''] @
        writeln [Str ''<body>'', Asset StatusBody, Str ''<script>'', Asset StatusJs, Str ''</script></body></html>''])"

section \<open>The request\<close>

definition request_repo :: "CiConfig \<Rightarrow> (string \<rightharpoonup> string) \<Rightarrow> string" where
  "request_repo rc query =
     unwrap_or
       (Option.bind (query ''user'') (\<lambda>user. Option.bind (query ''branch'') (\<lambda>branch.
          case bt_get (users rc) user of
            Some (Inr userrc) \<Rightarrow>
              Option.bind (bt_get (branches userrc) branch) (\<lambda>b. repo_path (ktest rc) (repo b))
          | _ \<Rightarrow> None)))
       (linux_repo (ktest rc))"

text \<open>\<open>query_string.split('&').any(|p| p == "status" || p.starts_with("status="))\<close>.\<close>

definition wants_status :: "string \<Rightarrow> bool" where
  "wants_status query_string =
     list_ex (\<lambda>p. p = ''status'' \<or> starts_with p ''status='') (split_on CHR ''&'' query_string)"

definition make_ci ::
  "cgi_env \<Rightarrow> (string \<Rightarrow> string option option) \<Rightarrow> CiConfig \<Rightarrow> string \<Rightarrow> (string \<rightharpoonup> string) \<Rightarrow> Ci option" where
  "make_ci E headers rc rp query =
     (let re = unwrap_or (query ''test'') [];
          mk = (\<lambda>src m. \<lparr> ci_rc = rc, ci_repo = rp, stylesheet = ''bootstrap.min.css'',
                 script_name = cgi_header_get headers ''x-cgi-script-name'',
                 ci_user = query ''user'', ci_branch = query ''branch'', ci_commit_id = query ''commit'',
                 tests_matching = src, tests_match = m, ci_json = (query ''format'' = Some ''json'') \<rparr>)
      in case regex_new E re of
           Some m \<Rightarrow> Some (mk re m)
         | None \<Rightarrow> map_option (mk []) (regex_new E []))"

definition cgi_main ::
  "capnp \<Rightarrow> http \<Rightarrow> git2 \<Rightarrow> tool \<Rightarrow> bool \<Rightarrow> cgi_env \<Rightarrow> config_error + CiConfig \<Rightarrow> int
    \<Rightarrow> (string \<Rightarrow> string option option) \<Rightarrow> disk \<Rightarrow> response option \<times> disk" where
  "cgi_main C http G tool lock E cfg now headers d =
     (case cfg of
        Inl e \<Rightarrow> (Some (error_response E (''could not read config; '' @ show_config_error E e)), d)
      | Inr rc \<Rightarrow>
          if \<not> path_exists d [] then
            (Some (error_response E (''required file missing: JOBSERVER_OUTPUT_DIR (got '' @ debug_output_dir E @ '')'')), d)
          else
            (let query_string = cgi_header_get headers ''x-cgi-query-string'';
                 query = map_of (rev (querify E query_string));
                 rp = request_repo rc query
             in if \<not> open_repo G rp then
                  (Some (error_response E (''error opening repository '' @ show_open_error E rp)), d)
                else
                  (case make_ci E headers rc rp query of
                     None \<Rightarrow> (None, d)
                   | Some ci \<Rightarrow>
                       if wants_status query_string then (Some (ci_status_page ci), d)
                       else if ci_user ci \<noteq> None then
                         (if ci_commit_id ci \<noteq> None then ci_commit C http G tool lock E now ci d
                          else if ci_branch ci \<noteq> None then ci_log C http G E now ci d
                          else (ci_user_page E ci, d))
                       else (Some (ci_home ci), d))))"

section \<open>Lemmas on escaping\<close>

definition escape_char :: "char \<Rightarrow> string" where
  "escape_char c =
     (if c = CHR ''&'' then ''&amp;'' else if c = CHR ''<'' then ''&lt;'' else if c = CHR 0x22 then ''&quot;'' else [c])"

lemma attr_by_char: "attr s = concat (map escape_char s)"
proof (induction s)
  case (Cons c s)
  then show ?case by (auto simp: attr_def escape_char_def)
qed (simp add: attr_def)

text \<open>What a browser makes of the value of an attribute.\<close>

function unescape :: "string \<Rightarrow> string" where
  "unescape [] = []"
| "unescape (c # s) =
     (if starts_with (c # s) ''&amp;'' then CHR ''&'' # unescape (drop 5 (c # s))
      else if starts_with (c # s) ''&lt;'' then CHR ''<'' # unescape (drop 4 (c # s))
      else if starts_with (c # s) ''&quot;'' then CHR 0x22 # unescape (drop 6 (c # s))
      else c # unescape s)"
  by pat_completeness auto
termination
  by (relation "measure length") auto

lemma unescape_escape: "unescape (escape_char c @ s) = c # unescape s"
  by (auto simp: escape_char_def)

section \<open>Lemmas on the statistics\<close>

lemma u64_eq_0: "n < 2 ^ 64 \<Longrightarrow> (of_nat n :: u64) = 0 \<longleftrightarrow> n = 0"
  by (auto simp: word_of_nat_eq_0_iff dest: nat_dvd_not_less)

definition ran :: "TestStatus \<Rightarrow> (string \<times> TestResult) list \<Rightarrow> (string \<times> TestResult) list" where
  "ran s rs = filter (\<lambda>nr. status (snd nr) = s) rs"

definition add_stats :: "SingleTestStats \<Rightarrow> (string \<times> TestResult) list \<Rightarrow> SingleTestStats" where
  "add_stats stats rs =
     \<lparr> completed = completed stats + of_nat (length (ran Passed rs)) + of_nat (length (ran Failed rs)),
       ss_passed = ss_passed stats + of_nat (length (ran Passed rs)),
       ss_failed = ss_failed stats + of_nat (length (ran Failed rs)),
       ss_duration = ss_duration stats + sum_list (map (\<lambda>nr. duration (snd nr))
         (filter (\<lambda>nr. status (snd nr) = Passed \<or> status (snd nr) = Failed) rs)) \<rparr>"

lemma stats_loop_eq:
  "stats_loop name stats rs =
     (if (\<forall>nr \<in> set rs. name = None \<or> Some (fst nr) = name) \<and> (\<forall>nr \<in> set rs. fst nr = fst (hd rs))
      then Some (add_stats stats rs) else None)"
proof (induction name stats rs rule: stats_loop.induct)
  case (1 name stats)
  then show ?case by (simp add: add_stats_def ran_def)
next
  case (2 test_name stats name result rs)
  show ?case
  proof (cases "test_name \<noteq> None \<and> test_name \<noteq> Some name")
    case True
    then show ?thesis by auto
  next
    case False
    have same: "(\<forall>nr \<in> set rs. Some name = None \<or> Some (fst nr) = Some name) \<and> (\<forall>nr \<in> set rs. fst nr = fst (hd rs)) \<longleftrightarrow>
        (\<forall>nr \<in> set ((name, result) # rs). test_name = None \<or> Some (fst nr) = test_name) \<and>
        (\<forall>nr \<in> set ((name, result) # rs). fst nr = fst (hd ((name, result) # rs)))"
      using False by (cases rs) auto
    have step: "add_stats stats ((name, result) # rs) =
        (if status result = Passed then add_stats (stats\<lparr>ss_passed := ss_passed stats + 1, completed := completed stats + 1,
             ss_duration := ss_duration stats + duration result\<rparr>) rs
         else if status result = Failed then add_stats (stats\<lparr>ss_failed := ss_failed stats + 1, completed := completed stats + 1,
             ss_duration := ss_duration stats + duration result\<rparr>) rs
         else add_stats stats rs)"
      by (auto simp: add_stats_def ran_def algebra_simps)
    show ?thesis
    proof (cases "status result")
      case Passed
      then show ?thesis using 2 False same step by (simp add: Let_def)
    next
      case Failed
      then show ?thesis using 2 False same step by (simp add: Let_def)
    qed (use 2 False same step in \<open>simp_all add: Let_def\<close>)
  qed
qed

text \<open>An answer that ends with a commit with results is empty when no walked commit has any.\<close>

lemma answer_empty:
  assumes "length rs \<le> length cs"
    and "\<And>i k. i < length rs \<Longrightarrow> cs ! i \<in> set cs \<Longrightarrow> bt_get (cr_tests (rs ! i)) k = None"
    and "rs \<noteq> [] \<longrightarrow> cr_tests (last rs) \<noteq> []"
  shows "rs = []"
proof (rule ccontr)
  assume ne: "rs \<noteq> []"
  then have "length rs - 1 < length rs" by simp
  then have "bt_get (cr_tests (rs ! (length rs - 1))) k = None" for k using assms(1,2) by simp
  then have "cr_tests (rs ! (length rs - 1)) = []" by (simp add: bt_Nil_iff)
  then show False using assms(3) ne by (simp add: last_conv_nth)
qed

section \<open>Properties\<close>

text \<open>Values put into the search form are safe: the escaped text has no quote and no \<open><\<close>, so it
  cannot end the attribute or open a tag, and a browser reads the original value back.\<close>

theorem attr_safe:
  "CHR 0x22 \<notin> set (attr s) \<and> CHR ''<'' \<notin> set (attr s) \<and> unescape (attr s) = s"
proof -
  have "CHR 0x22 \<notin> set (escape_char c)" and "CHR ''<'' \<notin> set (escape_char c)" for c
    by (auto simp: escape_char_def)
  moreover have "unescape (concat (map escape_char s)) = s"
    by (induction s) (simp_all add: unescape_escape)
  ultimately show ?thesis by (auto simp: attr_by_char)
qed

text \<open>C27: The statistics of a single test. For fewer than \<open>2 ^ 64\<close> results, \<open>single_test_stats\<close> has an answer exactly when all results
  carry one test name and some run was completed; it is the numbers of passed and failed runs, their sum,
  and the total duration of those runs.\<close>

theorem single_test_stats_correct:
  assumes "rs = concat (map cr_tests cs)" and "length rs < 2 ^ 64"
  shows "single_test_stats cs =
    (if (\<forall>a \<in> set rs. \<forall>b \<in> set rs. fst a = fst b) \<and> (\<exists>a \<in> set rs. status (snd a) = Passed \<or> status (snd a) = Failed)
     then Some \<lparr> completed = of_nat (length (ran Passed rs) + length (ran Failed rs)),
                 ss_passed = of_nat (length (ran Passed rs)), ss_failed = of_nat (length (ran Failed rs)),
                 ss_duration = sum_list (map (\<lambda>nr. duration (snd nr))
                   (filter (\<lambda>nr. status (snd nr) = Passed \<or> status (snd nr) = Failed) rs)) \<rparr>
     else None)"
proof -
  let ?c = "length (ran Passed rs) + length (ran Failed rs)"
  have "?c = length (filter (\<lambda>nr. status (snd nr) = Passed \<or> status (snd nr) = Failed) rs)"
    unfolding ran_def by (induction rs) auto
  also have "\<dots> < 2 ^ 64" using assms(2) by (rule le_less_trans [OF length_filter_le])
  finally have "(of_nat ?c :: u64) = 0 \<longleftrightarrow> ?c = 0" by (rule u64_eq_0)
  moreover have "?c = 0 \<longleftrightarrow> \<not> (\<exists>a \<in> set rs. status (snd a) = Passed \<or> status (snd a) = Failed)"
    by (auto simp: ran_def filter_empty_conv)
  moreover have "(\<forall>nr \<in> set rs. fst nr = fst (hd rs)) \<longleftrightarrow> (\<forall>a \<in> set rs. \<forall>b \<in> set rs. fst a = fst b)"
    by (cases "rs = []") (simp, metis hd_in_set)
  ultimately have cond: "(of_nat ?c :: u64) = 0 \<longleftrightarrow> \<not> (\<exists>a \<in> set rs. status (snd a) = Passed \<or> status (snd a) = Failed)"
    and names: "(\<forall>nr \<in> set rs. fst nr = fst (hd rs)) \<longleftrightarrow> (\<forall>a \<in> set rs. \<forall>b \<in> set rs. fst a = fst b)"
    by (simp_all only:)
  let ?stats = "\<lparr> completed = of_nat ?c, ss_passed = of_nat (length (ran Passed rs)),
    ss_failed = of_nat (length (ran Failed rs)), ss_duration = sum_list (map (\<lambda>nr. duration (snd nr))
      (filter (\<lambda>nr. status (snd nr) = Passed \<or> status (snd nr) = Failed) rs)) \<rparr> :: SingleTestStats"
  have "add_stats \<lparr> completed = 0, ss_passed = 0, ss_failed = 0, ss_duration = 0 \<rparr> rs = ?stats"
    by (simp add: add_stats_def)
  then have "single_test_stats cs =
      (if \<forall>nr \<in> set rs. fst nr = fst (hd rs) then if (of_nat ?c :: u64) \<noteq> 0 then Some ?stats else None else None)"
    unfolding single_test_stats_def assms(1) [symmetric] stats_loop_eq by simp
  then show ?thesis unfolding names cond by (simp only: if_cancel split: if_split) blast
qed

theorem single_test_stats_correct_witness:
  "single_test_stats
     [\<lparr> cr_id = ''c0'', cr_message = [], cr_tests = [(''t'', \<lparr> status = Passed, starttime = 0, duration = 60 \<rparr>)] \<rparr>,
      \<lparr> cr_id = ''c1'', cr_message = [], cr_tests = [(''t'', \<lparr> status = Failed, starttime = 0, duration = 120 \<rparr>)] \<rparr>,
      \<lparr> cr_id = ''c2'', cr_message = [], cr_tests = [(''t'', \<lparr> status = Inprogress, starttime = 0, duration = 0 \<rparr>)] \<rparr>] =
   Some \<lparr> completed = 2, ss_passed = 1, ss_failed = 1, ss_duration = 180 \<rparr>"
  by (subst single_test_stats_correct [OF HOL.refl]) (simp_all add: ran_def)

text \<open>The views a request with a \<open>Ci\<close> can reach in JSON: what they answer is JSON, and the only one that can
  panic is the commit view on an empty answer of the query.\<close>

lemma fail_json: "ci_json ci \<Longrightarrow> json_ok (fail_response E ci e)"
  by (simp add: fail_response_def json_error_def)

lemma query_error_message:
  assumes "ci_branch_get_results C http G now ci d = (Inl e, d')"
    and "query_target (ci_user ci) (ci_branch ci) (ci_commit_id ci) \<noteq> None"
  shows "\<exists>msg. query_message E e = Some msg"
  using assms by (auto simp: ci_branch_get_results_def branch_get_results_def query_message_def Let_def split: option.splits)

lemma ci_commit_json_cases:
  assumes "ci_json ci" and "ci_commit_id ci \<noteq> None" and "ci_commit C http G tool lock E now ci d = (r, d')"
  shows "if fst (ci_branch_get_results C http G now ci d) = Inr [] then r = None else \<exists>x. r = Some x \<and> json_ok x"
proof -
  obtain q d1 where q: "ci_branch_get_results C http G now ci d = (q, d1)" by fastforce
  have "query_target (ci_user ci) (ci_branch ci) (ci_commit_id ci) \<noteq> None"
    using assms(2) by (auto simp: query_target_def)
  then show ?thesis
    using assms(1,3) q query_error_message [of C http G now ci d _ d1 E] fail_json [OF assms(1)]
    by (cases q) (auto simp: ci_commit_def json_response_def split: list.splits)
qed

lemma ci_log_json:
  assumes "ci_json ci" and "ci_user ci \<noteq> None" and "ci_branch ci \<noteq> None" and "ci_log C http G E now ci d = (r, d')"
  shows "\<exists>x. r = Some x \<and> json_ok x"
proof -
  obtain q d1 where q: "ci_branch_get_results C http G now ci d = (q, d1)" by fastforce
  have "query_target (ci_user ci) (ci_branch ci) (ci_commit_id ci) \<noteq> None"
    using assms(2,3) by (auto simp: query_target_def split: option.splits)
  then show ?thesis
    using assms q query_error_message [of C http G now ci d _ d1 E] fail_json [OF assms(1)]
    by (cases q) (auto simp: ci_log_def json_response_def)
qed

lemma ci_user_json: "ci_json ci \<Longrightarrow> ci_user ci \<noteq> None \<Longrightarrow> \<exists>x. ci_user_page E ci = Some x \<and> json_ok x"
  by (auto simp: ci_user_page_def json_response_def json_error_def fail_response_def split: option.splits sum.splits)

text \<open>C19: The JSON contract. A request with \<open>format=json\<close> (not for the status page), on a server whose results directory and
  repository can be opened, is answered with JSON: with status 200 and a value, or with status 500 and an error object; with one exception, exactly:
  a request for a commit of a user whose query gives no commit at all, neither an error, panics and gets
  no answer.\<close>

theorem cgi_json_contract:
  assumes "regex_ok E" and "query = map_of (rev (querify E (cgi_header_get headers ''x-cgi-query-string'')))"
    and "query ''format'' = Some ''json''" and "\<not> wants_status (cgi_header_get headers ''x-cgi-query-string'')"
    and "path_exists d []" and "open_repo G (request_repo rc query)"
    and "cgi_main C http G tool lock E (Inr rc) now headers d = (r, d')"
  shows "\<exists>ci. make_ci E headers rc (request_repo rc query) query = Some ci \<and>
    (if query ''user'' \<noteq> None \<and> query ''commit'' \<noteq> None \<and> fst (ci_branch_get_results C http G now ci d) = Inr []
     then r = None else (\<exists>x. r = Some x \<and> json_ok x))"
proof -
  obtain ci where ci: "make_ci E headers rc (request_repo rc query) query = Some ci"
    using assms(1) by (cases "regex_new E (unwrap_or (query ''test'') [])") (auto simp: make_ci_def Let_def regex_ok_def)
  then have f: "ci_json ci" "ci_user ci = query ''user''" "ci_commit_id ci = query ''commit''"
    using assms(3) by (auto simp: make_ci_def Let_def split: option.splits)
  have run: "(if ci_user ci \<noteq> None then
        (if ci_commit_id ci \<noteq> None then ci_commit C http G tool lock E now ci d
         else if ci_branch ci \<noteq> None then ci_log C http G E now ci d
         else (ci_user_page E ci, d))
      else (Some (ci_home ci), d)) = (r, d')"
    using assms(4-7) ci unfolding cgi_main_def Let_def assms(2) [symmetric] by simp
  have home: "json_ok (ci_home ci)" using f(1) by (simp add: ci_home_def json_response_def)
  show ?thesis
  proof (cases "ci_user ci = None \<or> ci_commit_id ci = None")
    case True
    then have "\<exists>x. r = Some x \<and> json_ok x"
      using run home ci_user_json [OF f(1)] ci_log_json [OF f(1)] by (fastforce split: if_splits)
    then show ?thesis using ci True f(2,3) by auto
  next
    case False
    then show ?thesis
      using run ci f(2,3) ci_commit_json_cases [OF f(1), of C http G tool lock E now d r d'] by (auto split: if_splits)
  qed
qed

text \<open>A query string parser and regular expressions that meet the assumption (a search for the text itself).\<close>

definition sample_querify :: "string \<Rightarrow> (string \<times> string) list" where
  "sample_querify s =
     map (\<lambda>p. (takeWhile (\<lambda>c. c \<noteq> CHR ''='') p, drop 1 (dropWhile (\<lambda>c. c \<noteq> CHR ''='') p)))
       (filter (\<lambda>p. CHR ''='' \<in> set p) (split_on CHR ''&'' s))"

definition sample_cgi :: cgi_env where
  "sample_cgi =
     \<lparr> querify = sample_querify, regex_new = (\<lambda>r. Some (\<lambda>n. str_contains n r)), show_config_error = (\<lambda>_. ''e''),
       show_user_error = (\<lambda>_. ''e''), show_open_error = (\<lambda>_. ''e''), show_walk_error = (\<lambda>_. ''e''),
       debug_output_dir = ''d'', debug_env = ''v'' \<rparr>"

lemma sample_cgi_ok: "regex_ok sample_cgi"
proof -
  have "str_contains n []" for n by (cases n) auto
  then show ?thesis by (simp add: regex_ok_def sample_cgi_def)
qed

lemma split_query:
  assumes "kvs \<noteq> []" and "\<forall>(k, v) \<in> set kvs. query_word k \<and> query_word v"
  shows "split_on CHR ''&'' (query_text kvs) = map (\<lambda>(k, v). k @ ''='' @ v) kvs"
  unfolding query_text_def using assms by (intro split_on_join) (auto simp: query_word_def)

lemma sample_querify_ok: "querify_ok sample_cgi"
  unfolding querify_ok_def
proof (intro allI impI)
  fix kvs :: "(string \<times> string) list"
  assume kvs: "kvs \<noteq> [] \<and> (\<forall>(k, v) \<in> set kvs. query_word k \<and> query_word v)"
  have "sample_querify (query_text kvs) = kvs"
    unfolding sample_querify_def split_query [OF conjunct1 [OF kvs] conjunct2 [OF kvs]] filter_map map_map
    using kvs
    by (subst filter_True) (auto simp: query_word_def cut_at_sep intro!: map_idI)
  then show "querify sample_cgi (query_text kvs) = kvs" by (simp add: sample_cgi_def)
qed

definition sample_headers :: "string \<Rightarrow> string \<Rightarrow> string option option" where
  "sample_headers qs name = (if name = ''x-cgi-query-string'' then Some (Some qs) else None)"

theorem cgi_json_contract_witness:
  "\<exists>r d'. cgi_main sample_capnp (\<lambda>_ _. None) sample_git sample_tool True sample_cgi (Inr sample_rc) 0
      (sample_headers ''user=kent&format=json'') sample_branch_disk = (Some r, d') \<and> json_ok r"
proof -
  let ?h = "sample_headers ''user=kent&format=json''"
  have qs: "cgi_header_get ?h ''x-cgi-query-string'' = ''user=kent&format=json''"
    by (simp add: cgi_header_get_def sample_headers_def)
  have q: "querify sample_cgi ''user=kent&format=json'' = [(''user'', ''kent''), (''format'', ''json'')]"
    unfolding sample_cgi_def by (simp add: sample_querify_def)
  have w: "\<not> wants_status ''user=kent&format=json''" by (simp add: wants_status_def)
  have g: "open_repo sample_git p" for p by (simp add: sample_git_def)
  have p: "path_exists sample_branch_disk []" by (simp add: path_exists_def sample_branch_disk_def)
  have "\<exists>r. cgi_main sample_capnp (\<lambda>_ _. None) sample_git sample_tool True sample_cgi (Inr sample_rc) 0 ?h sample_branch_disk =
      (Some r, sample_branch_disk)"
    unfolding cgi_main_def Let_def qs q
    using w g p
    by (simp add: make_ci_def sample_cgi_def ci_user_page_def sample_rc_def fail_response_def)
  then obtain r where run: "cgi_main sample_capnp (\<lambda>_ _. None) sample_git sample_tool True sample_cgi (Inr sample_rc) 0 ?h
      sample_branch_disk = (Some r, sample_branch_disk)" by blast
  have "map_of (rev [(''user'', ''kent''), (''format'', ''json'')]) ''format'' = Some ''json''" by simp
  from cgi_json_contract [OF sample_cgi_ok HOL.refl, of ?h, unfolded qs q, OF this w p g run]
  have "json_ok r" by (auto split: if_splits)
  with run show ?thesis by blast
qed

text \<open>C20: The commit view in JSON. When the requested commit has matching results, the answer is that commit with
  its message and exactly the matching results of its file. When no commit of the walk has any, the view
  panics instead of answering.\<close>

theorem ci_commit_json:
  assumes "ci_json ci" and "ci_commit_id ci = Some commit" and "git_get_commit G (ci_repo ci) commit = Some tip"
    and "walk G (ci_repo ci) tip = Some ids"
    and "(c, msg) # cs = walk_commits G (ci_repo ci) (commit_depth (ktest (ci_rc ci))) ids"
    and "ci_commit C http G tool lock E now ci d = (r, d')"
  shows "(any_recorded C d' (tests_match ci) c \<longrightarrow>
      (\<exists>ts. r = Some (JsonR 200 (JCommit \<lparr> ct_commit = c, ct_message = msg, ct_tests = map test_entry ts \<rparr>)) \<and>
         (\<forall>k. bt_get ts k = (if tests_match ci k then recorded C d' c k else None)))) \<and>
    ((\<forall>i \<in> set ((c, msg) # cs). \<not> any_recorded C d' (tests_match ci) (fst i)) \<longrightarrow> r = None)"
proof -
  let ?cs = "(c, msg) # cs"
  have "query_target (ci_user ci) (ci_branch ci) (ci_commit_id ci) = Some commit"
    using assms(2) by (simp add: query_target_def)
  from branch_get_results_spec [OF this assms(3-5), of C http "tests_match ci" now d] obtain rs d1
    where run: "branch_get_results C http G (ci_repo ci) (ktest (ci_rc ci)) (ci_user ci) (ci_branch ci) (ci_commit_id ci)
        (tests_match ci) now d = (Inr rs, d1)"
      and len: "length rs \<le> length ?cs"
      and at: "\<forall>i < length rs. cr_id (rs ! i) = fst (?cs ! i) \<and> cr_message (rs ! i) = snd (?cs ! i) \<and>
        (\<forall>k. bt_get (cr_tests (rs ! i)) k = (if tests_match ci k then recorded C d1 (fst (?cs ! i)) k else None))"
      and last: "rs \<noteq> [] \<longrightarrow> cr_tests (last rs) \<noteq> []"
      and miss: "\<forall>i. length rs \<le> i \<and> i < length ?cs \<and> any_recorded C d1 (tests_match ci) (fst (?cs ! i)) \<longrightarrow>
        (\<exists>j. length rs \<le> j \<and> j + 101 \<le> i \<and>
          (\<forall>t \<in> {j..<j + 101}. \<not> any_recorded C d1 (tests_match ci) (fst (?cs ! t))))"
    by (elim exE conjE) (rule that)
  have r: "d' = d1" "r = (case rs of [] \<Rightarrow> None | x # _ \<Rightarrow> Some (json_response (JCommit (commit_tests x))))"
    using assms(1,6) run by (auto simp: ci_commit_def ci_branch_get_results_def split: list.splits)
  have "r = None" if none: "\<forall>i \<in> set ?cs. \<not> any_recorded C d' (tests_match ci) (fst i)"
  proof -
    have "rs = []"
      using answer_empty [OF len _ last] at none r(1) by (fastforce simp: any_recorded_def)
    then show ?thesis using r(2) by simp
  qed
  moreover have "\<exists>ts. r = Some (JsonR 200 (JCommit \<lparr> ct_commit = c, ct_message = msg, ct_tests = map test_entry ts \<rparr>)) \<and>
      (\<forall>k. bt_get ts k = (if tests_match ci k then recorded C d' c k else None))"
    if "any_recorded C d' (tests_match ci) c"
  proof -
    have "rs \<noteq> []" using miss [rule_format, of 0] that r(1) by auto
    then obtain x xs where x: "rs = x # xs" by (cases rs) auto
    then have "cr_id x = c" "cr_message x = msg"
      "\<forall>k. bt_get (cr_tests x) k = (if tests_match ci k then recorded C d1 c k else None)"
      using at [rule_format, of 0] by simp_all
    then show ?thesis using r x by (auto simp: json_response_def commit_tests_def)
  qed
  ultimately show ?thesis by blast
qed

definition sample_ci :: Ci where
  "sample_ci =
     \<lparr> ci_rc = sample_rc, ci_repo = ''/linux'', stylesheet = [], script_name = [], ci_user = Some ''kent'',
       ci_branch = Some ''master'', ci_commit_id = Some ''c0'', tests_matching = [], tests_match = (\<lambda>_. True), ci_json = True \<rparr>"

theorem ci_commit_json_witness:
  "fst (ci_commit sample_capnp (\<lambda>_ _. None) sample_git sample_tool True sample_cgi 0 sample_ci
     \<lparr> tree = Dir [], fault = (\<lambda>_ _. False) \<rparr>) = None"
proof -
  let ?d = "\<lparr> tree = Dir [], fault = (\<lambda>_ _. False) \<rparr>"
  obtain r d' where run: "ci_commit sample_capnp (\<lambda>_ _. None) sample_git sample_tool True sample_cgi 0 sample_ci ?d = (r, d')"
    by fastforce
  have none: "commitdir_get_results sample_capnp ?d c = None" for c
    by (simp add: commitdir_get_results_def commit_read_capnp_def read_file_def capnp_name_def)
  have cs: "[(''c0'', ''msg''), (''c1'', ''msg'')] =
      walk_commits sample_git (ci_repo sample_ci) (commit_depth (ktest (ci_rc sample_ci))) [Some ''c0'', None, Some ''c1'']"
    by (simp add: walk_commits_def commit_depth_def sample_ci_def sample_rc_def sample_ktestrc_def sample_git_def
        map_filter_simps)
  have "d' = ?d"
    using run none
    by (auto simp: ci_commit_def ci_branch_get_results_def branch_get_results_def Let_def sample_ci_def sample_rc_def
        sample_ktestrc_def query_target_def split: option.splits list.splits)
  then have "\<not> any_recorded sample_capnp d' P c" for P c by (simp add: any_recorded_def recorded_def none)
  then show ?thesis
    using ci_commit_json [OF _ _ _ _ cs run, of "''c0''" "''c0''"] run
    by (simp add: sample_ci_def git_get_commit_def sample_git_def)
qed

end
