(* ===== verification/Ci_Status.thy ===== *)
theory Ci_Status
  imports Cgi
begin

text \<open>
  The command line client (\<open>src/bin/ci-status.rs\<close>): the queries against local state, the queries against
  the dashboard's JSON interface, and what is printed on standard output (notes on standard error are
  not modelled; what was printed before a panic is not kept). A command ends with its output, an error that is printed, or a panic. HTTP, JSON, Brotli,
  JSON5 and \<open>scp\<close> are the parameter \<open>W\<close>.
\<close>

section \<open>Data\<close>

record cli_world =
  w_serde :: serde
  w_http :: http
  decompress :: "bytes \<Rightarrow> string option"
  scp :: "string \<Rightarrow> string \<Rightarrow> disk \<Rightarrow> bool option \<times> disk"
  json5 :: "string \<Rightarrow> RawUserrc option"

datatype command = LogCmd string | ShowCmd string | BranchesCmd | LogsCmd string "string option" bool
  | PullConfig | PushConfig

record cli_args =
  a_command :: command
  a_local :: bool
  a_remote :: "string option"
  a_user :: "string option"
  a_dashboard :: string
  a_branch :: "string option"
  a_json :: bool

datatype cli_error =
    Request string
  | ServerError string
  | HttpStatus nat string
  | HtmlNotJson
  | BadJson
  | CantResolve string
  | OpeningRepo string
  | ReadingResults
  | NoTestResults string
  | Ambiguous string nat
  | Query query_error
  | NoResultsFile string
  | CiHostNotSet
  | ScpFailed
  | NoLocalConfig
  | NoUserConfig
  | BadUserConfig user_error
  | ReadingLog
  | BadBrotli
  | NoCiUrl
  | NoTestMatching string string
  | NeedsBranch
  | Unsupported
  | BadKtestrc rc_error

datatype cli = Printed "piece list" | Bailed cli_error | CliPanic

section \<open>Server mode\<close>

definition is_success :: "nat \<Rightarrow> bool" where
  "is_success code \<longleftrightarrow> 200 \<le> code \<and> code < 300"

definition server_get :: "cli_world \<Rightarrow> (bytes \<Rightarrow> 'a option) \<Rightarrow> string \<Rightarrow> cli_error + 'a" where
  "server_get W from_slice u =
     (case w_http W u None of
        None \<Rightarrow> Inl (Request u)
      | Some (code, body) \<Rightarrow>
          if \<not> is_success code then
            (case from_error (w_serde W) body of
               Some e \<Rightarrow> Inl (ServerError e)
             | None \<Rightarrow> Inl (HttpStatus code u))
          else if starts_with body ''<'' then Inl HtmlNotJson
          else (case from_slice body of None \<Rightarrow> Inl BadJson | Some v \<Rightarrow> Inr v))"

definition server_log :: "cli_world \<Rightarrow> string \<Rightarrow> string \<Rightarrow> string \<Rightarrow> cli_error + BranchEntry list" where
  "server_log W dashboard user branch =
     server_get W (from_entries (w_serde W)) (dashboard @ ''?user='' @ user @ ''&branch='' @ branch @ ''&format=json'')"

definition server_show :: "cli_world \<Rightarrow> string \<Rightarrow> string \<Rightarrow> string \<Rightarrow> string \<Rightarrow> cli_error + CommitTests" where
  "server_show W dashboard user branch commit =
     server_get W (from_commit (w_serde W))
       (dashboard @ ''?user='' @ user @ ''&branch='' @ branch @ ''&commit='' @ commit @ ''&format=json'')"

definition server_branches :: "cli_world \<Rightarrow> string \<Rightarrow> string \<Rightarrow> cli_error + UserBranches" where
  "server_branches W dashboard user =
     server_get W (from_user (w_serde W)) (dashboard @ ''?user='' @ user @ ''&format=json'')"

section \<open>Colours\<close>

definition ansi :: "string \<Rightarrow> string \<Rightarrow> string" where
  "ansi code s = [CHR 0x1B] @ ''['' @ code @ ''m'' @ s @ [CHR 0x1B] @ ''[0m''"

definition color_passed :: "string \<Rightarrow> string" where "color_passed s = ansi ''32'' s"
definition color_failed :: "string \<Rightarrow> string" where "color_failed s = ansi ''31'' s"
definition color_inprog :: "string \<Rightarrow> string" where "color_inprog s = ansi ''33'' s"
definition color_dim :: "string \<Rightarrow> string" where "color_dim s = ansi ''2'' s"

definition color_status :: "TestStatus \<Rightarrow> string" where
  "color_status st =
     (let s = to_str st
      in case st of
           Passed \<Rightarrow> color_passed s
         | Failed \<Rightarrow> color_failed s
         | Inprogress \<Rightarrow> color_inprog s
         | _ \<Rightarrow> color_dim s)"

section \<open>Resolving names\<close>

definition resolve_branch :: "git2 \<Rightarrow> string \<Rightarrow> Ktestrc \<Rightarrow> string \<Rightarrow> cli_error + string" where
  "resolve_branch G rp rc name =
     (let as_is = (if revparse_single G rp name \<noteq> None then Inr name else Inl (CantResolve name))
      in case ci_remote rc of
           None \<Rightarrow> as_is
         | Some remote \<Rightarrow>
             (let with_remote = remote @ ''/'' @ name
              in if revparse_single G rp with_remote \<noteq> None then Inr with_remote else as_is))"

definition user_config_path :: path where
  "user_config_path = [''ci-user.json5'']"

definition branch_repo_path :: "cli_world \<Rightarrow> Ktestrc \<Rightarrow> disk \<Rightarrow> string \<Rightarrow> string" where
  "branch_repo_path W rc d branch =
     unwrap_or
       (case read_file d user_config_path of
          None \<Rightarrow> None
        | Some (config, _) \<Rightarrow>
            (case userrc_read_str (json5 W) config of
               Inl _ \<Rightarrow> None
             | Inr userrc \<Rightarrow> Option.bind (bt_get (branches userrc) branch) (\<lambda>b. repo_path rc (repo b))))
       (linux_repo rc)"

definition open_branch_repo :: "cli_world \<Rightarrow> git2 \<Rightarrow> Ktestrc \<Rightarrow> disk \<Rightarrow> string \<Rightarrow> cli_error + string" where
  "open_branch_repo W G rc d branch =
     (let p = branch_repo_path W rc d branch
      in if open_repo G p then Inr p else Inl (OpeningRepo p))"

definition resolve_commit_prefix :: "disk \<Rightarrow> string \<Rightarrow> cli_error + string" where
  "resolve_commit_prefix d pre =
     (if length pre \<ge> 40 then Inr pre
      else
        (case read_dir d [] of
           None \<Rightarrow> Inl ReadingResults
         | Some names \<Rightarrow>
             (let matches = remdups_adj (sort (filter (\<lambda>n. length n = 40 \<and> starts_with n pre) names))
              in case matches of
                   [] \<Rightarrow> Inl (NoTestResults pre)
                 | [m] \<Rightarrow> Inr m
                 | _ \<Rightarrow> Inl (Ambiguous pre (length matches)))))"

section \<open>Printing\<close>

definition println :: "piece list \<Rightarrow> piece list" where
  "println ps = writeln ps"

definition log_line :: "string \<Rightarrow> string \<Rightarrow> string \<Rightarrow> string \<Rightarrow> string \<Rightarrow> piece list \<Rightarrow> string \<Rightarrow> piece list" where
  "log_line c p f r i dur msg =
     println ([Str (pad_right 14 c @ '' '' @ pad_left 6 p @ '' '' @ pad_left 6 f @ '' '' @ pad_left 6 r @ '' '' @
       pad_left 6 i @ '' ''), PadLeft 8 dur, Str (''  '' @ msg)])"

text \<open>One row; the two slices can panic.\<close>

definition log_entry :: "BranchEntry \<Rightarrow> piece list option" where
  "log_entry e =
     (let subject = first_line (be_message e);
          subject = (if length subject > 50 then slice_to subject 50 else Some subject);
          commit = (if length (be_commit_id e) \<ge> 12 then slice_to (be_commit_id e) 12 else Some (be_commit_id e));
          pass_s = show_nat (unat (be_passed e));
          fail_s = show_nat (unat (be_failed e))
      in case (subject, commit) of
           (Some subject, Some commit) \<Rightarrow>
             Some (log_line commit (if be_passed e > 0 then color_passed pass_s else pass_s)
               (if be_failed e > 0 then color_failed fail_s else fail_s)
               (show_nat (unat (be_failed_to_run e))) (show_nat (unat (be_inprogress e)))
               (format_duration (be_duration e)) subject)
         | _ \<Rightarrow> None)"

definition render_log :: "cli_world \<Rightarrow> BranchEntry list \<Rightarrow> string \<Rightarrow> bool \<Rightarrow> cli" where
  "render_log W es branch js =
     (if js then Printed (println [Str (to_json (w_serde W) (JEntries es))])
      else if es = [] then Printed (println [Str (''No results for '' @ branch)])
      else
        (case concat_rows (map log_entry es) of
           None \<Rightarrow> CliPanic
         | Some rows \<Rightarrow>
             Printed (log_line ''COMMIT'' ''PASS'' ''FAIL'' ''FTRUN'' ''INPRO'' [Str ''DURATION''] ''MESSAGE'' @
               println [Str (replicate 80 CHR ''-'')] @ rows)))"

fun status_rank :: "TestStatus \<Rightarrow> nat" where
  "status_rank Failed = 0"
| "status_rank Inprogress = 1"
| "status_rank Notrun = 2"
| "status_rank Unknown = 3"
| "status_rank FailedToRun = 4"
| "status_rank Passed = 5"

definition shown_order :: "TestEntry list \<Rightarrow> TestEntry list" where
  "shown_order ts = sort_key (\<lambda>t. status_rank (from_str (te_status t))) ts"

definition count_entries :: "TestEntry list \<Rightarrow> TestStatus \<Rightarrow> nat" where
  "count_entries ts s = length (filter (\<lambda>t. from_str (te_status t) = s) ts)"

definition show_line :: "string \<Rightarrow> string \<Rightarrow> piece list \<Rightarrow> piece list" where
  "show_line n s dur = println [Str (pad_right 60 n @ '' '' @ pad_left 12 s @ '' ''), PadLeft 8 dur]"

definition render_show :: "cli_world \<Rightarrow> CommitTests \<Rightarrow> bool \<Rightarrow> cli" where
  "render_show W detail js =
     (if js then Printed (println [Str (to_json (w_serde W) (JCommit detail))])
      else
        (let header =
               (if ct_message detail \<noteq> [] then
                  println [Str (ct_commit detail @ '' '' @ first_line (ct_message detail))] @ println []
                else [])
         in if ct_tests detail = [] then
              Printed (header @ println [Str (''No test results for '' @ ct_commit detail)])
            else
              Printed (header @ show_line ''TEST'' ''STATUS'' [Str ''DURATION''] @
                println [Str (replicate 82 CHR ''-'')] @
                concat (map (\<lambda>t. show_line (te_name t) (color_status (from_str (te_status t)))
                  (format_duration (te_duration t))) (shown_order (ct_tests detail))) @
                println [] @
                println ([Str (show_nat (length (ct_tests detail)) @ '' total: '' @
                  color_passed (show_nat (count_entries (ct_tests detail) Passed)) @ '' passed, '' @
                  color_failed (show_nat (count_entries (ct_tests detail) Failed)) @ '' failed, '' @
                  show_nat (count_entries (ct_tests detail) Inprogress) @ '' in progress, '')] @
                  format_duration (sum_list (map (\<lambda>t. te_duration t) (ct_tests detail)))))))"

section \<open>Commands\<close>

definition cmd_log :: "capnp \<Rightarrow> cli_world \<Rightarrow> git2 \<Rightarrow> int \<Rightarrow> string \<Rightarrow> Ktestrc \<Rightarrow> bool \<Rightarrow> disk \<Rightarrow> cli \<times> disk" where
  "cmd_log C W G now branch rc js d =
     (case open_branch_repo W G rc d branch of
        Inl e \<Rightarrow> (Bailed e, d)
      | Inr rp \<Rightarrow>
          (case resolve_branch G rp rc branch of
             Inl e \<Rightarrow> (Bailed e, d)
           | Inr gitref \<Rightarrow>
               (case branch_get_results C (w_http W) G rp rc None None (Some gitref) (\<lambda>_. True) now d of
                  (Inl e, d) \<Rightarrow> (Bailed (Query e), d)
                | (Inr results, d) \<Rightarrow> (render_log W (branch_entries results) branch js, d))))"

definition cmd_show :: "capnp \<Rightarrow> cli_world \<Rightarrow> int \<Rightarrow> string \<Rightarrow> Ktestrc \<Rightarrow> bool \<Rightarrow> disk \<Rightarrow> cli \<times> disk" where
  "cmd_show C W now commit rc js d =
     (case resolve_commit_prefix d commit of
        Inl e \<Rightarrow> (Bailed e, d)
      | Inr commit \<Rightarrow>
          (case commitdir_get_results_full C (w_http W) rc now d commit of
             (None, d) \<Rightarrow> (Bailed (NoResultsFile commit), d)
           | (Some full, d) \<Rightarrow>
               (render_show W \<lparr> ct_commit = commit, ct_message = crc_message full,
                  ct_tests = map test_entry (tests_of full) \<rparr> js, d)))"

definition ci_scp_path :: "Ktestrc \<Rightarrow> cli_error + string" where
  "ci_scp_path rc = (case ci_host rc of None \<Rightarrow> Inl CiHostNotSet | Some h \<Rightarrow> Inr (h @ '':ci.json5''))"

definition config_dest :: "Ktestrc \<Rightarrow> string" where
  "config_dest rc = path_join (output_dir rc) ''ci-user.json5''"

definition cmd_pull_config :: "cli_world \<Rightarrow> Ktestrc \<Rightarrow> disk \<Rightarrow> cli \<times> disk" where
  "cmd_pull_config W rc d =
     (case ci_scp_path rc of
        Inl e \<Rightarrow> (Bailed e, d)
      | Inr remote \<Rightarrow>
          (case scp W remote (config_dest rc) (snd (create_dir_all d [])) of
             (Some True, d) \<Rightarrow> (Printed (println [Str (''Config saved to '' @ config_dest rc)]), d)
           | (_, d) \<Rightarrow> (Bailed ScpFailed, d)))"

definition cmd_push_config :: "cli_world \<Rightarrow> Ktestrc \<Rightarrow> disk \<Rightarrow> cli \<times> disk" where
  "cmd_push_config W rc d =
     (case ci_scp_path rc of
        Inl e \<Rightarrow> (Bailed e, d)
      | Inr remote \<Rightarrow>
          if \<not> path_exists d user_config_path then (Bailed NoLocalConfig, d)
          else
            (case scp W (config_dest rc) remote d of
               (Some True, d) \<Rightarrow> (Printed (println [Str (''Config pushed to '' @ remote)]), d)
             | (_, d) \<Rightarrow> (Bailed ScpFailed, d)))"

definition cmd_branches :: "cli_world \<Rightarrow> bool \<Rightarrow> disk \<Rightarrow> cli" where
  "cmd_branches W js d =
     (case read_file d user_config_path of
        None \<Rightarrow> Bailed NoUserConfig
      | Some (config, _) \<Rightarrow>
          (case userrc_read_str (json5 W) config of
             Inl e \<Rightarrow> Bailed (BadUserConfig e)
           | Inr userrc \<Rightarrow>
               if js then
                 Printed (println [Str (to_json (w_serde W) (JBranches
                   (map (\<lambda>(name, b). (name, fetch b, branch_test_groups b)) (branches userrc))))])
               else
                 Printed (concat (map (\<lambda>(name, b).
                   println [Str (pad_right 40 name @ '' '' @ color_dim (join '', '' (branch_test_groups b)))])
                   (branches userrc)))))"

text \<open>\<open>std::fs::read\<close> follows a symbolic link.\<close>

definition read_through :: "disk \<Rightarrow> path \<Rightarrow> bytes option" where
  "read_through d p =
     (case node_at (tree d) p of
        Some (Link l) \<Rightarrow> map_option fst (read_file d (resolve_link (butlast p) l))
      | _ \<Rightarrow> map_option fst (read_file d p))"

definition decompress_brotli :: "cli_world \<Rightarrow> bytes \<Rightarrow> cli_error + string" where
  "decompress_brotli W b = (case decompress W b of None \<Rightarrow> Inl BadBrotli | Some s \<Rightarrow> Inr s)"

definition fetch_log :: "cli_world \<Rightarrow> Ktestrc \<Rightarrow> disk \<Rightarrow> string \<Rightarrow> string \<Rightarrow> bool \<Rightarrow> cli_error + string" where
  "fetch_log W rc d commit test full =
     (let filename = (if full then ''full_log.br'' else ''log.br'')
      in if path_exists d [commit, test, filename] then
           (case read_through d [commit, test, filename] of
              None \<Rightarrow> Inl ReadingLog
            | Some b \<Rightarrow> decompress_brotli W b)
         else
           (case ci_url rc of
              None \<Rightarrow> Inl NoCiUrl
            | Some base \<Rightarrow>
                (let u = base @ ''/'' @ commit @ ''/'' @ test @ ''/'' @ filename
                 in case w_http W u None of
                      None \<Rightarrow> Inl (Request u)
                    | Some (code, body) \<Rightarrow>
                        if \<not> is_success code then Inl (HttpStatus code u) else decompress_brotli W body)))"

text \<open>Which of the matching tests is shown: an exact match, else the first that failed, else the first.\<close>

definition choose_test :: "(string \<times> TestResult) list \<Rightarrow> string \<Rightarrow> string" where
  "choose_test matches needle =
     (if length matches > 1 then
        fst (unwrap_or
          (opt_or (find (\<lambda>nr. fst nr = needle) matches) (find (\<lambda>nr. status (snd nr) = Failed) matches)) (hd matches))
      else fst (hd matches))"

definition list_failed :: "string \<Rightarrow> TestResultsMap \<Rightarrow> cli" where
  "list_failed commit ts =
     (let failed = sort_key fst (filter (\<lambda>nr. status (snd nr) = Failed) ts)
      in case slice_to commit 12 of
           None \<Rightarrow> CliPanic
         | Some short \<Rightarrow>
             if failed = [] then Printed (println [Str (''No failed tests for '' @ short)])
             else
               Printed (println [Str (show_nat (length failed) @ '' failed tests for '' @ short @ '':'')] @ println [] @
                 concat (map (\<lambda>(i, nr). println [Str (''  '' @ pad_left 3 (show_nat (i + 1)) @ ''. '' @ fst nr @ '' ('' @
                   show_nat (unat (duration (snd nr))) @ ''s)'')]) (enumerate 0 failed)) @
                 println [] @ println [Str (''Use: ci-status logs '' @ short @ '' <test-name-or-substring>'')]))"

definition cmd_logs ::
  "capnp \<Rightarrow> cli_world \<Rightarrow> int \<Rightarrow> string \<Rightarrow> string option \<Rightarrow> bool \<Rightarrow> Ktestrc \<Rightarrow> disk \<Rightarrow> cli \<times> disk" where
  "cmd_logs C W now commit test full rc d =
     (case resolve_commit_prefix d commit of
        Inl e \<Rightarrow> (Bailed e, d)
      | Inr commit \<Rightarrow>
          (case commitdir_get_results_full C (w_http W) rc now d commit of
             (None, d) \<Rightarrow> (Bailed (NoResultsFile commit), d)
           | (Some results, d) \<Rightarrow>
               (case test of
                  Some needle \<Rightarrow>
                    (let matches = filter (\<lambda>nr. str_contains (fst nr) needle) (tests_of results)
                     in if matches = [] then
                          (case slice_to commit 12 of
                             None \<Rightarrow> (CliPanic, d)
                           | Some short \<Rightarrow> (Bailed (NoTestMatching needle short), d))
                        else
                          (case fetch_log W rc d commit (choose_test matches needle) full of
                             Inl e \<Rightarrow> (Bailed e, d)
                           | Inr log \<Rightarrow> (Printed [Str log], d)))
                | None \<Rightarrow> (list_failed commit (tests_of results), d))))"

definition run_server :: "cli_world \<Rightarrow> cli_args \<Rightarrow> string \<Rightarrow> cli" where
  "run_server W args user =
     (case a_command args of
        LogCmd branch \<Rightarrow>
          (case server_log W (a_dashboard args) user branch of
             Inl e \<Rightarrow> Bailed e
           | Inr es \<Rightarrow> render_log W es branch (a_json args))
      | ShowCmd commit \<Rightarrow>
          (case a_branch args of
             None \<Rightarrow> Bailed NeedsBranch
           | Some branch \<Rightarrow>
               (case server_show W (a_dashboard args) user branch commit of
                  Inl e \<Rightarrow> Bailed e
                | Inr detail \<Rightarrow> render_show W detail (a_json args)))
      | BranchesCmd \<Rightarrow>
          (case server_branches W (a_dashboard args) user of
             Inl e \<Rightarrow> Bailed e
           | Inr b \<Rightarrow>
               if a_json args then Printed (println [Str (to_json (w_serde W) (JUser b))])
               else Printed (concat (map (\<lambda>name. println [Str name]) (ub_branches b))))
      | _ \<Rightarrow> Bailed Unsupported)"

definition run ::
  "capnp \<Rightarrow> cli_world \<Rightarrow> git2 \<Rightarrow> int \<Rightarrow> cli_args \<Rightarrow> rc_error + Ktestrc \<Rightarrow> disk \<Rightarrow> cli \<times> disk" where
  "run C W G now args ktestrc d =
     (case a_user args of
        Some user \<Rightarrow> (run_server W args user, d)
      | None \<Rightarrow>
          (case ktestrc of
             Inl e \<Rightarrow> (Bailed (BadKtestrc e), d)
           | Inr rc \<Rightarrow>
               (let rc = (case a_remote args of None \<Rightarrow> rc | Some u \<Rightarrow> rc\<lparr>ci_url := Some u\<rparr>)
                in case a_command args of
                     LogCmd branch \<Rightarrow> cmd_log C W G now branch rc (a_json args) d
                   | ShowCmd commit \<Rightarrow> cmd_show C W now commit rc (a_json args) d
                   | LogsCmd commit test full \<Rightarrow> cmd_logs C W now commit test full rc d
                   | BranchesCmd \<Rightarrow> (cmd_branches W (a_json args) d, d)
                   | PullConfig \<Rightarrow> cmd_pull_config W rc d
                   | PushConfig \<Rightarrow> cmd_push_config W rc d)))"

text \<open>\<open>main\<close>: the exit status.\<close>

definition ci_status_main ::
  "capnp \<Rightarrow> cli_world \<Rightarrow> git2 \<Rightarrow> int \<Rightarrow> cli_args \<Rightarrow> rc_error + Ktestrc \<Rightarrow> disk \<Rightarrow> nat \<times> piece list \<times> disk" where
  "ci_status_main C W G now args ktestrc d =
     (case run C W G now args ktestrc d of
        (Printed out, d) \<Rightarrow> (0, out, d)
      | (Bailed _, d) \<Rightarrow> (1, [], d)
      | (CliPanic, d) \<Rightarrow> (101, [], d))"

section \<open>Client and server\<close>

text \<open>The dashboard at \<open>u\<close> gets the query string \<open>qs\<close> as the client wrote it, and its response gets back; JSON values travel
  as their text. This holds of a query string only if no character in it is cut off or encoded on the way, as
  \<open>#\<close> and a space would be.\<close>

definition dashboard_serves :: "cli_world \<Rightarrow> string \<Rightarrow> (string \<Rightarrow> response option) \<Rightarrow> string \<Rightarrow> bool" where
  "dashboard_serves W u answer qs \<longleftrightarrow>
     (\<forall>code j. answer qs = Some (JsonR code j) \<longrightarrow>
        w_http W (u @ ''?'' @ qs) None = Some (code, to_json (w_serde W) j))"

text \<open>What the client makes of a JSON answer: the value, or the message of the error.\<close>

lemma server_get_value:
  assumes "serde_ok (w_serde W)" and "dashboard_serves W u answer qs" and "answer qs = Some (json_response j)"
    and "from_slice (to_json (w_serde W) j) = Some v"
  shows "server_get W from_slice (u @ ''?'' @ qs) = Inr v"
  using assms by (auto simp: server_get_def dashboard_serves_def serde_ok_def is_success_def json_response_def)

lemma server_get_error:
  assumes "serde_ok (w_serde W)" and "dashboard_serves W u answer qs" and "answer qs = Some (json_error e)"
  shows "server_get W from_slice (u @ ''?'' @ qs) = Inl (ServerError e)"
  using assms by (auto simp: server_get_def dashboard_serves_def serde_ok_def is_success_def json_error_def)

lemma serde_reads:
  assumes "serde_ok J"
  shows "from_entries J (to_json J (JEntries es)) = Some es" and "from_commit J (to_json J (JCommit c)) = Some c"
    and "from_user J (to_json J (JUser b)) = Some b"
  using assms unfolding serde_ok_def by blast+

text \<open>The requests of the client: a user, then a branch and a commit, then the format.\<close>

definition client_query :: "string \<Rightarrow> (string \<times> string) list \<Rightarrow> (string \<times> string) list" where
  "client_query user kvs = (''user'', user) # kvs @ [(''format'', ''json'')]"

definition json_ci :: "CiConfig \<Rightarrow> (string \<rightharpoonup> string) \<Rightarrow> string \<Rightarrow> Ci" where
  "json_ci rc q script =
     \<lparr> ci_rc = rc, ci_repo = request_repo rc q, stylesheet = ''bootstrap.min.css'', script_name = script,
       ci_user = q ''user'', ci_branch = q ''branch'', ci_commit_id = q ''commit'',
       tests_matching = [], tests_match = (\<lambda>_. True), ci_json = True \<rparr>"

lemma no_status_page:
  assumes "\<forall>(k, v) \<in> set kvs. query_word k \<and> query_word v" and "''status'' \<notin> fst ` set kvs" and "kvs \<noteq> []"
  shows "\<not> wants_status (query_text kvs)"
proof
  assume "wants_status (query_text kvs)"
  then obtain k v where kv: "(k, v) \<in> set kvs" and "k @ CHR ''='' # v = ''status'' \<or> starts_with (k @ CHR ''='' # v) ''status=''"
    unfolding wants_status_def split_query [OF assms(3,1)] by (auto simp: list_ex_iff)
  then obtain r where "k @ CHR ''='' # v = ''status'' @ CHR ''='' # r"
    using sep_not_free [of "CHR ''=''" "''status''" k v] by (auto elim: prefixE)
  moreover have "CHR ''='' \<notin> set k" using kv assms(1) by (auto simp: query_word_def)
  ultimately have "k = ''status''" using append_sep_inject [of "CHR ''=''" k "''status''" v r] by simp
  then show False using kv assms(2) by force
qed

lemma client_request:
  assumes "querify_ok E" and "regex_ok E" and "path_exists d []"
    and "query_word user" and "\<forall>(k, v) \<in> set kvs. k \<in> {''branch'', ''commit''} \<and> query_word v"
    and "q = map_of (rev (client_query user kvs))" and "open_repo G (request_repo rc q)"
    and "cgi_header_get headers ''x-cgi-query-string'' = query_text (client_query user kvs)"
    and "ci = json_ci rc q (cgi_header_get headers ''x-cgi-script-name'')"
  shows "cgi_main C http G tool lock E (Inr rc) now headers d =
    (if q ''commit'' \<noteq> None then ci_commit C http G tool lock E now ci d
     else if q ''branch'' \<noteq> None then ci_log C http G E now ci d
     else (ci_user_page E ci, d))"
proof -
  have words: "\<forall>(k, v) \<in> set (client_query user kvs). query_word k \<and> query_word v"
    using assms(4,5) by (auto simp: client_query_def query_word_def)
  have ne: "client_query user kvs \<noteq> []" by (simp add: client_query_def)
  have "''status'' \<notin> fst ` set (client_query user kvs)" "''test'' \<notin> fst ` set (client_query user kvs)"
    using assms(5) by (auto simp: client_query_def)
  note st = no_status_page [OF words this(1) ne] and test = this(2)
  have qf: "querify E (query_text (client_query user kvs)) = client_query user kvs"
    using assms(1) words ne unfolding querify_ok_def by blast
  have "q ''test'' = None" using test by (simp add: assms(6) map_of_eq_None_iff)
  moreover have "q ''format'' = Some ''json''" by (simp add: assms(6) client_query_def)
  moreover have "q ''user'' \<noteq> None" by (simp add: assms(6) client_query_def map_of_eq_None_iff image_iff)
  ultimately show ?thesis
    using assms(2,3,7) st
    unfolding cgi_main_def Let_def assms(8,9) qf assms(6) [symmetric]
    by (simp add: make_ci_def json_ci_def regex_ok_def)
qed


text \<open>A text format for the values, as \<open>serde_json\<close> promises it.\<close>

fun get_test_entries :: "string list \<Rightarrow> TestEntry list option" where
  "get_test_entries [] = Some []"
| "get_test_entries (n # s # t # rest) =
     (case (parse_u64 t, get_test_entries rest) of
        (Some t, Some es) \<Rightarrow> Some (\<lparr> te_name = n, te_status = s, te_duration = t \<rparr> # es)
      | _ \<Rightarrow> None)"
| "get_test_entries _ = None"

definition put_test_entry :: "TestEntry \<Rightarrow> string list" where
  "put_test_entry e = [te_name e, te_status e, show_nat (unat (te_duration e))]"

definition sample_serde :: serde where
  "sample_serde =
     \<lparr> to_json = (\<lambda>j. case j of
          JEntries es \<Rightarrow> ''e'' @ concat (map put_str (concat (map put_log_entry es)))
        | JCommit c \<Rightarrow> ''c'' @ concat (map put_str (ct_commit c # ct_message c # concat (map put_test_entry (ct_tests c))))
        | JUser u \<Rightarrow> ''u'' @ concat (map put_str (ub_user u # ub_branches u))
        | JError e \<Rightarrow> ''x'' @ e
        | _ \<Rightarrow> []),
       from_entries = (\<lambda>b. Option.bind (get_strs [] (drop 1 b)) get_log_entries),
       from_commit = (\<lambda>b. case get_strs [] (drop 1 b) of
          Some (c # m # ts) \<Rightarrow> map_option (\<lambda>es. \<lparr> ct_commit = c, ct_message = m, ct_tests = es \<rparr>) (get_test_entries ts)
        | _ \<Rightarrow> None),
       from_user = (\<lambda>b. case get_strs [] (drop 1 b) of
          Some (u # bs) \<Rightarrow> Some \<lparr> ub_user = u, ub_branches = bs \<rparr>
        | _ \<Rightarrow> None),
       from_error = (\<lambda>b. Some (drop 1 b)) \<rparr>"

lemma get_put_test_entries: "get_test_entries (concat (map put_test_entry es)) = Some es"
  by (induction es) (simp_all add: put_test_entry_def decimal_u64.dec_enc)

lemma sample_serde_ok: "serde_ok sample_serde"
proof -
  have "\<not> starts_with (to_json sample_serde j) ''<''" for j
    by (cases j) (auto simp: sample_serde_def)
  moreover have "from_entries sample_serde (to_json sample_serde (JEntries es)) = Some es" for es
    unfolding sample_serde_def by (simp add: get_strs_puts get_log_put)
  moreover have "from_commit sample_serde (to_json sample_serde (JCommit c)) = Some c" for c
    using get_strs_puts [of "ct_commit c # ct_message c # concat (map put_test_entry (ct_tests c))"]
    unfolding sample_serde_def by (simp add: get_put_test_entries)
  moreover have "from_user sample_serde (to_json sample_serde (JUser u)) = Some u" for u
    using get_strs_puts [of "ub_user u # ub_branches u"] unfolding sample_serde_def by simp
  ultimately show ?thesis unfolding serde_ok_def by (simp add: sample_serde_def)
qed

lemma sorted_dedup_distinct: "sorted (xs :: string list) \<Longrightarrow> distinct (remdups_adj xs)"
  by (induction xs rule: remdups_adj.induct) auto

section \<open>Properties\<close>

text \<open>C17: Client and server agree on the log of a branch. When the client's query string reaches the dashboard as it is and the response comes back, the log of the server mode of
  \<open>ci-status\<close> is exactly the roll-up of the results the server finds along the branch; when the query fails on the
  server, the client reports the server's message.\<close>

theorem server_log_agrees:
  assumes "serde_ok (w_serde W)" and "querify_ok E" and "regex_ok E" and "path_exists d []"
    and "query_word user" and "query_word branch"
    and "rp = request_repo rc [''user'' \<mapsto> user, ''branch'' \<mapsto> branch]" and "open_repo G rp"
    and "\<forall>qs. cgi_header_get (headers qs) ''x-cgi-query-string'' = qs"
    and "dashboard_serves W u (\<lambda>qs. fst (cgi_main C http G tool lock E (Inr rc) now (headers qs) d))
      (query_text (client_query user [(''branch'', branch)]))"
    and "branch_get_results C http G rp (ktest rc) (Some user) (Some branch) None (\<lambda>_. True) now d = (res, d')"
  shows "case res of
      Inr rs \<Rightarrow> server_log W u user branch = Inr (branch_entries rs)
    | Inl e \<Rightarrow> \<exists>msg. query_message E e = Some msg \<and> server_log W u user branch = Inl (ServerError msg)"
proof -
  let ?kvs = "[(''branch'', branch)]" and ?q = "map_of (rev (client_query user [(''branch'', branch)]))"
  let ?qs = "query_text (client_query user ?kvs)"
  let ?ci = "json_ci rc ?q (cgi_header_get (headers ?qs) ''x-cgi-script-name'')"
  have q: "?q ''user'' = Some user" "?q ''branch'' = Some branch" "?q ''commit'' = None"
    by (simp_all add: client_query_def)
  have rp: "request_repo rc ?q = rp" by (simp add: assms(7) request_repo_def q)
  have "cgi_main C http G tool lock E (Inr rc) now (headers ?qs) d = ci_log C http G E now ?ci d"
    using client_request [OF assms(2-5) _ HOL.refl _ assms(9) [rule_format] HOL.refl, of ?kvs G rc C http tool lock now]
      assms(6,8) q rp
    by simp
  also have "\<dots> = (case res of
      Inr rs \<Rightarrow> (Some (json_response (JEntries (branch_entries rs))), d')
    | Inl e \<Rightarrow> (map_option json_error (query_message E e), d'))"
    using assms(11) rp q
    by (auto simp: ci_log_def ci_branch_get_results_def json_ci_def fail_response_def [abs_def] split: sum.splits)
  finally have ans: "fst (cgi_main C http G tool lock E (Inr rc) now (headers ?qs) d) = (case res of
      Inr rs \<Rightarrow> Some (json_response (JEntries (branch_entries rs)))
    | Inl e \<Rightarrow> map_option json_error (query_message E e))"
    by (auto split: sum.splits)
  have log: "server_log W u user branch = server_get W (from_entries (w_serde W)) (u @ ''?'' @ ?qs)"
    by (simp add: server_log_def query_text_def client_query_def)
  show ?thesis
  proof (cases res)
    case (Inl e)
    then have "e \<noteq> Panicked"
      using assms(11) by (auto simp: branch_get_results_def query_target_def Let_def split: option.splits)
    then obtain msg where msg: "query_message E e = Some msg" by (cases e) (auto simp: query_message_def)
    have "server_log W u user branch = Inl (ServerError msg)"
      unfolding log by (rule server_get_error [OF assms(1,10)]) (simp add: ans Inl msg)
    then show ?thesis using Inl msg by simp
  next
    case (Inr rs)
    have "server_log W u user branch = Inr (branch_entries rs)"
      unfolding log by (rule server_get_value [OF assms(1,10)], simp add: ans Inr, rule serde_reads(1) [OF assms(1)])
    then show ?thesis using Inr by simp
  qed
qed


text \<open>A dashboard on the sample configuration, and what it finds along the branch.\<close>

definition sample_world :: cli_world where
  "sample_world =
     \<lparr> w_serde = sample_serde,
       w_http = (\<lambda>x _. case fst (cgi_main sample_capnp (\<lambda>_ _. None) sample_git sample_tool True sample_cgi (Inr sample_rc) 0
            (sample_headers (drop (length ''http://ci?'') x)) sample_branch_disk) of
          Some (JsonR code j) \<Rightarrow> Some (code, to_json sample_serde j)
        | _ \<Rightarrow> None),
       decompress = (\<lambda>b. Some b), scp = (\<lambda>_ _ d. (None, d)), json5 = (\<lambda>_. None) \<rparr>"

lemma sample_world_serves:
  "dashboard_serves sample_world ''http://ci'' (\<lambda>qs. fst (cgi_main sample_capnp (\<lambda>_ _. None) sample_git sample_tool True
     sample_cgi (Inr sample_rc) 0 (sample_headers qs) sample_branch_disk)) qs"
  by (simp add: dashboard_serves_def sample_world_def)

lemma sample_branch_query:
  assumes "query_target user branch commit \<noteq> None"
  shows "branch_get_results sample_capnp (\<lambda>_ _. None) sample_git rp sample_ktestrc user branch commit (\<lambda>_. True) 0
     sample_branch_disk =
   (Inr [\<lparr> cr_id = ''c0'', cr_message = ''msg'', cr_tests = [] \<rparr>,
         \<lparr> cr_id = ''c1'', cr_message = ''msg'', cr_tests = [(''t.a'', \<lparr> status = Passed, starttime = 0, duration = 3 \<rparr>)] \<rparr>],
    sample_branch_disk)"
proof -
  have "walk_commits sample_git rp (commit_depth sample_ktestrc) [Some ''c0'', None, Some ''c1''] =
      [(''c0'', ''msg''), (''c1'', ''msg'')]"
    by (simp add: walk_commits_def commit_depth_def sample_ktestrc_def sample_git_def map_filter_simps)
  moreover have "commitdir_get_results sample_capnp sample_branch_disk ''c0'' = None"
    by (simp add: commitdir_get_results_def commit_read_capnp_def read_file_def capnp_name_def sample_branch_disk_def)
  moreover have "git_get_commit sample_git rp r = Some ''c0''" "walk sample_git rp ''c0'' = Some [Some ''c0'', None, Some ''c1'']" for r
    by (simp_all add: git_get_commit_def sample_git_def)
  moreover have "ci_url sample_ktestrc = None" "commit_depth sample_ktestrc = 500"
    by (simp_all add: sample_ktestrc_def commit_depth_def)
  ultimately show ?thesis
    using assms
    by (auto simp: branch_get_results_def sample_branch_results filter_results_def bt_collect_def bt_extend_def pop_empty_def)
qed

theorem server_log_agrees_witness:
  "server_log sample_world ''http://ci'' ''kent'' ''master'' =
     Inr [\<lparr> be_commit_id = ''c1'', be_message = ''msg'', be_passed = 1, be_failed = 0, be_notrun = 0, be_failed_to_run = 0,
            be_inprogress = 0, be_unknown = 0, be_duration = 3 \<rparr>]"
proof -
  have "path_exists sample_branch_disk []" by (simp add: path_exists_def sample_branch_disk_def)
  moreover have "cgi_header_get (sample_headers qs) ''x-cgi-query-string'' = qs" for qs
    by (simp add: cgi_header_get_def sample_headers_def)
  moreover have "serde_ok (w_serde sample_world)" "ktest sample_rc = sample_ktestrc"
    by (simp_all add: sample_world_def sample_serde_ok sample_rc_def)
  moreover have "query_word ''kent''" "query_word ''master''" "open_repo sample_git rp" for rp
    by (simp_all add: query_word_def sample_git_def)
  ultimately show ?thesis
    using server_log_agrees [of sample_world sample_cgi sample_branch_disk "''kent''" "''master''", OF _ sample_querify_ok sample_cgi_ok
        _ _ _ HOL.refl _ _ sample_world_serves] sample_branch_query [of "Some ''kent''" "Some ''master''" None]
    by (simp add: query_target_def branch_entries_def count_status_def)
qed

text \<open>Client and server agree on a commit: when the commit's first entry along the walk is found, \<open>ci-status show\<close> in server
  mode gets that commit with its message and the name, status and duration of each of its results. The list of branches it
  gets is the user's.\<close>

theorem server_show_agrees:
  assumes "serde_ok (w_serde W)" and "querify_ok E" and "regex_ok E" and "path_exists d []"
    and "query_word user" and "query_word branch" and "query_word commit"
    and "rp = request_repo rc [''user'' \<mapsto> user, ''branch'' \<mapsto> branch]" and "open_repo G rp"
    and "\<forall>qs. cgi_header_get (headers qs) ''x-cgi-query-string'' = qs"
    and "dashboard_serves W u (\<lambda>qs. fst (cgi_main C http G tool lock E (Inr rc) now (headers qs) d))
      (query_text (client_query user [(''branch'', branch), (''commit'', commit)]))"
    and "branch_get_results C http G rp (ktest rc) (Some user) (Some branch) (Some commit) (\<lambda>_. True) now d = (Inr (r # rs), d')"
  shows "server_show W u user branch commit = Inr (commit_tests r)"
proof -
  let ?kvs = "[(''branch'', branch), (''commit'', commit)]"
  let ?q = "map_of (rev (client_query user ?kvs))" and ?qs = "query_text (client_query user ?kvs)"
  let ?ci = "json_ci rc ?q (cgi_header_get (headers ?qs) ''x-cgi-script-name'')"
  have q: "?q ''user'' = Some user" "?q ''branch'' = Some branch" "?q ''commit'' = Some commit"
    by (simp_all add: client_query_def)
  have rp: "request_repo rc ?q = rp" by (simp add: assms(8) request_repo_def q)
  have "cgi_main C http G tool lock E (Inr rc) now (headers ?qs) d = ci_commit C http G tool lock E now ?ci d"
    using client_request [OF assms(2-5) _ HOL.refl _ assms(10) [rule_format] HOL.refl, of ?kvs G rc C http tool lock now]
      assms(6,7,9) q rp
    by simp
  also have "\<dots> = (Some (json_response (JCommit (commit_tests r))), d')"
    using assms(12) rp q by (simp add: ci_commit_def ci_branch_get_results_def json_ci_def)
  finally have ans: "fst (cgi_main C http G tool lock E (Inr rc) now (headers ?qs) d) =
      Some (json_response (JCommit (commit_tests r)))"
    by simp
  have "server_show W u user branch commit = server_get W (from_commit (w_serde W)) (u @ ''?'' @ ?qs)"
    by (simp add: server_show_def query_text_def client_query_def)
  also have "\<dots> = Inr (commit_tests r)"
    by (rule server_get_value [OF assms(1,11)], simp add: ans, rule serde_reads(2) [OF assms(1)])
  finally show ?thesis .
qed

theorem server_branches_agrees:
  assumes "serde_ok (w_serde W)" and "querify_ok E" and "regex_ok E" and "path_exists d []"
    and "query_word user" and "open_repo G (linux_repo (ktest rc))"
    and "\<forall>qs. cgi_header_get (headers qs) ''x-cgi-query-string'' = qs"
    and "dashboard_serves W u (\<lambda>qs. fst (cgi_main C http G tool lock E (Inr rc) now (headers qs) d))
      (query_text (client_query user []))"
    and "bt_get (users rc) user = Some (Inr userrc)"
  shows "server_branches W u user = Inr \<lparr> ub_user = user, ub_branches = map fst (branches userrc) \<rparr>"
proof -
  let ?q = "map_of (rev (client_query user []))" and ?qs = "query_text (client_query user [])"
  let ?ci = "json_ci rc ?q (cgi_header_get (headers ?qs) ''x-cgi-script-name'')"
  have q: "?q ''user'' = Some user" "?q ''branch'' = None" "?q ''commit'' = None"
    by (simp_all add: client_query_def)
  have "request_repo rc ?q = linux_repo (ktest rc)" by (simp add: request_repo_def q)
  then have main: "cgi_main C http G tool lock E (Inr rc) now (headers ?qs) d = (ci_user_page E ?ci, d)"
    using client_request [OF assms(2-5) _ HOL.refl _ assms(7) [rule_format] HOL.refl, of "[]" G rc C http tool lock now]
      assms(6) q
    by simp
  have ans: "fst (cgi_main C http G tool lock E (Inr rc) now (headers ?qs) d) =
      Some (json_response (JUser (user_branches_json user userrc)))"
    unfolding main using q assms(9) by (simp add: ci_user_page_def json_ci_def)
  have "server_branches W u user = server_get W (from_user (w_serde W)) (u @ ''?'' @ ?qs)"
    by (simp add: server_branches_def query_text_def client_query_def)
  also have "\<dots> = Inr (user_branches_json user userrc)"
    by (rule server_get_value [OF assms(1,8)], simp add: ans, rule serde_reads(3) [OF assms(1)])
  finally show ?thesis by (simp add: user_branches_json_def)
qed


text \<open>C28: Expanding a commit prefix. A prefix of fewer than 40 characters is expanded to a commit exactly when that commit is the only
  40-character name in the results directory with the prefix; with none it is an error that says so, and with several
  an error with their number. A longer one is taken as it is.\<close>

theorem resolve_commit_prefix_correct:
  assumes "read_dir d [] = Some names" and "M = {n \<in> set names. length n = 40 \<and> starts_with n pre}"
  shows "(length pre \<ge> 40 \<longrightarrow> resolve_commit_prefix d pre = Inr pre) \<and>
    (length pre < 40 \<longrightarrow>
       (\<forall>c. resolve_commit_prefix d pre = Inr c \<longleftrightarrow> M = {c}) \<and>
       (M = {} \<longrightarrow> resolve_commit_prefix d pre = Inl (NoTestResults pre)) \<and>
       (card M \<ge> 2 \<longrightarrow> resolve_commit_prefix d pre = Inl (Ambiguous pre (card M))))"
proof -
  define ms where "ms = remdups_adj (sort (filter (\<lambda>n. length n = 40 \<and> starts_with n pre) names))"
  have "set ms = M" "distinct ms"
    by (auto simp: ms_def assms(2) sorted_dedup_distinct)
  then have M: "M = set ms" "card M = length ms" by (auto simp: distinct_card)
  have eq: "resolve_commit_prefix d pre =
      (case ms of [] \<Rightarrow> Inl (NoTestResults pre) | [m] \<Rightarrow> Inr m | _ \<Rightarrow> Inl (Ambiguous pre (length ms)))" if "length pre < 40"
    using that assms(1) unfolding resolve_commit_prefix_def ms_def Let_def by simp
  consider "ms = []" | m where "ms = [m]" | a b rest where "ms = a # b # rest"
    by (metis list.exhaust)
  then show ?thesis
  proof cases
    case 3
    then have "a \<noteq> b" using \<open>distinct ms\<close> by simp
    then show ?thesis using eq 3 M by (auto simp: resolve_commit_prefix_def)
  qed (use eq M in \<open>auto simp: resolve_commit_prefix_def\<close>)
qed

theorem resolve_commit_prefix_correct_witness:
  "resolve_commit_prefix \<lparr> tree = Dir [(replicate 40 CHR ''a'', Dir []), (replicate 40 CHR ''b'', Dir []),
     (replicate 40 CHR ''a'' @ ''.capnp'', File [] 0)], fault = (\<lambda>_ _. False) \<rparr> ''aa'' = Inr (replicate 40 CHR ''a'')"
proof -
  let ?a = "replicate 40 CHR ''a''" and ?b = "replicate 40 CHR ''b''"
  let ?d = "\<lparr> tree = Dir [(?a, Dir []), (?b, Dir []), (?a @ ''.capnp'', File [] 0)], fault = (\<lambda>_ _. False) \<rparr>"
  have "read_dir ?d [] = Some [?a, ?b, ?a @ ''.capnp'']" by (simp add: read_dir_def)
  moreover have "{n \<in> set [?a, ?b, ?a @ ''.capnp'']. length n = 40 \<and> starts_with n ''aa''} = {?a}"
    by (auto simp: numeral_eq_Suc)
  ultimately show ?thesis
    using resolve_commit_prefix_correct [of ?d _ _ "''aa''", OF _ HOL.refl] by simp
qed

text \<open>When the log cannot be printed. The table of \<open>ci-status log\<close> panics exactly when some entry has a first message line of more than 50
  bytes whose byte 50 is inside a character, or a commit id whose byte 12 is; in every other case, and always with \<open>--json\<close>, it is
  printed.\<close>

theorem render_log_panics:
  "render_log W es branch js = CliPanic \<longleftrightarrow>
     \<not> js \<and> (\<exists>e \<in> set es.
       (length (first_line (be_message e)) > 50 \<and> is_continuation (first_line (be_message e) ! 50)) \<or>
       (length (be_commit_id e) > 12 \<and> is_continuation (be_commit_id e ! 12)))"
proof -
  have row: "log_entry e = None \<longleftrightarrow>
      (length (first_line (be_message e)) > 50 \<and> is_continuation (first_line (be_message e) ! 50)) \<or>
      (length (be_commit_id e) > 12 \<and> is_continuation (be_commit_id e ! 12))" for e
    by (auto simp: log_entry_def Let_def slice_to_def is_char_boundary_def split: option.splits)
  have "concat_rows rs = None \<longleftrightarrow> None \<in> set rs" for rs
    by (induction rs) (auto split: option.splits)
  then have "concat_rows (map log_entry es) = None \<longleftrightarrow> (\<exists>e \<in> set es. log_entry e = None)"
    by (metis (no_types, lifting) imageE image_eqI list.set_map)
  then show ?thesis
    by (auto simp: render_log_def row split: option.splits)
qed

theorem render_log_panics_witness:
  "render_log sample_world
     [\<lparr> be_commit_id = ''c1'', be_message = replicate 49 CHR ''a'' @ [CHR 0xC3, CHR 0xA9], be_passed = 1, be_failed = 0,
        be_notrun = 0, be_failed_to_run = 0, be_inprogress = 0, be_unknown = 0, be_duration = 3 \<rparr>] ''master'' False = CliPanic"
proof -
  have "first_line (replicate 49 CHR ''a'' @ [CHR 0xC3, CHR 0xA9]) = replicate 49 CHR ''a'' @ [CHR 0xC3, CHR 0xA9]"
    by (simp add: first_line_def before_newline_def takeWhile_eq_all_conv [THEN iffD2])
  then show ?thesis
    by (simp add: render_log_panics nth_append is_continuation_def)
qed


end
