(* ===== verification/Syzbot.thy ===== *)
theory Syzbot
  imports Disk
begin

text \<open>
  Downloading the reproducers of a syzbot bug (\<open>src/bin/syzbot-get.rs\<close>). The HTTP client is the parameter \<open>http\<close>
  (the status and the text for a URL, \<open>None\<close> for an error), the JSON reader the parameter \<open>parse_bug\<close>. A panic is the
  result \<open>False\<close>, with the disk as it is then. Paths are from the root of the file system, the
  output directory too. The field
  \<open>--verbose\<close> only prints on standard error.
\<close>

section \<open>Data\<close>

record syz_args =
  s_id :: string
  s_idx :: "nat option"
  s_output :: path
  s_verbose :: bool

record SyzCrash =
  crash_title :: string
  syz_reproducer :: "string option"
  c_reproducer :: "string option"
  kernel_config :: string
  kernel_source_git :: string
  kernel_source_commit :: string
  syzkaller_git :: string
  syzkaller_commit :: string
  crash_report_link :: string

record SyzBug =
  bug_version :: nat
  bug_title :: string
  bug_id :: string
  discussions :: "string list"
  crashes :: "SyzCrash list"

section \<open>Operations\<close>

type_synonym syz_http = "string \<Rightarrow> (nat \<times> string) option"

definition get_syz_url :: "syz_http \<Rightarrow> string \<Rightarrow> string option" where
  "get_syz_url http u = map_option snd (http (''https://syzkaller.appspot.com'' @ u))"

text \<open>\<open>args.output.join(fname)\<close>: an absolute name replaces the directory.\<close>

definition output_join :: "path \<Rightarrow> string \<Rightarrow> path" where
  "output_join out fname =
     (if starts_with fname ''/'' then split_on CHR ''/'' (tl fname) else out @ split_on CHR ''/'' fname)"

definition fetch_syz_url :: "syz_http \<Rightarrow> syz_args \<Rightarrow> int \<Rightarrow> string \<Rightarrow> string \<Rightarrow> disk \<Rightarrow> bool \<times> disk" where
  "fetch_syz_url http args now u fname d =
     (let fname = output_join (s_output args) fname
      in if \<not> path_exists d fname then
           (case get_syz_url http u of
              None \<Rightarrow> (False, d)
            | Some text \<Rightarrow> (True, snd (write_file d now fname text)))
         else (True, d))"

definition fetch_syz_crash :: "syz_http \<Rightarrow> syz_args \<Rightarrow> int \<Rightarrow> SyzCrash \<Rightarrow> nat \<Rightarrow> disk \<Rightarrow> bool \<times> disk" where
  "fetch_syz_crash http args now crash idx d =
     (case fetch_syz_url http args now (kernel_config crash) (s_id args @ ''.'' @ show_nat idx @ ''.kconfig'') d of
        (False, d) \<Rightarrow> (False, d)
      | (True, d) \<Rightarrow>
          (case c_reproducer crash of
             None \<Rightarrow> (True, d)
           | Some r \<Rightarrow> fetch_syz_url http args now r (s_id args @ ''.'' @ show_nat idx @ ''.repro.c'') d))"

fun fetch_crashes :: "syz_http \<Rightarrow> syz_args \<Rightarrow> int \<Rightarrow> (nat \<times> SyzCrash) list \<Rightarrow> disk \<Rightarrow> bool \<times> disk" where
  "fetch_crashes http args now [] d = (True, d)"
| "fetch_crashes http args now ((idx, crash) # cs) d =
     (case fetch_syz_crash http args now crash idx d of
        (False, d) \<Rightarrow> (False, d)
      | (True, d) \<Rightarrow> fetch_crashes http args now cs d)"

definition syzbot_main :: "(string \<Rightarrow> SyzBug option) \<Rightarrow> syz_http \<Rightarrow> syz_args \<Rightarrow> int \<Rightarrow> disk \<Rightarrow> bool \<times> disk" where
  "syzbot_main parse_bug http args now d =
     (case Option.bind (get_syz_url http (''/bug?json=1&extid='' @ s_id args)) parse_bug of
        None \<Rightarrow> (False, d)
      | Some bug \<Rightarrow>
          (let d = snd (create_dir_all d (s_output args))
           in case s_idx args of
                Some idx \<Rightarrow>
                  if idx < length (crashes bug) then fetch_syz_crash http args now (crashes bug ! idx) idx d
                  else (False, d)
              | None \<Rightarrow> fetch_crashes http args now (enumerate 0 (crashes bug)) d))"

section \<open>The requests of a run\<close>

definition crash_files :: "syz_args \<Rightarrow> nat \<times> SyzCrash \<Rightarrow> (string \<times> string) list" where
  "crash_files args ic =
     (kernel_config (snd ic), s_id args @ ''.'' @ show_nat (fst ic) @ ''.kconfig'') #
     (case c_reproducer (snd ic) of
        None \<Rightarrow> []
      | Some r \<Rightarrow> [(r, s_id args @ ''.'' @ show_nat (fst ic) @ ''.repro.c'')])"

definition bug_files :: "syz_args \<Rightarrow> SyzBug \<Rightarrow> (string \<times> string) list" where
  "bug_files args bug =
     concat (map (crash_files args)
       (filter (\<lambda>ic. s_idx args = None \<or> s_idx args = Some (fst ic)) (enumerate 0 (crashes bug))))"

fun fetch_all :: "syz_http \<Rightarrow> syz_args \<Rightarrow> int \<Rightarrow> (string \<times> string) list \<Rightarrow> disk \<Rightarrow> bool \<times> disk" where
  "fetch_all http args now [] d = (True, d)"
| "fetch_all http args now ((u, f) # ws) d =
     (case fetch_syz_url http args now u f d of
        (False, d) \<Rightarrow> (False, d)
      | (True, d) \<Rightarrow> fetch_all http args now ws d)"

lemma fetch_all_append:
  "fetch_all http args now (ws @ vs) d =
     (case fetch_all http args now ws d of (False, d) \<Rightarrow> (False, d) | (True, d) \<Rightarrow> fetch_all http args now vs d)"
  by (induction http args now ws d rule: fetch_all.induct) (auto split: prod.splits bool.splits)

lemma fetch_syz_crash_all: "fetch_syz_crash http args now crash idx d = fetch_all http args now (crash_files args (idx, crash)) d"
  by (auto simp: fetch_syz_crash_def crash_files_def split: prod.splits bool.splits option.splits)

lemma fetch_crashes_all: "fetch_crashes http args now ics d = fetch_all http args now (concat (map (crash_files args) ics)) d"
  by (induction http args now ics d rule: fetch_crashes.induct)
    (auto simp: fetch_syz_crash_all fetch_all_append split: prod.splits bool.splits)

lemma filter_enumerate: "idx < n + length xs \<Longrightarrow> n \<le> idx \<Longrightarrow> filter (\<lambda>ix. idx = fst ix) (enumerate n xs) = [(idx, xs ! (idx - n))]"
proof (induction xs arbitrary: n)
  case (Cons x xs)
  have "filter (\<lambda>ix. n = fst ix) (enumerate (Suc n) xs) = []"
    by (auto simp: filter_empty_conv in_set_enumerate_eq)
  with Cons show ?case by (cases "idx = n") (auto simp: Suc_diff_le nth_Cons' not_less_eq_eq)
qed simp

lemma syzbot_main_all:
  "syzbot_main parse_bug http args now d = (ok, d') \<Longrightarrow>
     (\<not> ok \<and> (d' = d \<or> d' = snd (create_dir_all d (s_output args)))) \<or>
     (\<exists>bug. Option.bind (get_syz_url http (''/bug?json=1&extid='' @ s_id args)) parse_bug = Some bug \<and>
        fetch_all http args now (bug_files args bug) (snd (create_dir_all d (s_output args))) = (ok, d'))"
  by (auto simp: syzbot_main_def filter_enumerate [of _ 0, simplified] bug_files_def fetch_syz_crash_all fetch_crashes_all Let_def
      split: option.splits if_splits)

section \<open>What a request does to the disk\<close>

lemma read_file_kept: "kept_place (node_at (tree d) p) (node_at (tree d') p) \<Longrightarrow> read_file d' p = read_file d p"
  by (auto simp: kept_place_def same_place_def read_file_def split: option.splits node.splits)

lemma fetch_keeps:
  assumes "fetch_syz_url http args now u f d = (ok, d')" and "read_file d p = Some x"
  shows "read_file d' p = Some x"
proof (cases "p = output_join (s_output args) f")
  case True
  then have "path_exists d (output_join (s_output args) f)"
    using assms(2) by (auto simp: path_exists_def read_file_def split: option.splits node.splits)
  then show ?thesis using assms by (simp add: fetch_syz_url_def)
next
  case False
  then have "kept_place (node_at (tree d) p) (node_at (tree d') p)"
    using assms(1) write_file_other [OF False, of d now]
    by (auto simp: fetch_syz_url_def Let_def kept_place_def split: if_splits option.splits)
  then show ?thesis using assms(2) by (simp add: read_file_kept)
qed

lemma fetch_all_keeps: "fetch_all http args now ws d = (ok, d') \<Longrightarrow> read_file d p = Some x \<Longrightarrow> read_file d' p = Some x"
  by (induction http args now ws d rule: fetch_all.induct) (auto split: prod.splits bool.splits dest: fetch_keeps)

text \<open>With a directory to write to, nothing refused and no panic, a request leaves something at its path, and what is new there is the
  server's text.\<close>

lemma output_join_plain: "CHR ''/'' \<notin> set f \<Longrightarrow> output_join out f = out @ [f]"
  by (cases f) (auto simp: output_join_def split_on_free)

lemma fetch_done:
  assumes "fetch_syz_url http args now u f d = (True, d')" and "no_faults d" and "is_dir d (s_output args)"
    and "CHR ''/'' \<notin> set f" and "q = s_output args @ [f]"
  shows "no_faults d' \<and> is_dir d' (s_output args) \<and> node_at (tree d') q \<noteq> None \<and>
    (\<forall>p. node_at (tree d) p \<noteq> None \<longrightarrow> node_at (tree d') p \<noteq> None) \<and>
    (\<forall>p x. read_file d p = None \<and> read_file d' p = Some x \<longrightarrow> p = q \<and> get_syz_url http u = Some (fst x))"
proof (cases "path_exists d q")
  case True
  then show ?thesis
    using assms by (auto simp: fetch_syz_url_def output_join_plain path_exists_def split: option.splits)
next
  case False
  then obtain body where get: "get_syz_url http u = Some body" and d': "d' = snd (write_file d now q body)"
    using assms(1,4,5) by (auto simp: fetch_syz_url_def output_join_plain split: option.splits)
  have nd: "\<not> is_dir d q" using False by (auto simp: is_dir_def path_exists_def split: option.splits node.splits)
  obtain es where es: "node_at (tree d) (s_output args) = Some (Dir es)"
    using assms(3) by (auto simp: is_dir_def split: option.splits node.splits)
  obtain t1 where t1: "put_node (tree d) q (Some (File [] now)) = Some t1"
    using put_node_enabled [OF es] assms(5) by blast
  have c: "create_file d now q = Some (d\<lparr>tree := t1\<rparr>)" using t1 nd assms(2) by (simp add: create_file_def no_faults_def)
  have "strict_prefix (s_output args) q" by (simp add: assms(5) strict_prefix_def)
  then obtain es1 where "node_at t1 (s_output args) = Some (Dir es1)" using put_node_above [OF t1] by blast
  then obtain t2 where t2: "put_node t1 q (Some (File body now)) = Some t2"
    using put_node_enabled assms(5) by blast
  have d2: "d' = d\<lparr>tree := t2\<rparr>" using c t2 assms(2) by (simp add: d' write_file_def fill_file_def no_faults_def)
  have at: "node_at (tree d') q = Some (File body now)" using put_node_same [OF t2] by (simp add: d2)
  have other: "same_place (node_at (tree d) p) (node_at (tree d') p)" if "p \<noteq> q" for p
    using write_file_other [OF that] by (simp add: d')
  have "\<exists>es'. node_at (tree d') (s_output args) = Some (Dir es')"
    using other [of "s_output args"] assms(5) unfolding es same_place_def by (metis append_self_conv list.distinct(1))
  then have "is_dir d' (s_output args)" by (auto simp: is_dir_def)
  moreover have "node_at (tree d') p \<noteq> None" if "node_at (tree d) p \<noteq> None" for p
    using other [of p] at that by (cases "p = q") (auto simp: same_place_def)
  moreover have "p = q \<and> get_syz_url http u = Some (fst x)" if "read_file d p = None" "read_file d' p = Some x" for p x
    using that other [of p] at get read_file_kept [of d p d']
    by (cases "p = q") (auto simp: read_file_def kept_place_def)
  ultimately show ?thesis using at assms(2) by (auto simp: d2 no_faults_def)
qed


lemma fetch_all_done:
  assumes "fetch_all http args now ws d = (True, d')" and "no_faults d" and "is_dir d (s_output args)"
    and "\<forall>(u, f) \<in> set ws. CHR ''/'' \<notin> set f"
  shows "(\<forall>(u, f) \<in> set ws. node_at (tree d') (s_output args @ [f]) \<noteq> None) \<and>
    (\<forall>p. node_at (tree d) p \<noteq> None \<longrightarrow> node_at (tree d') p \<noteq> None) \<and>
    (\<forall>p x. read_file d p = None \<and> read_file d' p = Some x \<longrightarrow>
       (\<exists>(u, f) \<in> set ws. p = s_output args @ [f] \<and> get_syz_url http u = Some (fst x)))"
  using assms
proof (induction http args now ws d rule: fetch_all.induct)
  case (2 http args now u f ws d)
  then obtain d1 where d1: "fetch_syz_url http args now u f d = (True, d1)" and rest: "fetch_all http args now ws d1 = (True, d')"
    by (auto split: prod.splits bool.splits)
  have "CHR ''/'' \<notin> set f" using "2.prems"(4) by simp
  note one = fetch_done [OF d1 "2.prems"(2,3) this HOL.refl]
  then have "no_faults d1" "is_dir d1 (s_output args)" by blast+
  note ih = "2.IH" [OF d1 [symmetric] HOL.refl rest this]
  show ?case
  proof (intro conjI allI impI)
    show "\<forall>(u, f) \<in> set ((u, f) # ws). node_at (tree d') (s_output args @ [f]) \<noteq> None"
      using ih one "2.prems"(4) by simp
    show "node_at (tree d') p \<noteq> None" if "node_at (tree d) p \<noteq> None" for p
      using ih one "2.prems"(4) that by simp
    show "\<exists>(u, f) \<in> set ((u, f) # ws). p = s_output args @ [f] \<and> get_syz_url http u = Some (fst x)"
      if new: "read_file d p = None \<and> read_file d' p = Some x" for p x
    proof (cases "read_file d1 p")
      case None
      moreover have "\<forall>(u, f) \<in> set ws. CHR ''/'' \<notin> set f" using "2.prems"(4) by simp
      ultimately have "\<exists>(u, f) \<in> set ws. p = s_output args @ [f] \<and> get_syz_url http u = Some (fst x)"
        using ih new by blast
      then show ?thesis by simp
    next
      case (Some y)
      then have "y = x" using fetch_all_keeps [OF rest Some] new by simp
      then have "p = s_output args @ [f] \<and> get_syz_url http u = Some (fst x)" using one Some new by blast
      then show ?thesis by simp
    qed
  qed
qed auto

lemma slash_not_digit: "CHR ''/'' \<notin> set (show_nat n)"
  by (rule show_nat_digits) (simp add: digit_value_def)

lemma bug_files_names: "CHR ''/'' \<notin> set (s_id args) \<Longrightarrow> \<forall>(u, f) \<in> set (bug_files args bug). CHR ''/'' \<notin> set f"
  by (auto simp: bug_files_def crash_files_def slash_not_digit split: option.splits)

section \<open>Properties\<close>

text \<open>C36: Fetching a syzbot bug. Whatever happens, no file that is already there changes. When the output directory can be made, nothing
  is refused and the run does not panic, every file of the selected crashes (the kernel configuration, and the reproducer when
  there is one) is there, and each new file holds the text the server answered a request of the bug with,
  whatever its HTTP status was.\<close>

theorem syzbot_get_correct:
  assumes "syzbot_main parse_bug http args now d = (ok, d')"
  shows "(\<forall>p x. read_file d p = Some x \<longrightarrow> read_file d' p = Some x) \<and>
    (ok \<and> no_faults d \<and> is_dir d [] \<and> fst (create_dir_all d (s_output args)) \<and> CHR ''/'' \<notin> set (s_id args) \<longrightarrow>
     (\<exists>bug. Option.bind (get_syz_url http (''/bug?json=1&extid='' @ s_id args)) parse_bug = Some bug \<and>
        (\<forall>(u, f) \<in> set (bug_files args bug). node_at (tree d') (s_output args @ [f]) \<noteq> None) \<and>
        (\<forall>p x. read_file d p = None \<and> read_file d' p = Some x \<longrightarrow>
           (\<exists>(u, f) \<in> set (bug_files args bug). p = s_output args @ [f] \<and> get_syz_url http u = Some (fst x)))))"
proof -
  let ?d = "snd (create_dir_all d (s_output args))"
  have dirs: "read_file ?d p = read_file d p" for p
    using make_dirs_other [of d p "[]" "s_output args"] by (simp add: create_dir_all_def read_file_kept)
  have "read_file d' p = Some x" if "read_file d p = Some x" for p x
    using syzbot_main_all [OF assms] that dirs fetch_all_keeps by metis
  moreover have "\<exists>bug. Option.bind (get_syz_url http (''/bug?json=1&extid='' @ s_id args)) parse_bug = Some bug \<and>
        (\<forall>(u, f) \<in> set (bug_files args bug). node_at (tree d') (s_output args @ [f]) \<noteq> None) \<and>
        (\<forall>p x. read_file d p = None \<and> read_file d' p = Some x \<longrightarrow>
           (\<exists>(u, f) \<in> set (bug_files args bug). p = s_output args @ [f] \<and> get_syz_url http u = Some (fst x)))"
    if ok: "ok" "no_faults d" "is_dir d []" "fst (create_dir_all d (s_output args))" "CHR ''/'' \<notin> set (s_id args)"
  proof -
    obtain bug where bug: "Option.bind (get_syz_url http (''/bug?json=1&extid='' @ s_id args)) parse_bug = Some bug"
      "fetch_all http args now (bug_files args bug) ?d = (True, d')"
      using syzbot_main_all [OF assms] ok(1) by auto
    have "fault ?d = fault d" by (simp add: create_dir_all_def make_dirs_fault)
    then have nf: "no_faults ?d" using ok(2) by (simp add: no_faults_def)
    have "is_dir ?d (s_output args)"
      using make_dirs_at [of d "[]" "s_output args" ?d] ok(3,4) by (simp add: create_dir_all_def prod_eq_iff)
    from fetch_all_done [OF bug(2) nf this bug_files_names [OF ok(5)]] bug(1) dirs show ?thesis by simp
  qed
  ultimately show ?thesis by blast
qed


theorem syzbot_get_correct_witness:
  "\<exists>d'. syzbot_main (\<lambda>_. Some \<lparr> bug_version = 1, bug_title = [], bug_id = [], discussions = [],
       crashes = [\<lparr> crash_title = [], syz_reproducer = None, c_reproducer = None, kernel_config = ''/k'', kernel_source_git = [],
         kernel_source_commit = [], syzkaller_git = [], syzkaller_commit = [], crash_report_link = [] \<rparr>] \<rparr>)
     (\<lambda>_. Some (404, ''not found'')) \<lparr> s_id = ''b'', s_idx = None, s_output = [''out''], s_verbose = False \<rparr> 9
     \<lparr> tree = Dir [], fault = (\<lambda>_ _. False) \<rparr> = (True, d') \<and>
   read_file d' [''out'', ''b.0.kconfig''] = Some (''not found'', 9) \<and> node_at (tree d') [''out'', ''b.0.kconfig''] \<noteq> None"
proof -
  let ?bug = "\<lparr> bug_version = 1, bug_title = [], bug_id = [], discussions = [],
       crashes = [\<lparr> crash_title = [], syz_reproducer = None, c_reproducer = None, kernel_config = ''/k'', kernel_source_git = [],
         kernel_source_commit = [], syzkaller_git = [], syzkaller_commit = [], crash_report_link = [] \<rparr>] \<rparr>"
    and ?http = "\<lambda>_ :: string. Some (404 :: nat, ''not found'')"
    and ?args = "\<lparr> s_id = ''b'', s_idx = None, s_output = [''out''], s_verbose = False \<rparr>"
    and ?d = "\<lparr> tree = Dir [], fault = (\<lambda>_ _. False) \<rparr>"
    and ?d' = "\<lparr> tree = Dir [(''out'', Dir [(''b.0.kconfig'', File ''not found'' 9)])], fault = (\<lambda>_ _. False) \<rparr>"
  have zero: "show_nat 0 = ''0''" by code_simp
  have dirs: "create_dir_all ?d [''out''] = (True, \<lparr> tree = Dir [(''out'', Dir [])], fault = (\<lambda>_ _. False) \<rparr>)"
    by (simp add: create_dir_all_def Let_def is_dir_def)
  have run: "syzbot_main (\<lambda>_. Some ?bug) ?http ?args 9 ?d = (True, ?d')"
    using dirs
    by (simp add: syzbot_main_def get_syz_url_def fetch_syz_crash_def fetch_syz_url_def output_join_plain zero path_exists_def
        write_file_def create_file_def fill_file_def is_dir_def Let_def)
  have "(''/k'', ''b.0.kconfig'') \<in> set (bug_files ?args ?bug)"
    by (simp add: bug_files_def crash_files_def zero)
  then have "node_at (tree ?d') [''out'', ''b.0.kconfig''] \<noteq> None"
    using syzbot_get_correct [OF run] dirs
    by (force simp: no_faults_def is_dir_def get_syz_url_def)
  then show ?thesis using run by (simp add: read_file_def)
qed


end
