(* ===== verification/Page_Scripts.thy ===== *)
theory Page_Scripts
  imports Test_Status Complex_Main
begin

text \<open>
  The scripts the dashboard embeds in its pages (the constants of \<open>src/bin/cgi.rs\<close>): the filter of the
  commit page (\<open>COMMIT_CSS_JS\<close>, \<open>COMMIT_FILTER\<close>) and the live status page (\<open>STATUS_JS\<close>), which
  renders the snapshot the daemon writes and tails a job's log. Strings are bytes, a number is a
  rational, an optional field that is absent or null is \<open>None\<close>. \<open>localeCompare\<close> compares the
  collation keys the browser gives to names; the keys are the parameter \<open>coll\<close>. \<open>Array.sort\<close> is stable.
\<close>

section \<open>The filter of the commit page\<close>

text \<open>The radio buttons: value and whether it is checked when the page is loaded.\<close>

definition commit_filter :: "(string \<times> bool) list" where
  "commit_filter =
     [(''Passed'', False), (''Failed'', True), (''Not run'', False), (''Failed to run'', False),
      (''In progress'', False), (''Unknown'', False), (''All'', False)]"

fun getSelectedRadioValue :: "(string \<times> bool) list \<Rightarrow> string option" where
  "getSelectedRadioValue [] = None"
| "getSelectedRadioValue ((v, checked) # radios) = (if checked then Some v else getSelectedRadioValue radios)"

text \<open>\<open>String.trim\<close> on ASCII white space.\<close>

definition trim :: "string \<Rightarrow> string" where
  "trim s = rev (dropWhile is_whitespace (rev (dropWhile is_whitespace s)))"

text \<open>A row of the table: the text of its cells and whether it has the class \<open>filtered\<close>.\<close>

record table_row =
  cells :: "string list"
  filtered :: bool

text \<open>The status is the third cell; without one \<open>querySelector\<close> is null and reading its text throws.\<close>

definition get_row_status :: "table_row \<Rightarrow> string option" where
  "get_row_status el = (if 3 \<le> length (cells el) then Some (trim (cells el ! 2)) else None)"

text \<open>The loop over the rows; the flag tells that it threw, and the rows after that stay as they are.\<close>

fun filter_rows :: "string option \<Rightarrow> table_row list \<Rightarrow> bool \<times> table_row list" where
  "filter_rows v [] = (False, [])"
| "filter_rows v (el # els) =
     (if v = None \<or> v = Some '''' \<or> v = Some ''All'' then
        (let (threw, els) = filter_rows v els in (threw, el\<lparr>filtered := False\<rparr> # els))
      else
        (case get_row_status el of
           None \<Rightarrow> (True, el # els)
         | Some st \<Rightarrow>
             (let (threw, els) = filter_rows v els in (threw, el\<lparr>filtered := (v \<noteq> Some st)\<rparr> # els))))"

definition update_filter :: "(string \<times> bool) list \<Rightarrow> table_row list \<Rightarrow> bool \<times> table_row list" where
  "update_filter radios rows = filter_rows (getSelectedRadioValue radios) rows"

section \<open>The status page: formatting\<close>

text \<open>\<open>JobInfo.log_path\<close> is a path on the server; the logs are served under \<open>c/\<close>.\<close>

fun from_first :: "string \<Rightarrow> string \<Rightarrow> string option" where
  "from_first pat [] = (if pat = [] then Some [] else None)"
| "from_first pat (c # s) = (if prefix pat (c # s) then Some (c # s) else from_first pat s)"

definition logUrl :: "string option \<Rightarrow> string option" where
  "logUrl p =
     (case p of
        None \<Rightarrow> None
      | Some p \<Rightarrow> if p = [] then None else map_option (\<lambda>r. ''c/'' @ r) (from_first ''ci-daemon-logs/'' p))"

definition show_int :: "int \<Rightarrow> string" where
  "show_int i = (if i < 0 then ''-'' @ show_nat (nat (- i)) else show_nat (nat i))"

text \<open>The remainder of JavaScript has the sign of the dividend.\<close>

definition js_mod :: "int \<Rightarrow> int \<Rightarrow> int" where
  "js_mod a b = (if a < 0 then - ((- a) mod b) else a mod b)"

definition fmtDur :: "rat \<Rightarrow> string" where
  "fmtDur s =
     (let s = \<lfloor>s\<rfloor>;
          h = s div 3600;
          m = js_mod (s div 60) 60
      in if h \<noteq> 0 then show_int h @ ''h'' @ show_int m @ ''m''
         else if m \<noteq> 0 then show_int m @ ''m'' @ show_int (js_mod s 60) @ ''s''
         else show_int s @ ''s'')"

section \<open>The status page: rendering\<close>

datatype job_status = JRunning | JPending | JFailed | JCancelled | JCompleted

fun status_name :: "job_status \<Rightarrow> string" where
  "status_name JRunning = ''running''"
| "status_name JPending = ''pending''"
| "status_name JFailed = ''failed''"
| "status_name JCancelled = ''cancelled''"
| "status_name JCompleted = ''completed''"

fun order :: "job_status \<Rightarrow> nat" where
  "order JRunning = 0"
| "order JPending = 1"
| "order JFailed = 2"
| "order JCancelled = 3"
| "order JCompleted = 4"

record JobInfo =
  ji_id :: nat
  ji_name :: string
  ji_group :: "string option"
  ji_status :: job_status
  elapsed_secs :: rat
  ji_log_path :: "string option"
  ji_error :: "string option"

record ExecutorInfo =
  ei_name :: string
  current_jobs :: "nat list"
  ei_log_path :: "string option"

record StatusSnapshot =
  s_jobs :: "JobInfo list"
  pending_by_group :: "(string \<times> nat) list"
  s_fairshare :: "(string \<times> rat) list"
  s_executors :: "ExecutorInfo list"

text \<open>The elements the script fills in: a row of an executor is its class, its text and the log a click opens.\<close>

record exec_box =
  box_title :: string
  box_rows :: "(string \<times> string \<times> string option) list"

datatype job_line =
    HeaderRow "string list"
  | JobRow (row_status: string) (row_group: string) (row_name: string) (row_elapsed: string) (row_log: "string option")
  | ErrorRow string

record status_view =
  summary :: string
  fairshare_line :: string
  exec_boxes :: "exec_box list"
  job_table :: "job_line list"

definition middot :: string where
  "middot = [CHR '' '', CHR 0xC2, CHR 0xB7, CHR '' '']"

definition emdash :: string where
  "emdash = [CHR '' '', CHR 0xE2, CHR 0x80, CHR 0x94, CHR '' '']"

definition count_status :: "job_status \<Rightarrow> JobInfo list \<Rightarrow> nat" where
  "count_status st js = length (filter (\<lambda>j. ji_status j = st) js)"

definition summary_text :: "StatusSnapshot \<Rightarrow> string" where
  "summary_text s =
     (let pend = sort_key (\<lambda>e. - int (snd e)) (pending_by_group s);
          pendTotal = sum_list (map snd pend);
          pendStr = join '', '' (map (\<lambda>e. fst e @ '' '' @ show_nat (snd e)) pend)
      in show_nat pendTotal @ '' pending'' @ (if pendStr \<noteq> [] then '' ('' @ pendStr @ '')'' else []) @
         middot @ show_nat (count_status JRunning (s_jobs s)) @ '' running'' @
         middot @ show_nat (count_status JCompleted (s_jobs s)) @ '' completed'' @
         middot @ show_nat (count_status JFailed (s_jobs s)) @ '' failed'')"

definition fairshare_text :: "StatusSnapshot \<Rightarrow> string" where
  "fairshare_text s =
     (let groups = sort_key snd (s_fairshare s)
      in if groups \<noteq> [] then ''fair-share: '' @ join ''   '' (map (\<lambda>g. fst g @ '' '' @ fmtDur (snd g)) groups) else [])"

text \<open>\<open>byId[id]\<close>: the last job with the id.\<close>

definition by_id :: "JobInfo list \<Rightarrow> nat \<Rightarrow> JobInfo option" where
  "by_id js = map_of (rev (map (\<lambda>j. (ji_id j, j)) js))"

definition host_of :: "ExecutorInfo \<Rightarrow> string" where
  "host_of e = hd (split_on CHR '':'' (ei_name e))"

text \<open>The executors by host; the hosts are listed in order.\<close>

definition group_hosts :: "ExecutorInfo list \<Rightarrow> (string, ExecutorInfo list) btree" where
  "group_hosts es = fold (\<lambda>e hosts. bt_insert hosts (host_of e) (unwrap_or (bt_get hosts (host_of e)) [] @ [e])) es bt_empty"

definition exec_job :: "JobInfo list \<Rightarrow> ExecutorInfo \<Rightarrow> JobInfo option" where
  "exec_job js e = (case current_jobs e of [] \<Rightarrow> None | i # _ \<Rightarrow> by_id js i)"

definition exec_row :: "JobInfo list \<Rightarrow> ExecutorInfo \<Rightarrow> string \<times> string \<times> string option" where
  "exec_row js e =
     (let j = exec_job js e
      in (''job'' @ (if j \<noteq> None then '' running'' else []),
          ei_name e @ emdash @ (case j of Some j \<Rightarrow> ji_name j | None \<Rightarrow> ''idle''),
          logUrl (ei_log_path e)))"

definition host_box :: "(string \<Rightarrow> nat list) \<Rightarrow> JobInfo list \<Rightarrow> string \<Rightarrow> ExecutorInfo list \<Rightarrow> exec_box" where
  "host_box coll js hst es =
     (let execs = sort_key (\<lambda>e. coll (ei_name e)) es;
          running = length (filter (\<lambda>e. current_jobs e \<noteq> []) execs)
      in \<lparr> box_title = hst @ '' ('' @ show_nat running @ ''/'' @ show_nat (length execs) @ '')'',
           box_rows = map (exec_row js) execs \<rparr>)"

definition job_lines :: "JobInfo \<Rightarrow> job_line list" where
  "job_lines j =
     JobRow (status_name (ji_status j)) (case ji_group j of None \<Rightarrow> ''-'' | Some g \<Rightarrow> if g = [] then ''-'' else g)
       (ji_name j) (fmtDur (elapsed_secs j)) (logUrl (ji_log_path j)) #
     (case ji_error j of None \<Rightarrow> [] | Some e \<Rightarrow> if e = [] then [] else [ErrorRow e])"

definition render :: "(string \<Rightarrow> nat list) \<Rightarrow> StatusSnapshot \<Rightarrow> status_view" where
  "render coll s =
     \<lparr> summary = summary_text s,
       fairshare_line = fairshare_text s,
       exec_boxes = map (\<lambda>(hst, es). host_box coll (s_jobs s) hst es) (group_hosts (s_executors s)),
       job_table = HeaderRow [''Status'', ''User'', ''Job'', ''Elapsed'', ''Log''] #
         concat (map job_lines (sort_key (\<lambda>j. (order (ji_status j), coll (ji_name j))) (s_jobs s))) \<rparr>"

text \<open>One poll: a reply that cannot be fetched or read leaves the page but for the summary.\<close>

definition poll :: "(string \<Rightarrow> nat list) \<Rightarrow> StatusSnapshot option \<Rightarrow> status_view \<Rightarrow> status_view" where
  "poll coll reply v =
     (case reply of Some s \<Rightarrow> render coll s | None \<Rightarrow> v\<lparr>summary := ''daemon status unavailable''\<rparr>)"

section \<open>What the filter shows\<close>

lemma trim_status: "trim ('' '' @ to_str st @ ''  '') = to_str st"
  by (cases st) (simp_all add: trim_def is_whitespace_def)

text \<open>A row of the commit page for a test: its third cell is the status between blanks.\<close>

definition shows_status :: "TestStatus \<Rightarrow> table_row \<Rightarrow> bool" where
  "shows_status st el \<longleftrightarrow> 3 \<le> length (cells el) \<and> cells el ! 2 = '' '' @ to_str st @ ''  ''"

lemma row_status: "shows_status st el \<Longrightarrow> get_row_status el = Some (to_str st)"
  using trim_status by (simp add: shows_status_def get_row_status_def)

lemma filter_rows_ok:
  assumes "list_all2 shows_status sts rows" and "v \<noteq> []"
  shows "filter_rows (Some v) rows =
    (False, map2 (\<lambda>st el. el\<lparr>filtered := (v \<noteq> ''All'' \<and> v \<noteq> to_str st)\<rparr>) sts rows)"
  using assms(1)
proof (induction rule: list_all2_induct)
  case (Cons st sts el rows)
  then show ?case using assms(2) row_status [OF Cons.hyps(1)] by (cases "v = ''All''") simp_all
qed simp

text \<open>The buttons with one of them chosen.\<close>

definition choose_value :: "string \<Rightarrow> (string \<times> bool) list" where
  "choose_value v = map (\<lambda>(x, _). (x, x = v)) commit_filter"

lemma chosen_value: "v \<in> fst ` set commit_filter \<Longrightarrow> getSelectedRadioValue (choose_value v) = Some v"
  by (auto simp: choose_value_def commit_filter_def)

text \<open>The filter of the commit page. Every status has its button; whichever button is chosen, the script goes
  through all rows of the table and hides exactly those with another status (none for All), and
  before a choice is made exactly the failed tests are shown.\<close>

theorem filter_shows_status:
  assumes "list_all2 shows_status sts rows" and "v \<in> fst ` set commit_filter"
  shows "(\<forall>st. to_str st \<in> fst ` set commit_filter) \<and>
    update_filter (choose_value v) rows =
      (False, map2 (\<lambda>st el. el\<lparr>filtered := (v \<noteq> ''All'' \<and> v \<noteq> to_str st)\<rparr>) sts rows) \<and>
    update_filter commit_filter rows =
      (False, map2 (\<lambda>st el. el\<lparr>filtered := (st \<noteq> Failed)\<rparr>) sts rows)"
proof -
  have every: "to_str st \<in> fst ` set commit_filter" for st
    by (cases st) (simp_all add: commit_filter_def)
  have "v \<noteq> []" using assms(2) by (auto simp: commit_filter_def)
  then have "update_filter (choose_value v) rows =
      (False, map2 (\<lambda>st el. el\<lparr>filtered := (v \<noteq> ''All'' \<and> v \<noteq> to_str st)\<rparr>) sts rows)"
    using filter_rows_ok [OF assms(1)] chosen_value [OF assms(2)] by (simp add: update_filter_def)
  moreover have "''Failed'' \<noteq> to_str st \<longleftrightarrow> st \<noteq> Failed" for st by (cases st) simp_all
  then have "update_filter commit_filter rows = (False, map2 (\<lambda>st el. el\<lparr>filtered := (st \<noteq> Failed)\<rparr>) sts rows)"
    using filter_rows_ok [OF assms(1), of "''Failed''"] by (simp add: update_filter_def commit_filter_def)
  ultimately show ?thesis using every by blast
qed

theorem filter_shows_status_witness:
  "update_filter commit_filter
     [\<lparr> cells = [''a'', '' 3s '', '' Passed  ''], filtered = False \<rparr>, \<lparr> cells = [''b'', '' 9s '', '' Failed  ''], filtered = True \<rparr>] =
   (False,
     [\<lparr> cells = [''a'', '' 3s '', '' Passed  ''], filtered = True \<rparr>, \<lparr> cells = [''b'', '' 9s '', '' Failed  ''], filtered = False \<rparr>])"
  using filter_shows_status [of "[Passed, Failed]"
      "[\<lparr> cells = [''a'', '' 3s '', '' Passed  ''], filtered = False \<rparr>, \<lparr> cells = [''b'', '' 9s '', '' Failed  ''], filtered = True \<rparr>]"
      "''All''"]
  by (simp add: shows_status_def commit_filter_def)

section \<open>What the status page shows\<close>

lemma group_hosts_snoc:
  "group_hosts (es @ [e]) =
     bt_insert (group_hosts es) (host_of e) (unwrap_or (bt_get (group_hosts es) (host_of e)) [] @ [e])"
  by (simp add: group_hosts_def)

lemma group_hosts_ok: "bt_ok (group_hosts es)"
  by (induction es rule: rev_induct) (simp_all add: group_hosts_snoc bt_ok_insert, simp add: group_hosts_def)

lemma group_hosts_get:
  "bt_get (group_hosts es) h = (if h \<in> host_of ` set es then Some (filter (\<lambda>e. host_of e = h) es) else None)"
proof (induction es arbitrary: h rule: rev_induct)
  case Nil
  then show ?case by (simp add: group_hosts_def)
next
  case (snoc e es)
  have "filter (\<lambda>x. host_of x = host_of e) es = []" if "host_of e \<notin> host_of ` set es"
    using that by (auto simp: filter_empty_conv image_iff)
  then show ?case
    using snoc by (auto simp: group_hosts_snoc bt_get_insert group_hosts_ok)
qed

lemma group_hosts_entries:
  "group_hosts es = map (\<lambda>h. (h, filter (\<lambda>e. host_of e = h) es)) (sorted_list_of_set (host_of ` set es))"
proof (rule bt.entries_ext [OF group_hosts_ok])
  let ?hs = "sorted_list_of_set (host_of ` set es)"
  have keys: "map fst (map (\<lambda>h. (h, filter (\<lambda>e. host_of e = h) es)) ?hs) = ?hs" by (simp add: comp_def)
  show "bt_ok (map (\<lambda>h. (h, filter (\<lambda>e. host_of e = h) es)) ?hs)"
    unfolding bt_ok_def keys by (rule strict_sorted_list_of_set)
  fix h
  show "bt_get (group_hosts es) h = bt_get (map (\<lambda>h. (h, filter (\<lambda>e. host_of e = h) es)) ?hs) h"
    by (simp add: group_hosts_get map_of_map_restrict restrict_map_def)
qed

lemma mset_by_host: "mset (concat (map (\<lambda>h. filter (\<lambda>e. f e = h) es) hs)) = mset (filter (\<lambda>e. f e \<in> set hs) es)" if "distinct hs"
  using that
proof (induction hs)
  case (Cons h hs)
  have "filter (\<lambda>e. f e \<in> set (h # hs)) es = filter (\<lambda>e. f e = h \<or> f e \<in> set hs) es" by simp
  moreover have "mset (filter (\<lambda>e. f e = h \<or> f e \<in> set hs) es) =
      mset (filter (\<lambda>e. f e = h) es) + mset (filter (\<lambda>e. f e \<in> set hs) es)"
    using Cons.prems by (induction es) auto
  ultimately show ?case using Cons by simp
qed simp

lemma mset_rows: "sum_list (map (\<lambda>h. mset (map g (F h))) hs) = image_mset g (mset (concat (map F hs)))"
  by (induction hs) simp_all

text \<open>C39: The status page shows everything the snapshot has. There is one box per host, in the order of the hosts,
  with the executors of that host and the number of busy ones in its title; each executor, idle or busy, has
  exactly one row; and the table has below its header the lines of every job exactly once, the running jobs first, then the pending,
  the failed, the cancelled and the completed ones.\<close>

theorem render_shows_all:
  "exec_boxes (render coll s) = map (\<lambda>h. host_box coll (s_jobs s) h (filter (\<lambda>e. host_of e = h) (s_executors s)))
      (sorted_list_of_set (host_of ` set (s_executors s))) \<and>
    mset (concat (map box_rows (exec_boxes (render coll s)))) = mset (map (exec_row (s_jobs s)) (s_executors s)) \<and>
    (\<exists>js. mset js = mset (s_jobs s) \<and> sorted (map (\<lambda>j. order (ji_status j)) js) \<and>
       job_table (render coll s) = HeaderRow [''Status'', ''User'', ''Job'', ''Elapsed'', ''Log''] # concat (map job_lines js))"
proof -
  let ?hs = "sorted_list_of_set (host_of ` set (s_executors s))"
  let ?of = "\<lambda>h. filter (\<lambda>e. host_of e = h) (s_executors s)"
  have boxes: "exec_boxes (render coll s) = map (\<lambda>h. host_box coll (s_jobs s) h (?of h)) ?hs"
    by (simp add: render_def group_hosts_entries)
  have "mset (concat (map box_rows (exec_boxes (render coll s)))) =
      sum_list (map (\<lambda>h. mset (map (exec_row (s_jobs s)) (?of h))) ?hs)"
    by (simp add: boxes host_box_def Let_def mset_concat comp_def)
  also have "\<dots> = image_mset (exec_row (s_jobs s)) (mset (concat (map ?of ?hs)))"
    by (rule mset_rows)
  also have "mset (concat (map ?of ?hs)) = mset (s_executors s)"
    using mset_by_host [of ?hs host_of "s_executors s"] by simp
  finally have rows: "mset (concat (map box_rows (exec_boxes (render coll s)))) = mset (map (exec_row (s_jobs s)) (s_executors s))"
    by simp
  let ?js = "sort_key (\<lambda>j. (order (ji_status j), coll (ji_name j))) (s_jobs s)"
  have "sorted (map (\<lambda>j. (order (ji_status j), coll (ji_name j))) ?js)" by simp
  then have "sorted (map (\<lambda>j. order (ji_status j)) ?js)"
    unfolding sorted_map by (rule sorted_wrt_mono_rel [rotated]) (auto simp: less_eq_prod_def)
  moreover have "job_table (render coll s) = HeaderRow [''Status'', ''User'', ''Job'', ''Elapsed'', ''Log''] # concat (map job_lines ?js)"
    by (simp add: render_def)
  ultimately show ?thesis using boxes rows by (intro conjI exI [of _ ?js]) simp_all
qed

section \<open>Tailing a log\<close>

text \<open>The state of the log view: \<open>curLog\<close> (its URL and offset), the text shown, as the bytes of its UTF-8 form, the range
  requests that have been sent and not yet answered, and the log files on the server. \<open>r.text()\<close> decodes
  a body, replacing what is not UTF-8; it is the parameter \<open>decode\<close>, which gives the decoded text in UTF-8 again, so
  that the size of a \<open>Blob\<close> made of a text is its length here.\<close>

record tail_state =
  cur_log :: "(string \<times> nat) option"
  logname :: string
  logview :: string
  inflight :: "(string \<times> nat) list"
  served :: "string \<Rightarrow> bytes"

definition tailLog :: "tail_state \<Rightarrow> tail_state" where
  "tailLog s = (case cur_log s of None \<Rightarrow> s | Some req \<Rightarrow> s\<lparr>inflight := inflight s @ [req]\<rparr>)"

definition openLog :: "string \<Rightarrow> string \<Rightarrow> tail_state \<Rightarrow> tail_state" where
  "openLog name url s = tailLog (s\<lparr>cur_log := Some (url, 0), logname := ''- '' @ name, logview := []\<rparr>)"

text \<open>The answer to the \<open>i\<close>th request: a failed fetch (\<open>None\<close>), or a status and a body. Only status 416 is looked at; the
  text of any other answer, unless it is empty, is shown, and the offset of the current log, whichever it is by
  now, moves on.\<close>

definition reply_text :: "(bytes \<Rightarrow> string) \<Rightarrow> (nat \<times> bytes) option \<Rightarrow> string" where
  "reply_text decode answer =
     (case answer of None \<Rightarrow> [] | Some (code, body) \<Rightarrow> if code = 416 then [] else decode body)"

definition tail_reply :: "(bytes \<Rightarrow> string) \<Rightarrow> nat \<Rightarrow> (nat \<times> bytes) option \<Rightarrow> tail_state \<Rightarrow> tail_state" where
  "tail_reply decode i answer s =
     (let s = s\<lparr>inflight := take i (inflight s) @ drop (Suc i) (inflight s)\<rparr>;
          t = reply_text decode answer
      in if t = [] then s
         else s\<lparr>logview := logview s @ t, cur_log := map_option (\<lambda>(u, off). (u, off + length t)) (cur_log s)\<rparr>)"

text \<open>An answer is timely when it carries no text, or when its request is still the one the script would send now and the
  body is a piece of the log from the offset on which decodes to itself (whole characters, no byte order mark).\<close>

definition timely :: "(bytes \<Rightarrow> string) \<Rightarrow> nat \<Rightarrow> (nat \<times> bytes) option \<Rightarrow> tail_state \<Rightarrow> bool" where
  "timely decode i answer s \<longleftrightarrow>
     reply_text decode answer = [] \<or>
     (\<exists>url off code n. inflight s ! i = (url, off) \<and> cur_log s = Some (url, off) \<and>
        answer = Some (code, take n (drop off (served s url))) \<and>
        decode (take n (drop off (served s url))) = take n (drop off (served s url)))"

text \<open>Clicks, ticks of the timer, answers of any kind in any order, and growing files. With \<open>good\<close> the answers are timely.\<close>

inductive tail_step :: "(bytes \<Rightarrow> string) \<Rightarrow> bool \<Rightarrow> tail_state \<Rightarrow> tail_state \<Rightarrow> bool" for decode good where
  opens: "tail_step decode good s (openLog name url s)"
| ticks: "tail_step decode good s (tailLog s)"
| answers: "i < length (inflight s) \<Longrightarrow> good \<longrightarrow> timely decode i answer s \<Longrightarrow>
    tail_step decode good s (tail_reply decode i answer s)"
| grows: "tail_step decode good s (s\<lparr>served := (served s)(url := served s url @ added)\<rparr>)"

text \<open>The offset is the size of what is shown, and with timely answers that is the beginning of the log.\<close>

definition tail_inv :: "bool \<Rightarrow> tail_state \<Rightarrow> bool" where
  "tail_inv good s \<longleftrightarrow>
     (case cur_log s of
        None \<Rightarrow> True
      | Some (url, off) \<Rightarrow> off = length (logview s) \<and>
          (good \<longrightarrow> off \<le> length (served s url) \<and> logview s = take off (served s url)))"

lemma tail_invD:
  assumes "tail_inv good s" and "cur_log s = Some (url, off)"
  shows "off = length (logview s) \<and> (good \<longrightarrow> off \<le> length (served s url) \<and> logview s = take off (served s url))"
  by (rule assms(1) [unfolded tail_inv_def assms(2) option.case prod.case])

lemma tail_inv_answer:
  assumes "tail_inv good s" and "good \<longrightarrow> timely decode i answer s"
  shows "tail_inv good (tail_reply decode i answer s)"
proof (cases "reply_text decode answer = [] \<or> cur_log s = None")
  case True
  then show ?thesis using assms(1)
    by (cases "cur_log s") (auto simp: tail_inv_def tail_reply_def Let_def)
next
  case False
  then obtain url off where c: "cur_log s = Some (url, off)" and ne: "reply_text decode answer \<noteq> []" by auto
  let ?t = "reply_text decode answer"
  note inv = tail_invD [OF assms(1) c]
  then have off: "off = length (logview s)" by blast
  have piece: "off + length ?t \<le> length (served s url) \<and> logview s @ ?t = take (off + length ?t) (served s url)" if g: good
  proof -
    obtain code n where a: "answer = Some (code, take n (drop off (served s url)))"
      and d: "decode (take n (drop off (served s url))) = take n (drop off (served s url))"
      using assms(2) g ne c by (auto simp: timely_def)
    have t: "?t = take n (drop off (served s url))" using ne a d by (auto simp: reply_text_def)
    have "off \<le> length (served s url)" "logview s = take off (served s url)"
      using inv g by blast+
    then show ?thesis unfolding t by (auto simp: take_add min_def)
  qed
  show ?thesis using c off piece ne by (simp add: tail_inv_def tail_reply_def Let_def)
qed

lemma tail_inv_step: "tail_step decode good s s' \<Longrightarrow> tail_inv good s \<Longrightarrow> tail_inv good s'"
proof (induction rule: tail_step.induct)
  case (answers i s answer)
  then show ?case using tail_inv_answer by blast
next
  case (opens s name url)
  then show ?case by (simp add: tail_inv_def openLog_def tailLog_def)
next
  case (ticks s)
  then show ?case by (cases "cur_log s") (auto simp: tail_inv_def tailLog_def)
next
  case (grows s url added)
  then show ?case by (auto simp: tail_inv_def split: option.splits)
qed

lemma tail_inv_reachable: "(tail_step decode good)\<^sup>*\<^sup>* s s' \<Longrightarrow> tail_inv good s \<Longrightarrow> tail_inv good s'"
  by (induction rule: rtranclp_induct) (auto intro: tail_inv_step)

definition tail_start :: "(string \<Rightarrow> bytes) \<Rightarrow> tail_state" where
  "tail_start fs =
     \<lparr> cur_log = None, logname = [], logview = ''click a job to tail its log'', inflight = [], served = fs \<rparr>"

definition one_log :: "string \<Rightarrow> bytes" where
  "one_log u = (if u = ''c/log'' then ''abc'' else [])"

text \<open>The script does not wait for an answer: two answers to the same range are both shown.\<close>

lemma tail_repeats_log:
  "\<exists>s. (tail_step id False)\<^sup>*\<^sup>* (tail_start one_log) s \<and> served s ''c/log'' = ''abc'' \<and> logview s = ''abcabc''"
proof -
  let ?s1 = "openLog ''job'' ''c/log'' (tail_start one_log)"
  let ?s2 = "tailLog ?s1"
  let ?s3 = "tail_reply id 0 (Some (206, ''abc'')) ?s2"
  let ?s4 = "tail_reply id 0 (Some (206, ''abc'')) ?s3"
  note defs = openLog_def tailLog_def tail_start_def one_log_def tail_reply_def reply_text_def
  have "tail_step id False (tail_start one_log) ?s1" "tail_step id False ?s1 ?s2"
    by (auto intro: tail_step.intros)
  moreover have "tail_step id False ?s2 ?s3" by (rule tail_step.answers) (simp_all add: defs)
  moreover have "tail_step id False ?s3 ?s4" by (rule tail_step.answers) (simp_all add: defs)
  ultimately have "(tail_step id False)\<^sup>*\<^sup>* (tail_start one_log) ?s4" by auto
  moreover have "served ?s4 ''c/log'' = ''abc''" "logview ?s4 = ''abcabc''" by (simp_all add: defs)
  ultimately show ?thesis by blast
qed



end
