(* ===== verification/Build_Script.thy ===== *)
theory Build_Script
  imports Disk
begin

text \<open>
  The build script of the crate (\<open>src/build.rs\<close>): it compiles the three Cap'n Proto schemas and
  instantiates the template of the lustre sanity tests, one test file for each of 50 batches. Paths are
  relative to the directory cargo runs the script in. The schema compiler is the crate capnpc: a
  parameter that may change the disk and may fail. Every \<open>expect\<close> and \<open>panic!\<close> is a value.
\<close>

section \<open>State and panics\<close>

text \<open>The disk, the modes \<open>set_permissions\<close> has given to files, and the lines printed for cargo.\<close>

record build_state =
  work :: disk
  modes :: "path \<rightharpoonup> u32"
  printed :: "string list"

datatype build_panic =
    CompilingSchema string
  | ReadTemplate
  | WriteTest path
  | OpenTest path
  | TestMetadata path
  | TestPermissions path

text \<open>The calls of the generator, beside \<open>write\<close>, that the system may refuse.\<close>

datatype build_call = ReadCall | OpenCall | MetadataCall | ChmodCall

section \<open>Generating the lustre sanity tests\<close>

definition template_path :: path where
  "template_path = [''tests'', ''fs'', ''lustre'', ''sanity'', ''sanity.ktest.in'']"

definition sanity_dir :: path where
  "sanity_dir = [''tests'', ''fs'', ''lustre'', ''sanity'']"

definition sanity_path :: "nat \<Rightarrow> path" where
  "sanity_path i = sanity_dir @ [''sanity-'' @ show_nat i @ ''.ktest'']"

definition sanity_content :: "string \<Rightarrow> nat \<Rightarrow> string" where
  "sanity_content template_content i =
     str_replace ''BATCH'' ''10'' (str_replace ''INDEX'' (show_nat i) template_content)"

text \<open>One turn of the loop: write the file, then give it mode 0755.\<close>

definition generate_one ::
    "(build_call \<Rightarrow> path \<Rightarrow> bool) \<Rightarrow> int \<Rightarrow> string \<Rightarrow> nat \<Rightarrow> build_state \<Rightarrow> (build_panic + unit) \<times> build_state" where
  "generate_one refused now template_content i s =
     (let p = sanity_path i
      in case write_file (work s) now p (sanity_content template_content i) of
           (False, d) \<Rightarrow> (Inl (WriteTest p), s\<lparr>work := d\<rparr>)
         | (True, d) \<Rightarrow>
             let s' = s\<lparr>work := d\<rparr>
             in if refused OpenCall p then (Inl (OpenTest p), s')
                else if refused MetadataCall p then (Inl (TestMetadata p), s')
                else if refused ChmodCall p then (Inl (TestPermissions p), s')
                else (Inr (), s'\<lparr>modes := (modes s')(p \<mapsto> 493)\<rparr>))"

fun generate_loop ::
    "(build_call \<Rightarrow> path \<Rightarrow> bool) \<Rightarrow> int \<Rightarrow> string \<Rightarrow> nat list \<Rightarrow> build_state \<Rightarrow> (build_panic + unit) \<times> build_state" where
  "generate_loop refused now template_content [] s = (Inr (), s)"
| "generate_loop refused now template_content (i # is) s =
     (case generate_one refused now template_content i s of
        (Inl e, s') \<Rightarrow> (Inl e, s')
      | (Inr _, s') \<Rightarrow> generate_loop refused now template_content is s')"

definition rerun_line :: "string \<Rightarrow> string" where
  "rerun_line f = ''cargo:rerun-if-changed='' @ f"

definition generate_lustre_sanity_tests ::
    "(build_call \<Rightarrow> path \<Rightarrow> bool) \<Rightarrow> int \<Rightarrow> build_state \<Rightarrow> (build_panic + unit) \<times> build_state" where
  "generate_lustre_sanity_tests refused now s =
     (if \<not> path_exists (work s) template_path then (Inr (), s)
      else case (if refused ReadCall template_path then None else read_file (work s) template_path) of
             None \<Rightarrow> (Inl ReadTemplate, s)
           | Some (template_content, _) \<Rightarrow>
               (case generate_loop refused now template_content [1..<51] s of
                  (Inl e, s') \<Rightarrow> (Inl e, s')
                | (Inr _, s') \<Rightarrow>
                    (Inr (), s'\<lparr>printed := printed s' @ [rerun_line ''tests/fs/lustre/sanity/sanity.ktest.in'']\<rparr>)))"

section \<open>The script\<close>

definition schemas :: "string list" where
  "schemas = [''src/testresult.capnp'', ''src/durations.capnp'', ''src/branchlog.capnp'']"

fun compile_schemas ::
    "(string \<Rightarrow> disk \<Rightarrow> bool \<times> disk) \<Rightarrow> string list \<Rightarrow> build_state \<Rightarrow> (build_panic + unit) \<times> build_state" where
  "compile_schemas capnpc [] s = (Inr (), s)"
| "compile_schemas capnpc (f # fs) s =
     (let s1 = s\<lparr>printed := printed s @ [rerun_line f]\<rparr>
      in case capnpc f (work s1) of
           (False, d) \<Rightarrow> (Inl (CompilingSchema f), s1\<lparr>work := d\<rparr>)
         | (True, d) \<Rightarrow> compile_schemas capnpc fs (s1\<lparr>work := d\<rparr>))"

definition build_main ::
    "(string \<Rightarrow> disk \<Rightarrow> bool \<times> disk) \<Rightarrow> (build_call \<Rightarrow> path \<Rightarrow> bool) \<Rightarrow> int \<Rightarrow> build_state \<Rightarrow>
     (build_panic + unit) \<times> build_state" where
  "build_main capnpc refused now s =
     (case compile_schemas capnpc schemas s of
        (Inl e, s') \<Rightarrow> (Inl e, s')
      | (Inr _, s') \<Rightarrow> generate_lustre_sanity_tests refused now s')"

section \<open>The generated texts\<close>

text \<open>No placeholder survives in a generated test, whatever the template is.\<close>

lemma placeholders_no_digit:
  "c \<in> set ''INDEX'' \<union> set ''BATCH'' \<Longrightarrow> c \<notin> set (show_nat i)"
  by (rule show_nat_digits) (auto simp: digit_value_def)

lemma sanity_content_complete:
  "\<not> str_contains (sanity_content t i) ''INDEX''" "\<not> str_contains (sanity_content t i) ''BATCH''"
proof -
  have "\<not> sublist ''INDEX'' (str_replace ''INDEX'' (show_nat i) t)"
    using placeholders_no_digit [of _ i] by (intro str_replace_gone) auto
  then show "\<not> str_contains (sanity_content t i) ''INDEX''"
    using sublist_str_replace [of "''INDEX''" "''BATCH''" "''10''"] by (auto simp: sanity_content_def str_contains_iff)
  show "\<not> str_contains (sanity_content t i) ''BATCH''"
    using str_replace_gone [of "''10''" "''BATCH''"] by (simp add: sanity_content_def str_contains_iff)
qed

lemma sanity_path_inject: "m < 2 ^ 64 \<Longrightarrow> n < 2 ^ 64 \<Longrightarrow> sanity_path m = sanity_path n \<longleftrightarrow> m = n"
  by (simp add: sanity_path_def show_nat_inject)

section \<open>An undisturbed run\<close>

text \<open>What a run over the batches \<open>is\<close> has made of the state: the tests of these batches are written with
  mode 0755, every other place is as it was.\<close>

definition generated :: "string \<Rightarrow> int \<Rightarrow> nat set \<Rightarrow> build_state \<Rightarrow> build_state \<Rightarrow> bool" where
  "generated t now I s s' \<longleftrightarrow>
     (\<forall>i\<in>I. node_at (tree (work s')) (sanity_path i) = Some (File (sanity_content t i) now)) \<and>
     (\<forall>p. p \<notin> sanity_path ` I \<longrightarrow> same_place (node_at (tree (work s)) p) (node_at (tree (work s')) p)) \<and>
     modes s' = (\<lambda>p. if p \<in> sanity_path ` I then Some 493 else modes s p) \<and>
     fault (work s') = fault (work s) \<and> printed s' = printed s"

lemma same_place_is_dir: "same_place (node_at (tree d) p) (node_at (tree d') p) \<Longrightarrow> is_dir d' p \<longleftrightarrow> is_dir d p"
  by (auto simp: same_place_def is_dir_def)

lemma same_place_file: "same_place a b \<Longrightarrow> a = Some (File x t) \<or> b = Some (File x t) \<Longrightarrow> a = b"
  by (auto simp: same_place_def)

lemma write_below_ok:
  assumes "no_faults d" and "is_dir d p" and "\<not> is_dir d (p @ [c])"
  obtains d' where "write_file d now (p @ [c]) x = (True, d')"
proof -
  obtain es where "node_at (tree d) p = Some (Dir es)"
    using assms(2) by (auto simp: is_dir_def split: option.splits node.splits)
  then obtain n' where n': "put_node (tree d) (p @ [c]) (Some (File [] now)) = Some n'"
    using put_node_enabled by blast
  moreover obtain es' where "node_at n' p = Some (Dir es')"
    using put_node_above [OF n', of p] by (auto simp: strict_prefix_def)
  then obtain n'' where "put_node n' (p @ [c]) (Some (File x now)) = Some n''"
    using put_node_enabled by blast
  ultimately show thesis
    using assms that by (auto simp: write_file_def create_file_def fill_file_def no_faults_def)
qed

lemma generate_one_ok:
  assumes "no_faults (work s)" and "\<And>c p. \<not> refused c p" and "is_dir (work s) sanity_dir"
    and "\<not> is_dir (work s) (sanity_path i)"
  obtains s' where "generate_one refused now t i s = (Inr (), s')" and "generated t now {i} s s'"
proof -
  obtain d where w: "write_file (work s) now (sanity_path i) (sanity_content t i) = (True, d)"
    using write_below_ok [OF assms(1,3), of "''sanity-'' @ show_nat i @ ''.ktest''"] assms(4)
    unfolding sanity_path_def by metis
  have "fault d = fault (work s)"
    using puts_fault [OF puts_write [of "sanity_path i" UNIV "work s" now "sanity_content t i"]] w by simp
  moreover have "same_place (node_at (tree (work s)) p) (node_at (tree d) p)" if "p \<noteq> sanity_path i" for p
    using write_file_other [OF that, of "work s" now] w by (metis snd_conv)
  ultimately have "generated t now {i} s (s\<lparr>work := d, modes := (modes s)(sanity_path i \<mapsto> 493)\<rparr>)"
    using write_file_at [OF w] by (auto simp: generated_def)
  then show thesis using that w assms(2) by (simp add: generate_one_def Let_def)
qed

lemma generated_trans:
  assumes "generated t now I s s1" and "generated t now J s1 s2"
    and "sanity_path ` I \<inter> sanity_path ` J = {}"
  shows "generated t now (I \<union> J) s s2"
proof -
  have "node_at (tree (work s2)) (sanity_path i) = Some (File (sanity_content t i) now)" if "i \<in> I" for i
  proof -
    have "sanity_path i \<notin> sanity_path ` J" using assms(3) that by blast
    then have "same_place (node_at (tree (work s1)) (sanity_path i)) (node_at (tree (work s2)) (sanity_path i))"
      using assms(2) by (simp add: generated_def)
    moreover have "node_at (tree (work s1)) (sanity_path i) = Some (File (sanity_content t i) now)"
      using assms(1) that by (simp add: generated_def)
    ultimately show ?thesis using same_place_file by metis
  qed
  moreover have "same_place (node_at (tree (work s)) p) (node_at (tree (work s2)) p)"
    if "p \<notin> sanity_path ` (I \<union> J)" for p
    using assms(1,2) that same_place_trans unfolding generated_def image_Un by blast
  moreover have "modes s2 = (\<lambda>p. if p \<in> sanity_path ` (I \<union> J) then Some 493 else modes s p)"
    using assms(1,2) by (auto simp: generated_def fun_eq_iff)
  moreover have "node_at (tree (work s2)) (sanity_path i) = Some (File (sanity_content t i) now)" if "i \<in> J" for i
    using assms(2) that by (simp add: generated_def)
  moreover have "fault (work s2) = fault (work s) \<and> printed s2 = printed s"
    using assms(1,2) by (simp add: generated_def)
  ultimately show ?thesis unfolding generated_def by blast
qed

lemma generate_loop_ok:
  assumes "no_faults (work s)" and "\<And>c p. \<not> refused c p" and "is_dir (work s) sanity_dir"
    and "\<And>i. i \<in> set is \<Longrightarrow> i < 2 ^ 64 \<and> \<not> is_dir (work s) (sanity_path i)" and "distinct is"
  obtains s' where "generate_loop refused now t is s = (Inr (), s')" and "generated t now (set is) s s'"
  using assms
proof (induction "is" arbitrary: s thesis)
  case Nil
  then show ?case by (auto simp: generated_def)
next
  case (Cons i "is")
  obtain s1 where s1: "generate_one refused now t i s = (Inr (), s1)" and g1: "generated t now {i} s s1"
    using generate_one_ok Cons.prems by (metis list.set_intros(1))
  have apart: "sanity_path j \<noteq> sanity_path i" if "j \<in> set is" for j
    using that Cons.prems(5,6) sanity_path_inject by (metis distinct.simps(2) list.set_intros)
  have same: "is_dir (work s1) p \<longleftrightarrow> is_dir (work s) p" if "p \<noteq> sanity_path i" for p
    using g1 that by (intro same_place_is_dir) (simp add: generated_def)
  have "no_faults (work s1)" using g1 Cons.prems(2) by (simp add: generated_def no_faults_def)
  moreover have "is_dir (work s1) sanity_dir"
    using same Cons.prems(4) by (simp add: sanity_path_def)
  moreover have "j < 2 ^ 64 \<and> \<not> is_dir (work s1) (sanity_path j)" if "j \<in> set is" for j
    using that Cons.prems(5) [of j] same [OF apart [OF that]] by simp
  moreover have "distinct is" using Cons.prems(6) by simp
  ultimately obtain s2 where s2: "generate_loop refused now t is s1 = (Inr (), s2)" and g2: "generated t now (set is) s1 s2"
    using Cons.IH [of s1, OF _ _ Cons.prems(3)] by blast
  have "generated t now (set (i # is)) s s2"
    using generated_trans [OF g1 g2] apart by fastforce
  then show ?case using Cons.prems(1) s1 s2 by simp
qed

text \<open>The schema compiler, run on the schemas one after the other from the disk there is, succeeds and writes beside the
  schemas only: the test directory stays as it is.\<close>

fun compiles_beside :: "(string \<Rightarrow> disk \<Rightarrow> bool \<times> disk) \<Rightarrow> string list \<Rightarrow> disk \<Rightarrow> bool" where
  "compiles_beside capnpc [] d \<longleftrightarrow> True"
| "compiles_beside capnpc (f # fs) d \<longleftrightarrow>
     (let (ok, d') = capnpc f d
      in ok \<and> fault d' = fault d \<and> node_at (tree d') [''tests''] = node_at (tree d) [''tests''] \<and>
         compiles_beside capnpc fs d')"

lemma compile_schemas_ok:
  assumes "compiles_beside capnpc fs (work s)"
  obtains s' where "compile_schemas capnpc fs s = (Inr (), s')" and "fault (work s') = fault (work s)"
    and "node_at (tree (work s')) [''tests''] = node_at (tree (work s)) [''tests'']"
    and "modes s' = modes s" and "printed s' = printed s @ map rerun_line fs"
  using assms
proof (induction fs arbitrary: s thesis)
  case (Cons f fs)
  obtain d where d: "capnpc f (work s) = (True, d)" "fault d = fault (work s)"
      "node_at (tree d) [''tests''] = node_at (tree (work s)) [''tests'']" "compiles_beside capnpc fs d"
    using Cons.prems(2) by (cases "capnpc f (work s)") auto
  show ?case
    by (rule Cons.IH [of "s\<lparr>printed := printed s @ [rerun_line f], work := d\<rparr>"])
      (use Cons.prems d in \<open>auto simp: Let_def\<close>)
qed simp

lemma below_tests: "node_at n [''tests''] = node_at n' [''tests''] \<Longrightarrow> node_at n (''tests'' # p) = node_at n' (''tests'' # p)"
  using node_at_below [of n "[''tests'']" n' p] by simp

lemma template_read: "read_file d template_path = Some (t, m) \<Longrightarrow> path_exists d template_path \<and> is_dir d sanity_dir"
  using is_dir_parent [of d sanity_dir "''sanity.ktest.in''"]
  by (auto simp: read_file_def path_exists_def template_path_def sanity_dir_def split: option.splits node.splits)

text \<open>C40: When the schemas compile, nothing is refused and the template of the sanity tests is there,
  the build script ends without a panic; each of the 50 test files then holds the template with its
  own number for INDEX and 10 for BATCH, free of either placeholder, executable (0755), no other file
  of the test tree is touched, and cargo is told of the schemas and of the template.\<close>

theorem build_generates_tests:
  assumes "compiles_beside capnpc schemas (work s)" and "no_faults (work s)" and "\<And>c p. \<not> refused c p"
    and "read_file (work s) template_path = Some (t, m)"
    and "\<And>i. i \<in> {1..50} \<Longrightarrow> \<not> is_dir (work s) (sanity_path i)"
  shows "\<exists>s'. build_main capnpc refused now s = (Inr (), s') \<and>
    (\<forall>i\<in>{1..50}. read_file (work s') (sanity_path i) = Some (sanity_content t i, now) \<and>
       \<not> str_contains (sanity_content t i) ''INDEX'' \<and> \<not> str_contains (sanity_content t i) ''BATCH'' \<and>
       modes s' (sanity_path i) = Some 493) \<and>
    (\<forall>p. ''tests'' # p \<notin> sanity_path ` {1..50} \<longrightarrow>
       same_place (node_at (tree (work s)) (''tests'' # p)) (node_at (tree (work s')) (''tests'' # p)) \<and>
       modes s' (''tests'' # p) = modes s (''tests'' # p)) \<and>
    printed s' = printed s @ map rerun_line (schemas @ [''tests/fs/lustre/sanity/sanity.ktest.in''])"
proof -
  obtain s1 where s1: "compile_schemas capnpc schemas s = (Inr (), s1)" "fault (work s1) = fault (work s)"
      "node_at (tree (work s1)) [''tests''] = node_at (tree (work s)) [''tests'']"
      "modes s1 = modes s" "printed s1 = printed s @ map rerun_line schemas"
    using compile_schemas_ok [OF assms(1)] by blast
  note same = below_tests [OF s1(3)]
  have r1: "read_file (work s1) template_path = Some (t, m)"
    using assms(4) by (simp add: read_file_def template_path_def same)
  have nd: "\<not> is_dir (work s1) (sanity_path i)" if "i \<in> {1..50}" for i
    using assms(5) [OF that] by (simp add: is_dir_def sanity_path_def sanity_dir_def same)
  obtain s2 where s2: "generate_loop refused now t [1..<51] s1 = (Inr (), s2)" and g: "generated t now (set [1..<51]) s1 s2"
    by (rule generate_loop_ok [of s1 refused "[1..<51]" now t])
      (use assms(2,3) s1(2) template_read [OF r1] nd in \<open>auto simp: no_faults_def\<close>)
  let ?s' = "s2\<lparr>printed := printed s2 @ [rerun_line ''tests/fs/lustre/sanity/sanity.ktest.in'']\<rparr>"
  have "build_main capnpc refused now s = (Inr (), ?s')"
    using s1(1) s2 r1 template_read [OF r1] assms(3) by (simp add: build_main_def generate_lustre_sanity_tests_def)
  moreover have "set [1..<51] = {1..50}" by auto
  ultimately show ?thesis
    using g s1(4,5) same by (intro exI [of _ ?s']) (auto simp: generated_def read_file_def sanity_content_complete)
qed

lemma build_without_template:
  "\<not> path_exists (work s) template_path \<Longrightarrow> generate_lustre_sanity_tests refused now s = (Inr (), s)"
  by (simp add: generate_lustre_sanity_tests_def)

section \<open>Witness\<close>

definition example_build :: build_state where
  "example_build =
     \<lparr>work = \<lparr>tree = Dir [(''tests'', Dir [(''fs'', Dir [(''lustre'', Dir [(''sanity'',
          Dir [(''sanity.ktest.in'', File ''split BATCH INDEX'' 1)])])])])], fault = \<lambda>_ _. False\<rparr>,
      modes = Map.empty, printed = []\<rparr>"

theorem build_generates_tests_witness:
  "read_file (work (snd (build_main (\<lambda>f d. (True, d)) (\<lambda>_ _. False) 5 example_build))) (sanity_path 37) =
     Some (''split 10 37'', 5)"
proof -
  have "read_file (work example_build) template_path = Some (''split BATCH INDEX'', 1)"
    by code_simp
  moreover have "\<not> is_dir (work example_build) (sanity_path i)" for i
    by (simp add: example_build_def is_dir_def sanity_path_def sanity_dir_def)
  ultimately have "\<exists>s'. build_main (\<lambda>f d. (True, d)) (\<lambda>_ _. False) 5 example_build = (Inr (), s') \<and>
      read_file (work s') (sanity_path 37) = Some (sanity_content ''split BATCH INDEX'' 37, 5)"
    using build_generates_tests [of "\<lambda>f d. (True, d)" example_build "\<lambda>_ _. False" "''split BATCH INDEX''" 1 5]
    by (force simp: schemas_def no_faults_def example_build_def)
  moreover have "sanity_content ''split BATCH INDEX'' 37 = ''split 10 37''"
    by code_simp
  ultimately show ?thesis by auto
qed

end
