(* ===== verification/Unit_Tests.thy ===== *)
theory Unit_Tests
  imports Cgi
begin

text \<open>
  The unit tests of the crate (the \<open>#[cfg(test)]\<close> modules of \<open>src/lib.rs\<close>, \<open>src/users.rs\<close>,
  \<open>src/jobs.rs\<close> and \<open>src/bin/cgi.rs\<close>) run on the model. A test is a Boolean: the conjunction of its
  assertions, false where an \<open>unwrap\<close>, \<open>expect\<close> or an index would panic. The tests of \<open>users.rs\<close> start
  from JSON5 text; the reader is the parameter \<open>parse\<close>, and what the text denotes is written out as
  the raw configuration it has to return.
\<close>

section \<open>encode_env_tests\<close>

definition pairs_map :: "(string \<times> string) list \<Rightarrow> (string, string) btree" where
  "pairs_map pairs = bt_collect pairs"

definition is_err :: "'e + 'a \<Rightarrow> bool" where
  "is_err r = (case r of Inl _ \<Rightarrow> True | Inr _ \<Rightarrow> False)"

definition empty_is_empty_string :: bool where
  "empty_is_empty_string \<longleftrightarrow> encode_env bt_empty = Inr ''''"

definition sorted_join :: bool where
  "sorted_join \<longleftrightarrow> encode_env (pairs_map [(''FOO'', ''1''), (''BAR'', ''x'')]) = Inr ''BAR=x,FOO=1''"

definition rejects_special_chars :: bool where
  "rejects_special_chars \<longleftrightarrow>
     is_err (encode_env (pairs_map [(''A B'', ''1'')])) \<and>
     is_err (encode_env (pairs_map [(''A=B'', ''1'')])) \<and>
     is_err (encode_env (pairs_map [(''A,B'', ''1'')])) \<and>
     is_err (encode_env (pairs_map [(''A'', ''x y'')])) \<and>
     is_err (encode_env (pairs_map [(''A'', ''x=y'')])) \<and>
     is_err (encode_env (pairs_map [(''A'', ''x,y'')])) \<and>
     is_err (encode_env (pairs_map [(''A/B'', ''1'')])) \<and>
     is_err (encode_env (pairs_map [(''A'', ''x/y'')]))"

section \<open>kernel_key_tests\<close>

definition empty_kernel_preserves_legacy_format :: bool where
  "empty_kernel_preserves_legacy_format \<longleftrightarrow>
     subtest_result_key ''fs/bcachefs/single_device.ktest'' ''first_thing'' '''' '''' =
       ''fs.bcachefs.single_device.first_thing'' \<and>
     subtest_result_key ''boot.ktest'' ''boot'' '''' '''' = ''boot.boot'' \<and>
     subtest_result_key ''fs/bcachefs/fstests.ktest'' ''generic/001'' '''' '''' =
       ''fs.bcachefs.fstests.generic.001''"

definition kernel_inserts_between_test_and_subtest :: bool where
  "kernel_inserts_between_test_and_subtest \<longleftrightarrow>
     subtest_result_key ''fs/bcachefs/single_device.ktest'' ''first_thing'' ''debian/forky'' '''' =
       ''fs.bcachefs.single_device@debian_forky.first_thing'' \<and>
     subtest_result_key ''boot.ktest'' ''boot'' ''upstream/stable-kasan'' '''' =
       ''boot@upstream_stable-kasan.boot''"

definition env_appends_after_kernel :: bool where
  "env_appends_after_kernel \<longleftrightarrow>
     subtest_result_key ''fs/bcachefs/ec.ktest'' ''ec'' '''' ''ktest_x=1'' = ''fs.bcachefs.ec@ktest_x=1.ec'' \<and>
     subtest_result_key ''fs/bcachefs/ec.ktest'' ''ec'' ''upstream/stable-default'' ''ktest_x=1'' =
       ''fs.bcachefs.ec@upstream_stable-default@ktest_x=1.ec'' \<and>
     subtest_result_key ''boot.ktest'' ''boot'' '''' '''' = ''boot.boot''"

section \<open>The tests of users.rs\<close>

text \<open>\<open>format!("{:?}", s)\<close> of a string: quoted, with the escapes of \<open>char::escape_debug\<close> on ASCII.\<close>

definition hex_digit :: "nat \<Rightarrow> char" where
  "hex_digit d = (if d < 10 then digit_char d else char_of (87 + d))"

definition debug_char :: "char \<Rightarrow> string" where
  "debug_char c =
     (let n = (of_char c :: nat)
      in if n = 0 then [CHR 0x5C, CHR ''0'']
         else if n = 9 then [CHR 0x5C, CHR ''t'']
         else if n = 10 then [CHR 0x5C, CHR ''n'']
         else if n = 13 then [CHR 0x5C, CHR ''r'']
         else if n = 34 \<or> n = 92 then [CHR 0x5C, c]
         else if n < 32 \<or> n = 127 then
           [CHR 0x5C, CHR ''u'', CHR ''{''] @ (if n < 16 then [] else [hex_digit (n div 16)]) @ [hex_digit (n mod 16), CHR ''}'']
         else [c])"

definition debug_str :: "string \<Rightarrow> string" where
  "debug_str s = [CHR 0x22] @ concat (map debug_char s) @ [CHR 0x22]"

text \<open>\<open>err.to_string()\<close>: the outermost message. What the JSON5 reader and the system say is \<open>other\<close>.\<close>

fun user_error_text :: "string \<Rightarrow> user_error \<Rightarrow> string" where
  "user_error_text other (Cycle stack name) =
     ''cycle in test_group extends: '' @ join '' -> '' stack @ '' -> '' @ name"
| "user_error_text other (NotDefined name) = ''test_group '' @ debug_str name @ '' not defined''"
| "user_error_text other (UndefinedReference bname g) =
     ''branch '' @ debug_str bname @ '' references undefined test_group '' @ debug_str g"
| "user_error_text other BadSyntax = other"
| "user_error_text other (Unreadable p) = other"

text \<open>An object of the configuration in which no field is given.\<close>

definition raw_group :: RawTestGroup where
  "raw_group = \<lparr> extends = None, r_max_commits = None, r_nice = None, r_test_duration_nice = None,
     r_test_always_passes_nice = None, r_tests = None, r_kernels = None, r_env = None \<rparr>"

definition extends_config :: RawUserrc where
  "extends_config =
     \<lparr> raw_groups = bt_collect
         [(''base'', raw_group\<lparr>r_max_commits := Some 100, r_nice := Some 0,
             r_tests := Some [''a.ktest'', ''b.ktest''], r_kernels := Some [''upstream/stable-default'']\<rparr>),
          (''ext'', raw_group\<lparr>extends := Some ''base'', r_max_commits := Some 5, r_nice := Some 5,
             r_kernels := Some [''upstream/stable-kasan'', ''upstream/stable-lockdep'']\<rparr>)],
       raw_branches = bt_collect
         [(''br'', \<lparr> r_fetch = ''linux master'', r_repo = ''linux'', r_test_groups = [''base'', ''ext''] \<rparr>)] \<rparr>"

definition extends_inherits_tests_and_overrides_kernels :: "(string \<Rightarrow> RawUserrc option) \<Rightarrow> string \<Rightarrow> bool" where
  "extends_inherits_tests_and_overrides_kernels parse s \<longleftrightarrow>
     (case userrc_read_str parse s of
        Inl _ \<Rightarrow> False
      | Inr rc \<Rightarrow>
          (case (bt_get (test_groups rc) ''base'', bt_get (test_groups rc) ''ext'') of
             (Some base, Some ext) \<Rightarrow>
               kernels base = [''upstream/stable-default''] \<and>
               tests ext = [''a.ktest'', ''b.ktest''] \<and>
               kernels ext = [''upstream/stable-kasan'', ''upstream/stable-lockdep''] \<and>
               max_commits ext = 5 \<and>
               nice ext = 5
           | _ \<Rightarrow> False))"

definition env_config :: RawUserrc where
  "env_config =
     \<lparr> raw_groups = bt_collect
         [(''base'', raw_group\<lparr>r_tests := Some [''a.ktest''], r_kernels := Some [''k''],
             r_env := Some (bt_collect [(''FOO'', ''1''), (''BAR'', ''base'')])\<rparr>),
          (''ext'', raw_group\<lparr>extends := Some ''base'',
             r_env := Some (bt_collect [(''BAR'', ''child''), (''BAZ'', ''2'')])\<rparr>)],
       raw_branches = bt_empty \<rparr>"

definition env_merges_with_parent :: "(string \<Rightarrow> RawUserrc option) \<Rightarrow> string \<Rightarrow> bool" where
  "env_merges_with_parent parse s \<longleftrightarrow>
     (case userrc_read_str parse s of
        Inl _ \<Rightarrow> False
      | Inr rc \<Rightarrow>
          (case bt_get (test_groups rc) ''ext'' of
             Some ext \<Rightarrow>
               bt_get (env ext) ''FOO'' = Some ''1'' \<and>
               bt_get (env ext) ''BAR'' = Some ''child'' \<and>
               bt_get (env ext) ''BAZ'' = Some ''2''
           | None \<Rightarrow> False))"

definition cycle_config :: RawUserrc where
  "cycle_config =
     \<lparr> raw_groups = bt_collect [(''a'', raw_group\<lparr>extends := Some ''b''\<rparr>), (''b'', raw_group\<lparr>extends := Some ''a''\<rparr>)],
       raw_branches = bt_empty \<rparr>"

definition cycle_detected :: "string \<Rightarrow> (string \<Rightarrow> RawUserrc option) \<Rightarrow> string \<Rightarrow> bool" where
  "cycle_detected other parse s \<longleftrightarrow>
     (case userrc_read_str parse s of
        Inl err \<Rightarrow> str_contains (user_error_text other err) ''cycle''
      | Inr _ \<Rightarrow> False)"

definition unknown_group_config :: RawUserrc where
  "unknown_group_config =
     \<lparr> raw_groups = bt_collect [(''base'', raw_group\<lparr>r_tests := Some [''a.ktest''], r_kernels := Some [''k'']\<rparr>)],
       raw_branches = bt_collect
         [(''br'', \<lparr> r_fetch = ''x'', r_repo = ''linux'', r_test_groups = [''base'', ''nope''] \<rparr>)] \<rparr>"

definition unknown_test_group_ref_errors :: "string \<Rightarrow> (string \<Rightarrow> RawUserrc option) \<Rightarrow> string \<Rightarrow> bool" where
  "unknown_test_group_ref_errors other parse s \<longleftrightarrow>
     (case userrc_read_str parse s of
        Inl err \<Rightarrow> str_contains (user_error_text other err) ''nope''
      | Inr _ \<Rightarrow> False)"

section \<open>The tests of jobs.rs\<close>

definition done_needs_a_verdict :: bool where
  "done_needs_a_verdict \<longleftrightarrow>
     result_is_done Passed \<and> result_is_done Failed \<and> result_is_done Notrun \<and> result_is_done FailedToRun \<and>
     \<not> result_is_done Inprogress \<and> \<not> result_is_done Unknown"

definition inprogress_is_not_re_emitted :: bool where
  "inprogress_is_not_re_emitted \<longleftrightarrow>
     job_wanted None \<and> job_wanted (Some Unknown) \<and> \<not> job_wanted (Some Passed) \<and> \<not> job_wanted (Some Inprogress)"

section \<open>single_test_stats_tests\<close>

text \<open>\<open>Utc::now()\<close> of each result is the argument \<open>now\<close>.\<close>

definition test_commit :: "int \<Rightarrow> (string \<times> TestStatus \<times> u64) list \<Rightarrow> CommitResults" where
  "test_commit now ts =
     \<lparr> cr_id = [], cr_message = [],
       cr_tests = bt_collect (map (\<lambda>(name, st, dur). (name, \<lparr> status = st, starttime = now, duration = dur \<rparr>)) ts) \<rparr>"

definition counts_completed_results_for_one_test :: "int \<Rightarrow> bool" where
  "counts_completed_results_for_one_test now \<longleftrightarrow>
     single_test_stats
       [test_commit now [(''test'', Passed, 60)],
        test_commit now [(''test'', Failed, 120)],
        test_commit now [(''test'', Inprogress, 0)]] =
     Some \<lparr> completed = 2, ss_passed = 1, ss_failed = 1, ss_duration = 180 \<rparr>"

definition rejects_multiple_test_names :: "int \<Rightarrow> bool" where
  "rejects_multiple_test_names now \<longleftrightarrow>
     single_test_stats
       [test_commit now [(''first'', Passed, 60)],
        test_commit now [(''second'', Failed, 120)]] = None"

definition requires_a_completed_result :: "int \<Rightarrow> bool" where
  "requires_a_completed_result now \<longleftrightarrow>
     single_test_stats [test_commit now [(''test'', Inprogress, 0)]] = None \<and> single_test_stats [] = None"

section \<open>The tests pass\<close>

lemma lib_tests_pass:
  "empty_is_empty_string \<and> sorted_join \<and> rejects_special_chars"
  by code_simp

lemma key_tests_pass:
  "empty_kernel_preserves_legacy_format \<and> kernel_inserts_between_test_and_subtest \<and> env_appends_after_kernel"
  by code_simp

lemma jobs_tests_pass: "done_needs_a_verdict \<and> inprogress_is_not_re_emitted"
  by code_simp

lemma stats_tests_pass:
  "counts_completed_results_for_one_test now" "rejects_multiple_test_names now" "requires_a_completed_result now"
  by (simp_all add: counts_completed_results_for_one_test_def rejects_multiple_test_names_def
      requires_a_completed_result_def test_commit_def single_test_stats_def bt_collect_def bt_extend_def)

lemma users_tests_pass:
  "parse s = Some extends_config \<Longrightarrow> extends_inherits_tests_and_overrides_kernels parse s"
  "parse s = Some env_config \<Longrightarrow> env_merges_with_parent parse s"
  "parse s = Some cycle_config \<Longrightarrow> cycle_detected other parse s"
  "parse s = Some unknown_group_config \<Longrightarrow> unknown_test_group_ref_errors other parse s"
  by (simp_all add: extends_inherits_tests_and_overrides_kernels_def env_merges_with_parent_def cycle_detected_def
      unknown_test_group_ref_errors_def userrc_read_str_def extends_config_def env_config_def cycle_config_def
      unknown_group_config_def raw_group_def resolve_group.simps bt_collect_def bt_extend_def bt_contains_key_def
      merge_group_def debug_str_def debug_char_def Let_def)

end
