(* ===== verification/Spec2Isabelle.thy ===== *)
theory Spec2Isabelle
  imports Daemon_Loop Daemon_Progress Rm_Results Ci_Status Syzbot Page_Scripts Build_Script Unit_Tests
begin

text \<open>
  A model of the Rust programs of ktest (\<open>src/src\<close>): a continuous-integration service that builds and tests
  kernels. The library crate (\<open>lib.rs\<close>, \<open>jobs.rs\<close>, \<open>users.rs\<close>, \<open>api.rs\<close>) is shared by the programs under \<open>bin/\<close>.

  \<^bold>\<open>The parts and how they interact.\<close> Users keep a configuration of test groups and branches (\<open>users.rs\<close>). The daemon
  (\<open>ci-daemon.rs\<close>) computes from it, the repositories and the recorded results which jobs are wanted (\<open>jobs.rs\<close>), keeps a
  window of them submitted, and runs each batch on a remote machine that is restarted until every subtest has a
  verdict. Verdicts are kept in the store \<open>TestResultsStore\<close>, which mirrors one \<open>.capnp\<close> file per commit in the results directory.
  \<open>gen-avg-duration\<close> condenses the results to average durations, which the daemon reads back to weigh jobs. \<open>gc-results\<close> removes
  results of commits that are no longer on a branch, \<open>rm-results\<close> those the operator selects. The dashboard (\<open>cgi.rs\<close>)
  and the command line client (\<open>ci-status.rs\<close>) show the results along a branch; the client reads the local results
  directory, a mirror of it over HTTP, or the JSON views of the dashboard. \<open>update-lcov\<close> merges coverage data, \<open>syzbot-get\<close>
  downloads reproducers.

  \<^bold>\<open>Theories.\<close>
  \<^item> \<open>Rust_Prelude\<close>, \<open>Rust_BTreeMap\<close>: strings, numbers and maps of the Rust standard library, the codec and map interfaces
    (locales) the components share, lemmas.
  \<^item> \<open>Disk\<close>: files, directories, links; every system call may be refused (\<open>fault\<close>). \<open>puts\<close> is the footprint of a run.
  \<^item> \<open>Test_Status\<close>, \<open>Ktestrc\<close>, \<open>Result_Keys\<close>: statuses, server configuration, names of results (\<open>lib.rs\<close>).
  \<^item> \<open>Userrc\<close>: \<open>users.rs\<close>; the reader is compared with a denotation of groups along \<open>extends\<close>.
  \<^item> \<open>Results_Disk\<close>, \<open>Results_Store\<close>: the files of a commit and \<open>TestResultsStore\<close> (\<open>lib.rs\<close>), with the store as a
    state machine: a reachable state mirrors the disk but for the files whose last write was refused or that another
    program changed, and the operations refine those of a map.
  \<^item> \<open>Durations\<close>: \<open>gen-avg-duration.rs\<close> and the binary search \<open>test_stats\<close>.
  \<^item> \<open>Job_Matrix\<close>: \<open>jobs.rs\<close>, from configuration to the ordered list of wanted jobs.
  \<^item> \<open>Daemon_Job\<close>, \<open>Daemon_Main\<close>, \<open>Daemon_Loop\<close>: \<open>ci-daemon.rs\<close>: a batch with all its commands; the window, executors and
    fetchers; the main loop as a state machine beside the executors, with the maintenance programs.
  \<^item> \<open>Daemon_Progress\<close>: a ledger of batches against the wanted points of the job matrix, idle batches and unreadable
    results, which bounds the work of the executors.
  \<^item> \<open>Branch_Query\<close>: the queries along a branch, the prefetching of files, the branch log with the setters and getters of its
    message (\<open>lib.rs\<close>).
  \<^item> \<open>Gc_Results\<close>, \<open>Rm_Results\<close>, \<open>Lcov\<close>, \<open>Syzbot\<close>: the programs of these names and \<open>update_lcov\<close> (\<open>lib.rs\<close>).
  \<^item> \<open>Page\<close>, \<open>Cgi\<close>, \<open>Ci_Status\<close>: output as pieces of text, the dashboard and the client.
  \<^item> \<open>Page_Scripts\<close>: the scripts in the dashboard's pages: the filter of the commit page, and the live status page with the
    tailing of a log as a state machine of clicks, timer ticks and answers.
  \<^item> \<open>Build_Script\<close>: \<open>build.rs\<close>, which compiles the schemas and instantiates the lustre sanity tests.
  \<^item> \<open>Unit_Tests\<close>: the test modules of the crate, run on the model.
  \<^item> This theory: properties that span the job matrix, the collector, the dashboard and the status page.

  \<^bold>\<open>State and operations.\<close> Structs are records and enums datatypes with the fields and variants of the source. An operation
  is a function of the same name that takes the state it reads and returns the state it leaves: the disk for
  programs on the results directory, \<open>store\<close> (map and disk) for \<open>TestResultsStore\<close>, the world of a batch for the daemon. Loop bodies
  are definitions of their own. Errors are values: \<open>option\<close> for \<open>Option\<close> and ignored errors, sums for \<open>Result\<close>, and a constructor or
  \<open>None\<close> for a panic, with the state at that point. \<open>u32\<close>, \<open>u64\<close> and \<open>i64\<close> are words and wrap as in a release build.

  \<^bold>\<open>Parameters.\<close> What is not in the sources is an argument: git (\<open>git2\<close>), the machine's files outside the results
  directory, remote commands, HTTP, Cap'n Proto, serde, JSON5, Brotli, regular expressions, globs, clocks. What the code relies on of them is
  stated by predicates such as \<open>capnp_ok\<close>, \<open>serde_ok\<close>, \<open>querify_ok\<close>, each met by an example used in the witnesses.

  \<^bold>\<open>What the lemmas show.\<close> A batch always settles its subtests and no verdict is overwritten, as long as nobody else changes
  the results of the batch (\<open>undisturbed\<close>, a condition on the other jobs: two users whose branches share a commit can break it). The scheduler
  never holds a job twice. The file of a commit renders what the store holds, except where a write was refused or another program
  changed the file, and the next accepted update repairs it; writing is atomic. The job list is sorted, bounded and without
  duplicates; a configuration is read as its denotation or rejected; keys separate environments, and kernels up to the flattening of
  slashes; durations found are those recorded; the queries return exactly what is recorded, and stop early only at a stated
  gap; the branch log counts every status and reads back in every field. The collector keeps everything that is live,
  hence the results of the newest commits of the matrix, and removes exactly the rest; removals make tests run again. JSON requests are answered
  in the promised form, with one stated panic, and the client sees what the server computed. The batches of an executor
  are at most the points of the matrix that stop being wanted, the idle batches and the unreadable results. Merging coverage loses none,
  whatever fails. The status page shows every executor and job once; the offset of the log it tails is the size of what
  is shown, which is the beginning of the log when the answers are timely. The build script writes exactly its 50
  tests. The unit tests of the crate hold of the model.

  \<^bold>\<open>Bounds and fuel.\<close> There is no fuel: every loop of the sources that is modelled ends and is a total function. The resume
  loop of the daemon decreases on the subtests left, with a proof that it starts at most one machine more than there are subtests;
  the resolution of \<open>extends\<close> decreases on the groups not yet on the path, and a cycle is an error as in the source.

  \<^bold>\<open>Not modelled.\<close> The scheduler of the external crate \<open>jobkit\<close> (threads, priorities, timeouts) is a parameter of which only the jobs
  it holds are assumed; the endless main loop of the daemon is a step relation, one batch being one step; locks are taken as
  atomic steps. Style sheets and the texts of the scripts in a page are opaque
  constants there; what the scripts do is modelled but for scroll positions. Text on
  standard error, and the decimals of floating-point output, which are kept as quotients. Removing a directory tree
  is one step: a refused removal leaves all of it. The panic of \<open>parse_test_results\<close> on a start time outside the range of
  \<open>chrono\<close> is left out (the programs only write the epoch there), and \<open>revwalk().unwrap()\<close> is taken to succeed but in
  \<open>gc-results\<close>, where its failure is a parameter. \<open>distro-kernel-fetch\<close> is one call of
  an external crate. The test harness (\<open>lib\<close>, \<open>tests\<close>, \<open>ci\<close>) is shell and C code that runs on the workers.
\<close>

section \<open>The garbage collector and the job matrix\<close>

text \<open>The commits a spec asks for are live, as far as the collector walks the branch.\<close>

lemma spec_commits_live:
  assumes "cache_fresh H cache" and "spec \<in> set (fst (build_test_specs G H rc cache))"
    and "c \<in> set (take (commit_depth (ktest rc)) (commits spec))"
    and "\<And>rp. repo_path (ktest rc) (ts_repo spec) = Some rp \<Longrightarrow> find_commit G rp c \<noteq> None"
    and live: "get_live_commits revwalk G rc = Some live"
  shows "c \<in> live"
proof -
  from assms(2) obtain user u branch b g rp ids tip
    where cfg: "(user, Inr u) \<in> set (users rc)" "(branch, b) \<in> set (branches u)" "repo_path (ktest rc) (repo b) = Some rp"
      "open_repo G rp" "git_get_commit G rp (user @ ''/'' @ branch) = Some tip" "walk G rp tip = Some ids"
      and spec: "ts_repo spec = repo b" "tg spec = g" "commits spec = take (unat (max_commits g)) (List.map_filter id ids)"
    unfolding build_test_specs_iff [OF assms(1)] by auto
  have "c \<in> set (take (commit_depth (ktest rc)) (List.map_filter id ids))"
    using assms(3) spec(3) subsetD [OF set_take_subset_set_take [of "min (commit_depth (ktest rc)) (unat (max_commits g))" "commit_depth (ktest rc)"]]
    by (simp add: take_take)
  moreover have "find_commit G rp c \<noteq> None" using assms(4) spec(1) cfg(3) by simp
  ultimately have "c \<in> branch_live G (ktest rc) (unwrap_or (keep_results_commits (ktest rc)) 500) user (branch, b)"
    using cfg by (simp add: branch_live_def branch_get_commits_def commit_depth_def)
  then show ?thesis unfolding get_live_commits_iff [OF live] using cfg(1,2) by blast
qed

lemma commit_name_ascii: "commit_name c \<Longrightarrow> is_utf8 c \<and> is_utf8 (c @ ''.capnp'')"
proof -
  assume c: "commit_name c"
  have "(of_char x :: nat) < 0x80" if "is_ascii_hexdigit x" for x
    using that by (cases x) (auto simp: is_ascii_hexdigit_def less_eq_char_def)
  with c show ?thesis by (auto simp: commit_name_def list_all_iff intro!: is_utf8_ascii)
qed

lemma same_data_recorded:
  assumes "same_data (node_at (tree d) (capnp_name c)) (node_at (tree d') (capnp_name c))"
  shows "recorded C d' c k = recorded C d c k"
proof -
  have "commit_read_capnp d' c = commit_read_capnp d c"
    using assms by (auto simp: commit_read_capnp_def read_file_def same_data_def split: option.splits node.splits)
  then show ?thesis by (simp add: recorded_def commitdir_get_results_def)
qed

text \<open>C14: Garbage collection does not cost a result that is still wanted, as far as it looks. For every commit of a test spec of the
  job matrix that is among the newest \<open>keep_results_commits\<close> (500 by default) of the spec and can be read from the
  repository, a run of the collector, with any faults of the disk, leaves every recorded result of the commit and
  everything below its directory as it was. So it causes no such test to run again. A group with a larger
  \<open>max_commits\<close> asks for older commits as well, and for those the collector promises nothing.\<close>

theorem gc_spares_wanted:
  assumes "cache_fresh H cache" and "spec \<in> set (fst (build_test_specs G H rc cache))"
    and "c \<in> set (take (commit_depth (ktest rc)) (commits spec))"
    and "\<And>rp. repo_path (ktest rc) (ts_repo spec) = Some rp \<Longrightarrow> find_commit G rp c \<noteq> None"
    and "commit_name c" and "gc_results revwalk G (Inr rc) dry_run now s = (out, s')"
  shows "(\<forall>k. recorded C (gc_dsk s') c k = recorded C (gc_dsk s) c k) \<and>
    (\<forall>q. q \<noteq> [] \<longrightarrow> node_at (tree (gc_dsk s')) (c # q) = node_at (tree (gc_dsk s)) (c # q))"
proof -
  note live = spec_commits_live [OF assms(1-4)]
  have kept: "same_data (node_at (tree (gc_dsk s)) [n]) (node_at (tree (gc_dsk s')) [n])" if "take 40 n = c" "is_utf8 n" for n
    using that live by (intro gc_results_keeps [OF assms(6)]) (auto simp: dead_def)
  have "take 40 c = c" "take 40 (c @ ''.capnp'') = c" using assms(5) by (simp_all add: commit_name_def)
  then have "same_data (node_at (tree (gc_dsk s)) [c]) (node_at (tree (gc_dsk s')) [c])"
    and "same_data (node_at (tree (gc_dsk s)) [c @ ''.capnp'']) (node_at (tree (gc_dsk s')) [c @ ''.capnp''])"
    using kept commit_name_ascii [OF assms(5)] by blast+
  then show ?thesis
    using same_data_recorded [of "gc_dsk s" c "gc_dsk s'"] same_data_below [of "tree (gc_dsk s)" "[c]" "tree (gc_dsk s')"]
    by (simp add: capnp_name_def)
qed

text \<open>A repository whose branches have one commit, the one with results in \<open>sample_gc\<close>.\<close>

definition sample_live_git :: git2 where
  "sample_live_git = sample_git\<lparr>walk := (\<lambda>_ _. Some [Some sample_old])\<rparr>"

lemma sample_live_spec:
  "sample_spec\<lparr>commits := [sample_old]\<rparr> \<in> set (fst (build_test_specs sample_live_git sample_host sample_rc Map.empty))"
proof -
  have fresh: "cache_fresh sample_host Map.empty" by (simp add: cache_fresh_def)
  show ?thesis
    unfolding build_test_specs_iff [OF fresh]
    by (rule exI [of _ "''kent''"], rule exI [of _ sample_userrc], rule exI [of _ "''master''"],
        rule exI [of _ sample_branch], rule exI [of _ "''fs''"], rule exI [of _ sample_group], rule exI [of _ "[]"],
        rule exI [of _ "''/linux''"], rule exI [of _ "[Some sample_old]"], rule exI [of _ "''ec.ktest''"],
        rule exI [of _ "[''a'', ''b'']"], rule exI [of _ "''c0''"])
      (simp add: sample_rc_def sample_userrc_def sample_branch_def sample_group_def encode_env_def repo_path_def
        sample_ktestrc_def sample_git_def sample_live_git_def git_get_commit_def sample_subtests sample_spec_def map_filter_simps)
qed

theorem gc_spares_wanted_witness:
  "\<exists>out s'. gc_results (\<lambda>_. True) sample_live_git (Inr sample_rc) False 9999 sample_gc = (out, s') \<and>
     node_at (tree (gc_dsk s')) [sample_old, ''t''] = Some (Dir [])"
proof -
  obtain out s' where run: "gc_results (\<lambda>_. True) sample_live_git (Inr sample_rc) False 9999 sample_gc = (out, s')" by fastforce
  have "cache_fresh sample_host Map.empty" by (simp add: cache_fresh_def)
  moreover have "sample_old \<in> set (take (commit_depth (ktest sample_rc)) (commits (sample_spec\<lparr>commits := [sample_old]\<rparr>)))"
    by (simp add: commit_depth_def sample_rc_def sample_ktestrc_def)
  moreover have "find_commit sample_live_git rp c \<noteq> None" for rp c by (simp add: sample_live_git_def sample_git_def)
  moreover have "commit_name sample_old" by (simp add: commit_name_def sample_old_def list_all_iff is_ascii_hexdigit_def less_eq_char_def)
  ultimately have "node_at (tree (gc_dsk s')) [sample_old, ''t''] = node_at (tree (gc_dsk sample_gc)) [sample_old, ''t'']"
    using gc_spares_wanted [OF _ sample_live_spec _ _ _ run, of sample_old] by simp
  then show ?thesis using run by (simp add: sample_gc_def)
qed

section \<open>The garbage collector and the dashboard\<close>

lemma filter_take_subset: "set (filter P (take n xs)) \<subseteq> set (take n (filter P xs))"
proof -
  have "filter P (take n xs) = take (length (filter P (take n xs))) (filter P xs)"
    using filter_append [of P "take n xs" "drop n xs"] by simp
  moreover have "length (filter P (take n xs)) \<le> n"
    using length_filter_le [of P "take n xs"] by simp
  ultimately show ?thesis using set_take_subset_set_take by metis
qed

text \<open>The dashboard walks every commit of a branch the collector keeps.\<close>

lemma live_walked:
  assumes "branch_get_commits revwalk G rp rev_name (unwrap_or (keep_results_commits rc) 500) = Some cs" and "c \<in> set cs"
    and "git_get_commit G rp rev_name = Some tip" and "walk G rp tip = Some ids"
  shows "c \<in> fst ` set (walk_commits G rp (commit_depth rc) ids)"
proof -
  let ?xs = "List.map_filter id ids" and ?P = "\<lambda>i. find_commit G rp i \<noteq> None"
  have "map fst (List.map_filter (\<lambda>c. map_option (\<lambda>msg. (c, msg)) (find_commit G rp c)) xs) = filter ?P xs" for xs
    by (induction xs) (auto simp: map_filter_simps split: option.splits)
  then have "map fst (walk_commits G rp (commit_depth rc) ids) = take (commit_depth rc) (filter ?P ?xs)"
    by (simp add: walk_commits_def take_map [symmetric])
  then have walked: "fst ` set (walk_commits G rp (commit_depth rc) ids) = set (take (commit_depth rc) (filter ?P ?xs))"
    by (metis list.set_map)
  have "c \<in> set (filter ?P (take (commit_depth rc) ?xs))"
    using assms by (auto simp: branch_get_commits_def commit_depth_def split: if_splits)
  then show ?thesis unfolding walked by (rule subsetD [OF filter_take_subset])
qed

text \<open>C18: What the collector keeps, the dashboard shows. A recorded result of a commit the collector keeps for a branch is in the answer of the
  branch query under its commit, unless the query stopped before it: then 101 commits in a row without any result
  come before the commit in the walk, after what is shown.\<close>

theorem viewer_shows_live:
  assumes "branch_get_commits revwalk G rp (user @ ''/'' @ branch) (unwrap_or (keep_results_commits rc) 500) = Some live"
    and "c \<in> set live"
    and "branch_get_results C http G rp rc (Some user) (Some branch) None (\<lambda>_. True) now d = (Inr rs, d')"
    and "recorded C d' c k = Some r"
  shows "(\<exists>cr \<in> set rs. cr_id cr = c \<and> bt_get (cr_tests cr) k = Some r) \<or>
    (\<exists>tip ids i j. git_get_commit G rp (user @ ''/'' @ branch) = Some tip \<and> walk G rp tip = Some ids \<and>
       i < length (walk_commits G rp (commit_depth rc) ids) \<and> fst (walk_commits G rp (commit_depth rc) ids ! i) = c \<and>
       length rs \<le> j \<and> j + 101 \<le> i \<and>
       (\<forall>t \<in> {j..<j + 101}. \<not> any_recorded C d' (\<lambda>_. True) (fst (walk_commits G rp (commit_depth rc) ids ! t))))"
proof -
  from assms(1,2) obtain tip ids
    where walk: "git_get_commit G rp (user @ ''/'' @ branch) = Some tip" "walk G rp tip = Some ids"
    by (auto simp: branch_get_commits_def dest!: sym [of "Some _"] split: option.splits if_splits)
  let ?cs = "walk_commits G rp (commit_depth rc) ids"
  have "query_target (Some user) (Some branch) None = Some (user @ ''/'' @ branch)" by (simp add: query_target_def)
  from branch_get_results_spec [OF this walk HOL.refl, of C http rc "\<lambda>_. True" now d] assms(3)
  have shown: "\<And>i. i < length rs \<Longrightarrow> cr_id (rs ! i) = fst (?cs ! i) \<and>
        (\<forall>k. bt_get (cr_tests (rs ! i)) k = recorded C d' (fst (?cs ! i)) k)"
    and gap: "\<And>i. length rs \<le> i \<Longrightarrow> i < length ?cs \<Longrightarrow> any_recorded C d' (\<lambda>_. True) (fst (?cs ! i)) \<Longrightarrow>
        \<exists>j. length rs \<le> j \<and> j + 101 \<le> i \<and> (\<forall>t \<in> {j..<j + 101}. \<not> any_recorded C d' (\<lambda>_. True) (fst (?cs ! t)))"
    by auto
  from live_walked [OF assms(1,2) walk] obtain i where i: "i < length ?cs" "fst (?cs ! i) = c"
    by (auto simp: in_set_conv_nth)
  show ?thesis
  proof (cases "i < length rs")
    case True
    then show ?thesis using shown [OF True] i assms(4) by (intro disjI1 bexI [of _ "rs ! i"]) simp_all
  next
    case False
    have "any_recorded C d' (\<lambda>_. True) (fst (?cs ! i))" using assms(4) i(2) by (auto simp: any_recorded_def)
    with gap [of i] False i(1) obtain j where j: "length rs \<le> j" "j + 101 \<le> i"
      "\<forall>t \<in> {j..<j + 101}. \<not> any_recorded C d' (\<lambda>_. True) (fst (?cs ! t))"
      by auto
    then show ?thesis using walk i by blast
  qed
qed

theorem viewer_shows_live_witness:
  "\<exists>cr \<in> set [\<lparr> cr_id = ''c0'', cr_message = ''msg'', cr_tests = [] \<rparr>,
     \<lparr> cr_id = ''c1'', cr_message = ''msg'', cr_tests = [(''t.a'', \<lparr> status = Passed, starttime = 0, duration = 3 \<rparr>)] \<rparr>].
     cr_id cr = ''c1'' \<and> bt_get (cr_tests cr) ''t.a'' \<noteq> None"
proof -
  have q: "branch_get_results sample_capnp (\<lambda>_ _. None) sample_git ''/linux'' sample_ktestrc (Some ''kent'') (Some ''master'') None
      (\<lambda>_. True) 0 sample_branch_disk =
    (Inr [\<lparr> cr_id = ''c0'', cr_message = ''msg'', cr_tests = [] \<rparr>,
       \<lparr> cr_id = ''c1'', cr_message = ''msg'', cr_tests = [(''t.a'', \<lparr> status = Passed, starttime = 0, duration = 3 \<rparr>)] \<rparr>],
     sample_branch_disk)"
    by (rule sample_branch_query) (simp add: query_target_def)
  have live: "branch_get_commits (\<lambda>_. True) sample_git ''/linux'' (''kent'' @ ''/'' @ ''master'')
      (unwrap_or (keep_results_commits sample_ktestrc) 500) = Some [''c0'', ''c1'']" "''c1'' \<in> set [''c0'', ''c1'']"
    by (simp_all add: branch_get_commits_def git_get_commit_def sample_git_def map_filter_simps sample_ktestrc_def)
  have r: "recorded sample_capnp sample_branch_disk ''c1'' ''t.a'' = Some \<lparr> status = Passed, starttime = 0, duration = 3 \<rparr>"
    by (simp add: recorded_def sample_branch_results)
  have short: "length (walk_commits sample_git rp n ids) \<le> 2" if "walk sample_git rp tip = Some ids" for rp n tip ids
    using that by (auto simp: walk_commits_def sample_git_def map_filter_simps)
  from viewer_shows_live [OF live q r] show ?thesis
  proof (elim disjE exE conjE)
    fix tip ids i j
    assume "walk sample_git ''/linux'' tip = Some ids" and "j + 101 \<le> i"
      and "i < length (walk_commits sample_git ''/linux'' (commit_depth sample_ktestrc) ids)"
    then show ?thesis using short [of "''/linux''" tip ids "commit_depth sample_ktestrc"] by simp
  qed blast
qed


section \<open>The executors on the status page\<close>

text \<open>The status page puts the executors \<open>main\<close> adds for a host into the box of that host, and into no other.\<close>

lemma executor_host:
  assumes "(name, hst, slot) \<in> set (executors_of rc)" and "CHR '':'' \<notin> set hst" and "ei_name e = name"
  shows "host_of e = hst"
proof -
  have "name = hst @ CHR '':'' # show_nat slot" using assms(1) by (auto simp: executors_of_def)
  then show ?thesis using split_on_append_sep [OF assms(2)] assms(3) by (simp add: host_of_def)
qed

lemma executor_in_box:
  assumes "e \<in> set (s_executors s)" and "(ei_name e, hst, slot) \<in> set (executors_of rc)" and "CHR '':'' \<notin> set hst"
    and "bt_get (group_hosts (s_executors s)) h = Some es"
  shows "e \<in> set es \<longleftrightarrow> h = hst"
  using assms(1,4) executor_host [OF assms(2,3) HOL.refl] by (auto simp: group_hosts_get split: if_splits)

end
